(* ===== verification/Prelude.thy ===== *)
theory Prelude
  imports Complex_Main "HOL-Library.Word" "HOL-Library.AList"
begin

text \<open>
  The shared vocabulary of the development: the machine types of the C++ sources, the ways an
  execution can leave defined behaviour, sequencing of computations that may do so, the
  association-list model of \<open>std::unordered_map\<close>, and the generic lemmas the component
  theories use.
\<close>

section \<open>Machine types\<close>

text \<open>The target is a 64-bit little-endian host: \<open>std::size_t\<close> has 64 bits.\<close>

type_synonym u8 = "8 word"
type_synonym u16 = "16 word"
type_synonym u32 = "32 word"
type_synonym u64 = "64 word"
type_synonym size_t = "64 word"

section \<open>Undefined behaviour and failed calls as values\<close>

text \<open>
  \<open>NullDeref\<close>: a null pointer is dereferenced. \<open>OutOfBounds\<close>: a read or a write outside an
  array. \<open>BadCast\<close>: a floating-point value outside the range of the integer type it is
  converted to. \<open>SignedOverflow\<close>: a signed arithmetic result outside the type. \<open>EndlessLoop\<close>:
  a loop that is never left. \<open>Thrown\<close>: an exception no caller catches.
\<close>

datatype fault = NullDeref | OutOfBounds | BadCast | SignedOverflow | EndlessLoop | Thrown

type_synonym 'a res = "fault + 'a"

definition rbind :: "'a res \<Rightarrow> ('a \<Rightarrow> 'b res) \<Rightarrow> 'b res" where
  "rbind r f = (case r of Inl e \<Rightarrow> Inl e | Inr x \<Rightarrow> f x)"

text \<open>A range-based \<open>for\<close> loop whose body may fault: the loop stops at the first fault.\<close>

fun rfold :: "('a \<Rightarrow> 's \<Rightarrow> 's res) \<Rightarrow> 'a list \<Rightarrow> 's \<Rightarrow> 's res" where
  "rfold f [] s = Inr s"
| "rfold f (x # xs) s = rbind (f x s) (rfold f xs)"

text \<open>Reading an element of a \<open>std::vector\<close> by \<open>operator[]\<close>.\<close>

definition vec_at :: "'a list \<Rightarrow> nat \<Rightarrow> 'a res" where
  "vec_at xs i = (if i < length xs then Inr (xs ! i) else Inl OutOfBounds)"

lemma image_const: "x \<in> A \<Longrightarrow> (\<And>y. y \<in> A \<Longrightarrow> f y = f x) \<Longrightarrow> f ` A = {f x}"
  by blast

lemma drop_drop_append: "c \<le> length xs \<Longrightarrow> drop w (drop c xs @ ys) = drop (c + w) (xs @ ys)"
proof -
  assume "c \<le> length xs"
  then have "drop c xs @ ys = drop c (xs @ ys)" by simp
  then show ?thesis by (metis add.commute drop_drop)
qed

lemma rbind_Inl [simp]: "rbind (Inl e) f = Inl e"
  by (simp add: rbind_def)

lemma rbind_Inr [simp]: "rbind (Inr x) f = f x"
  by (simp add: rbind_def)

lemma rbind_eq_Inr [simp]: "rbind r f = Inr y \<longleftrightarrow> (\<exists>x. r = Inr x \<and> f x = Inr y)"
  by (cases r) auto

lemma rbind_eq_Inl: "rbind r f = Inl e \<longleftrightarrow> r = Inl e \<or> (\<exists>x. r = Inr x \<and> f x = Inl e)"
  by (cases r) auto

lemma rbind_assoc [simp]: "rbind (rbind r f) g = rbind r (\<lambda>x. rbind (f x) g)"
  by (cases r) auto

lemma rbind_cong [fundef_cong]:
  "r = r' \<Longrightarrow> (\<And>x. r' = Inr x \<Longrightarrow> f x = f' x) \<Longrightarrow> rbind r f = rbind r' f'"
  by (cases r') auto

lemma vec_at_Inr [simp]: "vec_at xs i = Inr x \<longleftrightarrow> i < length xs \<and> x = xs ! i"
  by (auto simp: vec_at_def)

lemma rfold_append: "rfold f (xs @ ys) s = rbind (rfold f xs s) (rfold f ys)"
  by (induction xs arbitrary: s) (auto intro!: rbind_cong)

lemma rfold_invariant:
  assumes "rfold f xs s = Inr t" "P s"
    and "\<And>x s t. x \<in> set xs \<Longrightarrow> P s \<Longrightarrow> f x s = Inr t \<Longrightarrow> P t"
  shows "P t"
  using assms by (induction xs arbitrary: s) auto

lemma rfold_total:
  assumes "P s" and "\<And>x s. x \<in> set xs \<Longrightarrow> P s \<Longrightarrow> \<exists>t. f x s = Inr t \<and> P t"
  shows "\<exists>t. rfold f xs s = Inr t \<and> P t"
  using assms
proof (induction xs arbitrary: s)
  case (Cons x xs)
  obtain t where t: "f x s = Inr t" "P t" using Cons.prems by force
  then obtain u where "rfold f xs t = Inr u \<and> P u" using Cons.IH Cons.prems(2) by force
  with t show ?case by auto
qed simp

text \<open>Row-major indices of a grid.\<close>

lemma cell_in_grid: "i < gx \<Longrightarrow> j < gy \<Longrightarrow> j * gx + i < gx * (gy :: nat)"
proof -
  assume "i < gx" "j < gy"
  moreover have "(j + 1) * gx \<le> gy * gx" using \<open>j < gy\<close> by (intro mult_le_mono1) simp
  ultimately show ?thesis by (simp add: mult.commute)
qed

section \<open>\<open>std::unordered_map\<close>\<close>

text \<open>
  A hash map is an association list with distinct keys. The list order stands for the
  iteration order, which the standard leaves open: lemmas about loops over a map hold for
  every order of the list. \<open>operator[]\<close> used as an assignment is \<^const>\<open>AList.update\<close>,
  \<open>erase\<close> is \<^const>\<open>AList.delete\<close>, \<open>find\<close> is \<^const>\<open>map_of\<close>.
\<close>

type_synonym ('k, 'v) umap = "('k \<times> 'v) list"

definition um_wf :: "('k, 'v) umap \<Rightarrow> bool" where
  "um_wf m \<longleftrightarrow> distinct (map fst m)"

text \<open>\<open>m[k]\<close> read: a missing key is inserted with the default value first.\<close>

definition um_touch :: "'v \<Rightarrow> 'k \<Rightarrow> ('k, 'v) umap \<Rightarrow> ('k, 'v) umap" where
  "um_touch v k m = (case map_of m k of None \<Rightarrow> AList.update k v m | Some _ \<Rightarrow> m)"

text \<open>The contract of a key-value store, which the world and the server rely on.\<close>

locale key_store =
  fixes empty :: 'm
    and lookup :: "'m \<Rightarrow> 'k \<Rightarrow> 'v option"
    and store :: "'k \<Rightarrow> 'v \<Rightarrow> 'm \<Rightarrow> 'm"
    and erase :: "'k \<Rightarrow> 'm \<Rightarrow> 'm"
    and entries :: "'m \<Rightarrow> ('k \<times> 'v) list"
    and invar :: "'m \<Rightarrow> bool"
  assumes lookup_empty: "lookup empty = Map.empty"
    and lookup_store: "lookup (store k v m) = (lookup m)(k \<mapsto> v)"
    and lookup_erase: "lookup (erase k m) = (lookup m)(k := None)"
    and entries_lookup: "invar m \<Longrightarrow> map_of (entries m) = lookup m"
    and entries_distinct: "invar m \<Longrightarrow> distinct (map fst (entries m))"
    and invar_empty: "invar empty"
    and invar_store: "invar m \<Longrightarrow> invar (store k v m)"
    and invar_erase: "invar m \<Longrightarrow> invar (erase k m)"
begin

lemma store_then_lookup: "lookup (store k v m) k' = (if k' = k then Some v else lookup m k')"
  by (simp add: lookup_store)

lemma erase_then_lookup: "lookup (erase k m) k' = (if k' = k then None else lookup m k')"
  by (simp add: lookup_erase)

lemma keys_store: "dom (lookup (store k v m)) = insert k (dom (lookup m))"
  by (simp add: lookup_store)

lemma keys_erase: "dom (lookup (erase k m)) = dom (lookup m) - {k}"
  by (simp add: lookup_erase)

lemma entry_iff: "invar m \<Longrightarrow> (k, v) \<in> set (entries m) \<longleftrightarrow> lookup m k = Some v"
  using entries_lookup[of m] entries_distinct[of m] map_of_eq_Some_iff[of "entries m" k v] by simp

lemma entries_keys: "invar m \<Longrightarrow> fst ` set (entries m) = dom (lookup m)"
  using entries_lookup[of m] dom_map_of_conv_image_fst[of "entries m"] by simp

lemma size_card: "invar m \<Longrightarrow> length (entries m) = card (dom (lookup m))"
  using entries_distinct[of m] entries_keys[of m]
  by (metis distinct_card length_map list.set_map)

end

interpretation um: key_store "[]" map_of AList.update AList.delete id um_wf
  by unfold_locales
    (auto simp: um_wf_def update_conv' delete_conv' distinct_update distinct_delete)

lemma um_wf_touch: "um_wf m \<Longrightarrow> um_wf (um_touch v k m)"
  by (auto simp: um_touch_def um.invar_store split: option.splits)

lemma map_of_um_touch:
  "map_of (um_touch v k m) k' = (if k' = k \<and> map_of m k = None then Some v else map_of m k')"
  by (auto simp: um_touch_def update_conv' split: option.splits)

end
