(* ===== verification/Binary64.thy ===== *)
theory Binary64
  imports Prelude "HOL-Library.Log_Nat"
begin

text \<open>
  The C++ type \<open>double\<close>: IEEE 754 binary64 in round-to-nearest-even mode. A double is its
  64-bit pattern, as it stands in memory and on the wire: bit 63 is the sign, bits 52 to 62
  the biased exponent, bits 0 to 51 the fraction. Arithmetic computes the exact rational
  result and rounds it once, so every operation is correctly rounded and executable.
  Which quiet NaN an invalid operation returns is left open by the standard; the model
  returns the positive one with an empty payload.

  The first part is rounding of a non-negative rational to a magnitude (the low 63 bits);
  magnitudes are ordered as the values they stand for. The second part is the operations.
  The locale \<open>rounded_order\<close> states what a client may use: rounding is monotone and leaves
  representable values alone.
\<close>

section \<open>Rounding to a magnitude\<close>

definition round_even :: "rat \<Rightarrow> int" where
  "round_even q = (let f = \<lfloor>q\<rfloor>; r = q - of_int f in
     if r < 1/2 then f else if 1/2 < r then f + 1 else if even f then f else f + 1)"

text \<open>The exponent \<open>k\<close> with \<open>2\<^sup>k \<le> q < 2\<^sup>k\<^sup>+\<^sup>1\<close>.\<close>

definition ilog2 :: "rat \<Rightarrow> int" where
  "ilog2 q = (case quotient_of q of (n, d) \<Rightarrow>
     let k = bitlen n - bitlen d in if q < 2 powi k then k - 1 else k)"

definition mag_exp :: "rat \<Rightarrow> int" where
  "mag_exp q = max (ilog2 q) (-1022)"

text \<open>The magnitude of infinity: all exponent bits set, empty fraction.\<close>

definition inf_mag :: int where
  "inf_mag = 2047 * 2 ^ 52"

text \<open>
  The significand has 53 bits, fewer for the subnormal numbers, where the exponent stays at
  its minimum. A significand that rounds up to \<open>2\<^sup>5\<^sup>3\<close> carries into the exponent field.
\<close>

definition mag_raw :: "rat \<Rightarrow> int" where
  "mag_raw q = (mag_exp q + 1022) * 2 ^ 52 + round_even (q * 2 powi (52 - mag_exp q))"

definition mag_round :: "rat \<Rightarrow> int" where
  "mag_round q = (if q = 0 then 0 else min inf_mag (mag_raw q))"

definition mag_val :: "int \<Rightarrow> rat" where
  "mag_val c = (if c < 2 ^ 52 then of_int c * 2 powi (-1074)
     else of_int (2 ^ 52 + c mod 2 ^ 52) * 2 powi (c div 2 ^ 52 - 1075))"

section \<open>The type and its operations\<close>

type_synonym f64 = "64 word"

definition f64_mag :: "f64 \<Rightarrow> int" where
  "f64_mag a = uint a mod 2 ^ 63"

definition f64_neg :: "f64 \<Rightarrow> bool" where
  "f64_neg a \<longleftrightarrow> 2 ^ 63 \<le> uint a"

definition f64_make :: "bool \<Rightarrow> int \<Rightarrow> f64" where
  "f64_make s c = word_of_int ((if s then 2 ^ 63 else 0) + c)"

definition f64_nan :: f64 where
  "f64_nan = f64_make False (inf_mag + 2 ^ 51)"

definition is_nan :: "f64 \<Rightarrow> bool" where
  "is_nan a \<longleftrightarrow> inf_mag < f64_mag a"

definition is_inf :: "f64 \<Rightarrow> bool" where
  "is_inf a \<longleftrightarrow> f64_mag a = inf_mag"

definition is_fin :: "f64 \<Rightarrow> bool" where
  "is_fin a \<longleftrightarrow> f64_mag a < inf_mag"

definition f64_val :: "f64 \<Rightarrow> rat" where
  "f64_val a = (if f64_neg a then - mag_val (f64_mag a) else mag_val (f64_mag a))"

text \<open>The position of a double in the order of all doubles; both zeros have position 0.\<close>

definition f64_key :: "f64 \<Rightarrow> int" where
  "f64_key a = (if f64_neg a then - f64_mag a else f64_mag a)"

definition rnd_key :: "rat \<Rightarrow> int" where
  "rnd_key q = (if q < 0 then - mag_round (- q) else mag_round q)"

text \<open>Round a rational; \<open>s\<close> is the sign of an exact zero.\<close>

definition f64_round :: "bool \<Rightarrow> rat \<Rightarrow> f64" where
  "f64_round s q = f64_make (if q = 0 then s else q < 0) (mag_round \<bar>q\<bar>)"

text \<open>An integer converted to \<open>double\<close>, and a decimal literal of the sources.\<close>

definition f64_of_int :: "int \<Rightarrow> f64" where
  "f64_of_int n = f64_round False (of_int n)"

definition f64_lit :: "rat \<Rightarrow> f64" where
  "f64_lit q = f64_round False q"

definition f64_inf :: "bool \<Rightarrow> f64" where
  "f64_inf s = f64_make s inf_mag"

definition f64_minus :: "f64 \<Rightarrow> f64" where
  "f64_minus a = f64_make (\<not> f64_neg a) (f64_mag a)"

definition f64_add :: "f64 \<Rightarrow> f64 \<Rightarrow> f64" where
  "f64_add a b =
     (if is_nan a \<or> is_nan b then f64_nan
      else if is_inf a then (if is_inf b \<and> f64_neg a \<noteq> f64_neg b then f64_nan else a)
      else if is_inf b then b
      else f64_round (f64_neg a \<and> f64_neg b) (f64_val a + f64_val b))"

definition f64_sub :: "f64 \<Rightarrow> f64 \<Rightarrow> f64" where
  "f64_sub a b = f64_add a (f64_minus b)"

definition f64_mul :: "f64 \<Rightarrow> f64 \<Rightarrow> f64" where
  "f64_mul a b =
     (let s = (f64_neg a \<noteq> f64_neg b) in
      if is_nan a \<or> is_nan b then f64_nan
      else if is_inf a then (if f64_mag b = 0 then f64_nan else f64_inf s)
      else if is_inf b then (if f64_mag a = 0 then f64_nan else f64_inf s)
      else f64_round s (f64_val a * f64_val b))"

definition f64_div :: "f64 \<Rightarrow> f64 \<Rightarrow> f64" where
  "f64_div a b =
     (let s = (f64_neg a \<noteq> f64_neg b) in
      if is_nan a \<or> is_nan b then f64_nan
      else if is_inf a then (if is_inf b then f64_nan else f64_inf s)
      else if is_inf b then f64_make s 0
      else if f64_mag b = 0 then (if f64_mag a = 0 then f64_nan else f64_inf s)
      else f64_round s (f64_val a / f64_val b))"

definition f64_lt :: "f64 \<Rightarrow> f64 \<Rightarrow> bool" where
  "f64_lt a b \<longleftrightarrow> \<not> is_nan a \<and> \<not> is_nan b \<and> f64_key a < f64_key b"

definition f64_le :: "f64 \<Rightarrow> f64 \<Rightarrow> bool" where
  "f64_le a b \<longleftrightarrow> \<not> is_nan a \<and> \<not> is_nan b \<and> f64_key a \<le> f64_key b"

definition f64_eq :: "f64 \<Rightarrow> f64 \<Rightarrow> bool" where
  "f64_eq a b \<longleftrightarrow> \<not> is_nan a \<and> \<not> is_nan b \<and> f64_key a = f64_key b"

text \<open>\<open>std::fmin\<close>, \<open>std::fmax\<close>: a NaN argument is ignored.\<close>

definition f64_fmin :: "f64 \<Rightarrow> f64 \<Rightarrow> f64" where
  "f64_fmin a b = (if is_nan a then b else if is_nan b then a else if f64_key b < f64_key a then b else a)"

definition f64_fmax :: "f64 \<Rightarrow> f64 \<Rightarrow> f64" where
  "f64_fmax a b = (if is_nan a then b else if is_nan b then a else if f64_key a < f64_key b then b else a)"

text \<open>\<open>std::floor\<close>.\<close>

definition f64_floor :: "f64 \<Rightarrow> f64" where
  "f64_floor a = (if \<not> is_fin a then a else f64_round (f64_neg a) (of_int \<lfloor>f64_val a\<rfloor>))"

text \<open>
  Conversion to \<open>std::size_t\<close> truncates; it is undefined where the truncated value is not a
  value of the type.
\<close>

definition f64_to_size :: "f64 \<Rightarrow> size_t res" where
  "f64_to_size a =
     (if is_fin a \<and> -1 < f64_val a \<and> f64_val a < 2 ^ 64
      then Inr (word_of_int (if f64_val a < 0 then 0 else \<lfloor>f64_val a\<rfloor>)) else Inl BadCast)"

section \<open>Rounding is monotone and exact on representable values\<close>

lemma round_even_of_int [simp]: "round_even (of_int n) = n"
  by (simp add: round_even_def)

lemma round_even_mono:
  assumes "p \<le> q"
  shows "round_even p \<le> round_even q"
proof (cases "\<lfloor>p\<rfloor> = \<lfloor>q\<rfloor>")
  case True
  with assms show ?thesis by (auto simp: round_even_def Let_def)
next
  case False
  with assms floor_mono[OF assms] have "\<lfloor>p\<rfloor> + 1 \<le> \<lfloor>q\<rfloor>" by linarith
  moreover have "round_even p \<le> \<lfloor>p\<rfloor> + 1" "\<lfloor>q\<rfloor> \<le> round_even q"
    by (auto simp: round_even_def Let_def)
  ultimately show ?thesis by linarith
qed

lemma powi2_pos [simp]: "0 < (2::rat) powi n"
  by simp

lemma powi2_add: "(2::rat) powi (m + n) = 2 powi m * 2 powi n"
  by (simp add: power_int_add)

lemma powi2_less: "m < n \<Longrightarrow> (2::rat) powi m < 2 powi n"
  by (rule power_int_strict_increasing) simp_all

lemma powi2_le: "m \<le> n \<Longrightarrow> (2::rat) powi m \<le> 2 powi n"
  by (rule power_int_increasing) simp_all

lemma powi2_nat: "0 \<le> n \<Longrightarrow> (2::rat) powi n = of_int (2 ^ nat n)"
  by (simp add: power_int_def)

lemma ilog2_bounds:
  assumes "0 < q"
  shows "2 powi (ilog2 q) \<le> q \<and> q < 2 powi (ilog2 q + 1)"
proof -
  obtain n d where nd: "quotient_of q = (n, d)" by (cases "quotient_of q")
  then have q: "q = of_int n / of_int d" and d: "0 < d"
    by (simp_all add: quotient_of_div quotient_of_denom_pos)
  with assms have n: "0 < n" by (simp add: zero_less_divide_iff)
  define bn bd where "bn = bitlen n" and "bd = bitlen d"
  have pos: "0 < bn" "0 < bd"
    using n d bitlen_nonneg[of n] bitlen_nonneg[of d] bitlen_eq_zero_iff[of n] bitlen_eq_zero_iff[of d]
    by (auto simp: bn_def bd_def)
  have n': "2 powi (bn - 1) \<le> rat_of_int n" "rat_of_int n < 2 powi bn"
    using bitlen_bounds[OF n] pos unfolding bn_def
    by (simp_all only: powi2_nat of_int_le_iff of_int_less_iff)
  have d': "2 powi (bd - 1) \<le> rat_of_int d" "rat_of_int d < 2 powi bd"
    using bitlen_bounds[OF d] pos unfolding bd_def
    by (simp_all only: powi2_nat of_int_le_iff of_int_less_iff)
  have "2 powi (bn - bd - 1) * rat_of_int d \<le> 2 powi (bn - bd - 1) * 2 powi bd"
    using d' by (intro mult_left_mono) auto
  also have "\<dots> = 2 powi (bn - 1)" by (simp flip: powi2_add)
  finally have lo: "2 powi (bn - bd - 1) \<le> q"
    using n' d by (simp add: q field_simps)
  have "(2::rat) powi bn = 2 powi (bn - bd + 1) * 2 powi (bd - 1)" by (simp flip: powi2_add)
  also have "\<dots> \<le> 2 powi (bn - bd + 1) * rat_of_int d"
    using d' by (intro mult_left_mono) auto
  finally have hi: "q < 2 powi (bn - bd + 1)"
    using n' d by (simp add: q field_simps)
  from lo hi show ?thesis
    by (auto simp: ilog2_def nd Let_def bn_def bd_def not_less)
qed


lemma ilog2_unique:
  assumes "2 powi k \<le> q" "q < 2 powi (k + 1)"
  shows "ilog2 q = k"
proof -
  have "0 < q" using assms(1) powi2_pos[of k] by linarith
  from ilog2_bounds[OF this] have l: "2 powi (ilog2 q) \<le> q" "q < 2 powi (ilog2 q + 1)" by auto
  have "\<not> k < ilog2 q" using powi2_le[of "k + 1" "ilog2 q"] l assms by auto
  moreover have "\<not> ilog2 q < k" using powi2_le[of "ilog2 q + 1" k] l assms by auto
  ultimately show ?thesis by simp
qed

lemma ilog2_mono:
  assumes "0 < p" "p \<le> q"
  shows "ilog2 p \<le> ilog2 q"
proof (rule ccontr)
  assume "\<not> ilog2 p \<le> ilog2 q"
  then have "(2::rat) powi (ilog2 q + 1) \<le> 2 powi (ilog2 p)" by (intro powi2_le) simp
  with ilog2_bounds[of p] ilog2_bounds[of q] assms show False by linarith
qed

lemma mag_scaled_upper:
  assumes "0 < q" shows "q * 2 powi (52 - mag_exp q) < 2 ^ 53"
proof -
  have "q < 2 powi (mag_exp q + 1)"
    using ilog2_bounds[OF assms] powi2_le[of "ilog2 q + 1" "mag_exp q + 1"] by (simp add: mag_exp_def)
  then have "q * 2 powi (52 - mag_exp q) < 2 powi (mag_exp q + 1) * 2 powi (52 - mag_exp q)"
    by (intro mult_strict_right_mono) auto
  also have "\<dots> = 2 powi 53" by (simp flip: powi2_add)
  finally show ?thesis by simp
qed

lemma mag_scaled_lower:
  assumes "0 < q" "-1022 < mag_exp q" shows "2 ^ 52 \<le> q * 2 powi (52 - mag_exp q)"
proof -
  have "mag_exp q = ilog2 q" using assms(2) by (auto simp: mag_exp_def)
  with ilog2_bounds[OF assms(1)] have "2 powi (mag_exp q) \<le> q" by simp
  then have "2 powi (mag_exp q) * 2 powi (52 - mag_exp q) \<le> q * 2 powi (52 - mag_exp q)"
    by (intro mult_right_mono) auto
  moreover have "(2::rat) powi (mag_exp q) * 2 powi (52 - mag_exp q) = 2 powi 52"
    by (simp flip: powi2_add)
  ultimately show ?thesis by simp
qed

lemma mag_raw_mono:
  assumes "0 < p" "p \<le> q"
  shows "mag_raw p \<le> mag_raw q"
proof (cases "mag_exp p = mag_exp q")
  case True
  have "p * 2 powi (52 - mag_exp q) \<le> q * 2 powi (52 - mag_exp q)"
    using assms by (intro mult_right_mono) auto
  from round_even_mono[OF this] True show ?thesis by (simp add: mag_raw_def)
next
  case False
  have le: "mag_exp p + 1 \<le> mag_exp q" using False ilog2_mono[OF assms] by (auto simp: mag_exp_def)
  have "-1022 < mag_exp q" using le by (auto simp: mag_exp_def)
  then have lo: "2 ^ 52 \<le> round_even (q * 2 powi (52 - mag_exp q))"
    using round_even_mono[OF mag_scaled_lower, of q] assms round_even_of_int[of "2 ^ 52"] by simp
  have hi: "round_even (p * 2 powi (52 - mag_exp p)) \<le> 2 ^ 53"
    using round_even_mono[OF less_imp_le[OF mag_scaled_upper], of p] assms round_even_of_int[of "2 ^ 53"] by simp
  have "(mag_exp p + 1023) * 2 ^ 52 \<le> (mag_exp q + 1022) * 2 ^ 52"
    using le by (intro mult_right_mono) auto
  with lo hi show ?thesis by (simp add: mag_raw_def algebra_simps)
qed

lemma mag_raw_nonneg: "0 < q \<Longrightarrow> 0 \<le> mag_raw q"
  using round_even_mono[of 0 "q * 2 powi (52 - mag_exp q)"] round_even_of_int[of 0]
  by (simp add: mag_raw_def mag_exp_def)

lemma mag_round_mono:
  assumes "0 \<le> p" "p \<le> q"
  shows "mag_round p \<le> mag_round q"
  using assms mag_raw_mono[of p q] mag_raw_nonneg[of q]
  by (auto simp: mag_round_def inf_mag_def)

lemma mag_val_round:
  assumes "0 \<le> c" "c < inf_mag"
  shows "mag_round (mag_val c) = c"
proof (cases "c < 2 ^ 52")
  case sub: True
  show ?thesis
  proof (cases "c = 0")
    case False
    define q where "q = mag_val c"
    have q: "q = of_int c * 2 powi (-1074)" using sub by (simp add: q_def mag_val_def)
    have q0: "0 < q" using False assms by (simp add: q)
    have "rat_of_int c < of_int (2 ^ 52)" using sub by (simp only: of_int_less_iff)
    then have "q < of_int (2 ^ 52) * 2 powi (-1074)"
      unfolding q by (intro mult_strict_right_mono) simp_all
    also have "\<dots> = 2 powi (-1022)" using powi2_add[of 52 "-1074"] by simp
    finally have "ilog2 q < -1022"
      using ilog2_bounds[OF q0] powi2_le[of "-1022" "ilog2 q"] by linarith
    then have "mag_exp q = -1022" by (simp add: mag_exp_def)
    moreover have "q * 2 powi 1074 = of_int c"
      using powi2_add[of "-1074" 1074] by (simp add: q)
    ultimately have "mag_raw q = c" by (simp add: mag_raw_def)
    with q0 assms show ?thesis by (simp add: mag_round_def q_def)
  qed (simp add: mag_val_def mag_round_def)
next
  case False
  define E F where "E = c div 2 ^ 52" and "F = c mod 2 ^ 52"
  have c: "c = E * 2 ^ 52 + F" and F: "0 \<le> F" "F < 2 ^ 52" by (simp_all add: E_def F_def)
  have E: "1 \<le> E" using False zdiv_mono1[of "2^52" c "2^52"] by (simp add: E_def)
  define q where "q = mag_val c"
  have q: "q = of_int (2 ^ 52 + F) * 2 powi (E - 1075)" using False by (simp add: q_def mag_val_def E_def F_def)
  have lo: "2 powi (E - 1023) \<le> q"
  proof -
    have "(2::rat) powi (E - 1023) = 2 ^ 52 * 2 powi (E - 1075)"
      using powi2_add[of 52 "E - 1075"] by simp
    also have "\<dots> \<le> q" unfolding q using F by (intro mult_right_mono) simp_all
    finally show ?thesis .
  qed
  have hi: "q < 2 powi (E - 1023 + 1)"
  proof -
    have "rat_of_int (2 ^ 52 + F) < of_int (2 ^ 53)" using F by (simp only: of_int_less_iff) simp
    then have "q < of_int (2 ^ 53) * 2 powi (E - 1075)" unfolding q by (intro mult_strict_right_mono) simp_all
    also have "\<dots> = 2 powi (E - 1023 + 1)"
      using powi2_add[of 53 "E - 1075"] by (simp add: algebra_simps)
    finally show ?thesis .
  qed
  have e: "mag_exp q = E - 1023" using ilog2_unique[OF lo hi] E by (simp add: mag_exp_def)
  have "q * 2 powi (52 - (E - 1023)) = of_int (2 ^ 52 + F)"
    using powi2_add[of "E - 1075" "52 - (E - 1023)"] by (simp add: q algebra_simps)
  then have "mag_raw q = c" by (simp add: mag_raw_def e c round_even_of_int del: of_int_add)
  moreover have "q \<noteq> 0" using lo powi2_pos[of "E - 1023"] by linarith
  ultimately show ?thesis using assms by (simp add: mag_round_def q_def)
qed

lemma mag_round_bounds: "0 \<le> q \<Longrightarrow> 0 \<le> mag_round q \<and> mag_round q \<le> inf_mag"
  using mag_raw_nonneg[of q] by (auto simp: mag_round_def inf_mag_def)

lemma inf_mag_bounds: "0 < inf_mag" "inf_mag + 2 ^ 51 < 2 ^ 63"
  by (simp_all add: inf_mag_def)

lemma mag_val_nonneg: "0 \<le> c \<Longrightarrow> 0 \<le> mag_val c"
  by (simp add: mag_val_def)

lemma rnd_key_mono:
  assumes "p \<le> q"
  shows "rnd_key p \<le> rnd_key q"
  using assms mag_round_mono[of p q] mag_round_mono[of "- q" "- p"]
    mag_round_bounds[of q] mag_round_bounds[of "- p"]
  by (auto simp: rnd_key_def not_less)

lemma rnd_key_uminus: "rnd_key (- q) = - rnd_key q"
  by (auto simp: rnd_key_def mag_round_def)

lemma rnd_key_bounds: "\<bar>rnd_key q\<bar> \<le> inf_mag"
  using mag_round_bounds[of q] mag_round_bounds[of "- q"] by (auto simp: rnd_key_def)

section \<open>Encoding and decoding\<close>

lemma f64_mag_bounds: "0 \<le> f64_mag a \<and> f64_mag a < 2 ^ 63"
  by (simp add: f64_mag_def)

lemma f64_make_decode:
  assumes "0 \<le> c" "c < 2 ^ 63"
  shows "f64_mag (f64_make s c) = c" "f64_neg (f64_make s c) = s"
proof -
  have "uint (f64_make s c) = (if s then 2 ^ 63 else 0) + c"
    unfolding f64_make_def uint_word_of_int using assms by (intro mod_pos_pos_trivial) auto
  with assms show "f64_mag (f64_make s c) = c" "f64_neg (f64_make s c) = s"
    by (simp_all add: f64_mag_def f64_neg_def)
qed

lemma f64_make_key: "0 \<le> c \<Longrightarrow> c < 2 ^ 63 \<Longrightarrow> f64_key (f64_make s c) = (if s then - c else c)"
  by (simp add: f64_key_def f64_make_decode)

lemma f64_classes: "is_nan a \<or> is_inf a \<or> is_fin a" "is_fin a \<Longrightarrow> \<not> is_nan a \<and> \<not> is_inf a"
  "is_inf a \<Longrightarrow> \<not> is_nan a"
  by (auto simp: is_nan_def is_inf_def is_fin_def)

lemma is_fin_key: "is_fin a \<longleftrightarrow> \<bar>f64_key a\<bar> < inf_mag"
  using f64_mag_bounds[of a] by (auto simp: is_fin_def f64_key_def)

lemma is_inf_key: "is_inf a \<longleftrightarrow> \<bar>f64_key a\<bar> = inf_mag"
  using f64_mag_bounds[of a] by (auto simp: is_inf_def f64_key_def)

lemma is_nan_key: "is_nan a \<longleftrightarrow> inf_mag < \<bar>f64_key a\<bar>"
  using f64_mag_bounds[of a] by (auto simp: is_nan_def f64_key_def)

lemma rnd_key_val: "is_fin a \<Longrightarrow> rnd_key (f64_val a) = f64_key a"
  using mag_val_round[of "f64_mag a"] mag_val_nonneg[of "f64_mag a"] f64_mag_bounds[of a]
  by (auto simp: rnd_key_def f64_val_def f64_key_def is_fin_def mag_round_def not_less)

lemma f64_key_round: "f64_key (f64_round s q) = rnd_key q"
proof -
  have "0 \<le> mag_round \<bar>q\<bar>" "mag_round \<bar>q\<bar> < 2 ^ 63"
    using mag_round_bounds[of "\<bar>q\<bar>"] inf_mag_bounds by auto
  then show ?thesis
    by (auto simp: f64_round_def f64_make_key rnd_key_def mag_round_def)
qed

lemma round_not_nan [simp]: "\<not> is_nan (f64_round s q)"
  using rnd_key_bounds[of q] by (simp add: is_nan_key f64_key_round)

lemma f64_val_cong:
  assumes "f64_key a = f64_key b"
  shows "f64_val a = f64_val b"
proof -
  have "f64_mag a = f64_mag b \<and> (f64_neg a = f64_neg b \<or> f64_mag a = 0)"
    using assms f64_mag_bounds[of a] f64_mag_bounds[of b]
    by (auto simp: f64_key_def split: if_splits)
  moreover have "mag_val 0 = 0" by (simp add: mag_val_def)
  ultimately show ?thesis by (auto simp: f64_val_def)
qed

section \<open>The order interface\<close>

text \<open>
  What the physics uses of floating-point numbers: positions in the order, the exact value of
  a finite number, and a rounding that is monotone, symmetric and the identity on the
  representable values.
\<close>

locale rounded_order =
  fixes key :: "'a \<Rightarrow> int" and val :: "'a \<Rightarrow> rat" and fin :: "'a \<Rightarrow> bool" and rkey :: "rat \<Rightarrow> int"
  assumes rkey_mono: "p \<le> q \<Longrightarrow> rkey p \<le> rkey q"
    and rkey_val: "fin a \<Longrightarrow> rkey (val a) = key a"
    and rkey_minus: "rkey (- q) = - rkey q"
    and val_cong: "fin a \<Longrightarrow> fin b \<Longrightarrow> key a = key b \<Longrightarrow> val a = val b"
begin

lemma val_less_iff: "fin a \<Longrightarrow> fin b \<Longrightarrow> val a < val b \<longleftrightarrow> key a < key b"
  using rkey_mono[of "val a" "val b"] rkey_mono[of "val b" "val a"] rkey_val[of a] rkey_val[of b]
    val_cong[of a b] by (cases "val a < val b") force+

lemma val_le_iff: "fin a \<Longrightarrow> fin b \<Longrightarrow> val a \<le> val b \<longleftrightarrow> key a \<le> key b"
  using val_less_iff[of b a] by auto

lemma val_eq_iff: "fin a \<Longrightarrow> fin b \<Longrightarrow> val a = val b \<longleftrightarrow> key a = key b"
  using val_le_iff[of a b] val_le_iff[of b a] by auto

lemma round_le: "fin a \<Longrightarrow> q \<le> val a \<Longrightarrow> rkey q \<le> key a"
  using rkey_mono[of q "val a"] rkey_val[of a] by simp

lemma round_ge: "fin a \<Longrightarrow> val a \<le> q \<Longrightarrow> key a \<le> rkey q"
  using rkey_mono[of "val a" q] rkey_val[of a] by simp

lemma round_less_imp: "fin a \<Longrightarrow> rkey q < key a \<Longrightarrow> q < val a"
  using round_ge[of a q] by (auto simp: not_less[symmetric])

lemma round_greater_imp: "fin a \<Longrightarrow> key a < rkey q \<Longrightarrow> val a < q"
  using round_le[of a q] by (auto simp: not_less[symmetric])

lemma rkey_zero: "rkey 0 = 0"
  using rkey_minus[of 0] by simp

lemma rkey_nonneg: "0 \<le> q \<Longrightarrow> 0 \<le> rkey q"
  using rkey_mono[of 0 q] rkey_zero by simp

end

interpretation f64o: rounded_order f64_key f64_val is_fin rnd_key
  by unfold_locales
    (erule rnd_key_mono rnd_key_val | rule rnd_key_uminus | rule f64_val_cong, assumption)+

lemma f64_zero_facts [simp]: "is_fin 0" "f64_val 0 = 0" "f64_key 0 = 0" "\<not> is_nan 0"
  by (simp_all add: is_fin_def is_nan_def f64_mag_def inf_mag_def f64_val_def mag_val_def f64_key_def)

lemma f64_val_zero_iff:
  assumes "is_fin a"
  shows "f64_val a = 0 \<longleftrightarrow> f64_mag a = 0"
proof -
  have "f64_key a = 0 \<longleftrightarrow> f64_mag a = 0" by (auto simp: f64_key_def)
  with f64o.val_eq_iff[OF assms, of 0] show ?thesis by simp
qed

section \<open>The operations on finite numbers\<close>

text \<open>
  On finite arguments every operation returns the rounding of the exact result; the position
  of the result is \<^const>\<open>rnd_key\<close> of it, an overflow included.
\<close>

lemma f64_neg_minus [simp]: "f64_neg (f64_minus a) = (\<not> f64_neg a)"
  and f64_mag_minus [simp]: "f64_mag (f64_minus a) = f64_mag a"
  using f64_mag_bounds[of a] by (simp_all add: f64_minus_def f64_make_decode)

lemma f64_minus_simps [simp]:
  "is_fin (f64_minus a) = is_fin a" "is_nan (f64_minus a) = is_nan a"
  "is_inf (f64_minus a) = is_inf a" "f64_val (f64_minus a) = - f64_val a"
  "f64_key (f64_minus a) = - f64_key a"
  by (simp_all add: is_fin_def is_nan_def is_inf_def f64_val_def f64_key_def)

lemma f64_add_fin: "is_fin a \<Longrightarrow> is_fin b \<Longrightarrow>
    f64_add a b = f64_round (f64_neg a \<and> f64_neg b) (f64_val a + f64_val b)"
  by (simp add: f64_add_def f64_classes)

lemma f64_sub_fin: "is_fin a \<Longrightarrow> is_fin b \<Longrightarrow>
    f64_sub a b = f64_round (f64_neg a \<and> \<not> f64_neg b) (f64_val a - f64_val b)"
  by (simp add: f64_sub_def f64_add_fin)

lemma f64_mul_fin: "is_fin a \<Longrightarrow> is_fin b \<Longrightarrow>
    f64_mul a b = f64_round (f64_neg a \<noteq> f64_neg b) (f64_val a * f64_val b)"
  by (simp add: f64_mul_def f64_classes Let_def)

lemma f64_div_fin: "is_fin a \<Longrightarrow> is_fin b \<Longrightarrow> f64_val b \<noteq> 0 \<Longrightarrow>
    f64_div a b = f64_round (f64_neg a \<noteq> f64_neg b) (f64_val a / f64_val b)"
  by (simp add: f64_div_def f64_classes Let_def f64_val_zero_iff)

lemma f64_op_keys:
  assumes "is_fin a" "is_fin b"
  shows "f64_key (f64_add a b) = rnd_key (f64_val a + f64_val b)"
    and "f64_key (f64_sub a b) = rnd_key (f64_val a - f64_val b)"
    and "f64_key (f64_mul a b) = rnd_key (f64_val a * f64_val b)"
    and "f64_val b \<noteq> 0 \<Longrightarrow> f64_key (f64_div a b) = rnd_key (f64_val a / f64_val b)"
  using assms by (simp_all add: f64_add_fin f64_sub_fin f64_mul_fin f64_div_fin f64_key_round)

lemma f64_op_not_nan:
  assumes "is_fin a" "is_fin b"
  shows "\<not> is_nan (f64_add a b)" "\<not> is_nan (f64_sub a b)" "\<not> is_nan (f64_mul a b)"
    "f64_val b \<noteq> 0 \<Longrightarrow> \<not> is_nan (f64_div a b)"
  using assms by (simp_all add: f64_add_fin f64_sub_fin f64_mul_fin f64_div_fin)

lemma f64_lt_fin: "is_fin a \<Longrightarrow> is_fin b \<Longrightarrow> f64_lt a b \<longleftrightarrow> f64_val a < f64_val b"
  and f64_le_fin: "is_fin a \<Longrightarrow> is_fin b \<Longrightarrow> f64_le a b \<longleftrightarrow> f64_val a \<le> f64_val b"
  and f64_eq_fin: "is_fin a \<Longrightarrow> is_fin b \<Longrightarrow> f64_eq a b \<longleftrightarrow> f64_val a = f64_val b"
  by (simp_all add: f64_lt_def f64_le_def f64_eq_def f64_classes
      f64o.val_less_iff f64o.val_le_iff f64o.val_eq_iff)

section \<open>Exact results\<close>

text \<open>
  A dyadic rational with a significand below \<open>2 ^ 53\<close> is represented exactly; so are the
  integers of the program (tile coordinates, sizes, velocities), on which the rounding
  operations agree with integer arithmetic.
\<close>

lemma int_div_mod_unique: "0 \<le> r \<Longrightarrow> r < d \<Longrightarrow> (k * d + r) div d = k \<and> (k * d + r) mod d = (r :: int)"
  by auto

lemma mag_val_raw:
  assumes "0 < q" and m: "q * 2 powi (52 - mag_exp q) = of_int m"
  shows "mag_val (mag_raw q) = q"
proof -
  define e where "e = mag_exp q"
  have raw: "mag_raw q = (e + 1022) * 2 ^ 52 + m" by (simp add: mag_raw_def m e_def)
  have "of_int m * 2 powi (e - 52) = q * (2 powi (52 - e) * 2 powi (e - 52))"
    by (simp add: e_def flip: m)
  then have q: "of_int m * 2 powi (e - 52) = q" by (simp flip: powi2_add)
  have m0: "0 < m" using assms(1) unfolding q[symmetric] using powi2_pos[of "e - 52"] by (auto simp: zero_less_mult_iff)
  have "rat_of_int m < of_int (2 ^ 53)" using mag_scaled_upper[OF assms(1)] unfolding m by simp
  then have up: "m < 2 ^ 53" by (simp only: of_int_less_iff)
  have e: "-1022 \<le> e" by (simp add: e_def mag_exp_def)
  show ?thesis
  proof (cases "m < 2 ^ 52")
    case True
    have "\<not> -1022 < e"
    proof
      assume "-1022 < e"
      then have "rat_of_int (2 ^ 52) \<le> of_int m" using mag_scaled_lower[OF assms(1)] unfolding m e_def by simp
      with True show False by (simp only: of_int_le_iff)
    qed
    with e have "e = -1022" by simp
    then show ?thesis using True q by (simp add: mag_val_def raw)
  next
    case False
    have c: "mag_raw q = (e + 1023) * 2 ^ 52 + (m - 2 ^ 52)" by (simp add: raw algebra_simps)
    have "mag_raw q div 2 ^ 52 = e + 1023" "mag_raw q mod 2 ^ 52 = m - 2 ^ 52"
      unfolding c using False up int_div_mod_unique[of "m - 2 ^ 52" "2 ^ 52" "e + 1023"] by simp_all
    moreover have "\<not> mag_raw q < 2 ^ 52" using False e by (simp add: raw)
    ultimately show ?thesis using q by (simp add: mag_val_def)
  qed
qed

lemma mag_raw_val: "0 < q \<Longrightarrow> q < 2 powi 1024 \<Longrightarrow> q * 2 powi (52 - mag_exp q) = of_int m \<Longrightarrow> mag_raw q < inf_mag"
proof -
  assume q: "0 < q" "q < 2 powi 1024" and m: "q * 2 powi (52 - mag_exp q) = of_int m"
  have "ilog2 q < 1024" using ilog2_bounds[OF q(1)] q(2) powi2_le[of 1024 "ilog2 q"] by linarith
  then have e: "mag_exp q + 1022 \<le> 2045" by (simp add: mag_exp_def)
  have "rat_of_int m < of_int (2 ^ 53)" using mag_scaled_upper[OF q(1)] unfolding m by simp
  then have "m < 2 ^ 53" by (simp only: of_int_less_iff)
  moreover have "(mag_exp q + 1022) * 2 ^ 52 \<le> 2045 * 2 ^ 52" using e by (intro mult_right_mono) simp_all
  ultimately show ?thesis by (simp add: mag_raw_def m inf_mag_def)
qed

lemma dyadic_scaled:
  assumes "0 < m" "m < 2 ^ 53" "-1074 \<le> k"
  shows "\<exists>n. (of_int m * 2 powi k) * 2 powi (52 - mag_exp (of_int m * 2 powi k)) = rat_of_int n"
proof -
  let ?q = "rat_of_int m * 2 powi k"
  have q0: "0 < ?q" using assms by simp
  have "rat_of_int m < of_int (2 ^ 53)" using assms(2) by (simp only: of_int_less_iff)
  then have "?q < of_int (2 ^ 53) * 2 powi k" by (intro mult_strict_right_mono) simp_all
  also have "\<dots> = 2 powi (53 + k)" using powi2_add[of 53 k] by simp
  finally have "ilog2 ?q < 53 + k" using ilog2_bounds[OF q0] powi2_le[of "53 + k" "ilog2 ?q"] by linarith
  then have nn: "0 \<le> k + (52 - mag_exp ?q)" using assms(3) by (simp add: mag_exp_def)
  have "?q * 2 powi (52 - mag_exp ?q) = of_int m * 2 powi (k + (52 - mag_exp ?q))"
    by (simp only: powi2_add mult.assoc)
  also have "\<dots> = of_int (m * 2 ^ nat (k + (52 - mag_exp ?q)))"
    using nn by (simp only: powi2_nat of_int_mult)
  finally show ?thesis by blast
qed

text \<open>A dyadic rational with at most 53 significant bits and no overflow is represented exactly.\<close>

lemma mag_round_dyadic:
  assumes "0 \<le> m" "m < 2 ^ 53" "-1074 \<le> k" "of_int m * 2 powi k < (2::rat) powi 1024"
  shows "mag_val (mag_round (of_int m * 2 powi k)) = of_int m * 2 powi k"
    and "mag_round (of_int m * 2 powi k) < inf_mag"
proof (atomize (full), cases "m = 0")
  case True
  then show "mag_val (mag_round (of_int m * 2 powi k)) = of_int m * 2 powi k \<and>
      mag_round (of_int m * 2 powi k) < inf_mag"
    using inf_mag_bounds by (simp add: mag_round_def mag_val_def)
next
  case False
  with assms have m: "0 < m" by simp
  let ?q = "rat_of_int m * 2 powi k"
  have q0: "0 < ?q" using m by simp
  obtain n where n: "?q * 2 powi (52 - mag_exp ?q) = rat_of_int n"
    using dyadic_scaled[OF m assms(2,3)] by blast
  show "mag_val (mag_round ?q) = ?q \<and> mag_round ?q < inf_mag"
    using mag_val_raw[OF q0 n] mag_raw_val[OF q0 assms(4) n] m by (simp add: mag_round_def)
qed

lemma f64_round_dyadic:
  assumes "\<bar>m\<bar> < 2 ^ 53" "-1074 \<le> k" "\<bar>of_int m * 2 powi k\<bar> < (2::rat) powi 1024"
  shows "f64_val (f64_round s (of_int m * 2 powi k)) = of_int m * 2 powi k"
    and "is_fin (f64_round s (of_int m * 2 powi k))"
proof -
  let ?q = "rat_of_int m * 2 powi k"
  have a: "\<bar>?q\<bar> = of_int \<bar>m\<bar> * 2 powi k" by (simp add: abs_mult)
  note d = mag_round_dyadic[of "\<bar>m\<bar>" k, OF _ assms(1,2), folded a]
  have fin: "mag_round \<bar>?q\<bar> < inf_mag" and v: "mag_val (mag_round \<bar>?q\<bar>) = \<bar>?q\<bar>" using d assms(3) by simp_all
  have b: "0 \<le> mag_round \<bar>?q\<bar>" "mag_round \<bar>?q\<bar> < 2 ^ 63"
    using mag_round_bounds[of "\<bar>?q\<bar>"] fin inf_mag_bounds by auto
  show "f64_val (f64_round s ?q) = ?q"
    unfolding f64_round_def f64_val_def f64_make_decode[OF b] v by auto
  show "is_fin (f64_round s ?q)"
    unfolding is_fin_def f64_round_def f64_make_decode[OF b] by (rule fin)
qed

section \<open>Small integers are exact\<close>

abbreviation small_int :: "int \<Rightarrow> bool" where
  "small_int n \<equiv> \<bar>n\<bar> < 2 ^ 53"

lemma f64_round_int:
  assumes "small_int n"
  shows "f64_val (f64_round s (of_int n)) = of_int n" "is_fin (f64_round s (of_int n))"
proof -
  have "\<bar>rat_of_int n\<bar> < of_int (2 ^ 53)" using assms by (simp only: of_int_less_iff flip: of_int_abs)
  also have "rat_of_int (2 ^ 53) < 2 powi 1024" using powi2_less[of 53 1024] by simp
  finally have "\<bar>of_int n * 2 powi 0\<bar> < (2::rat) powi 1024" by simp
  from f64_round_dyadic[OF assms _ this, of s]
  show "f64_val (f64_round s (of_int n)) = of_int n" "is_fin (f64_round s (of_int n))"
    by simp_all
qed

lemma f64_of_int_exact:
  assumes "small_int n"
  shows "f64_val (f64_of_int n) = of_int n" "is_fin (f64_of_int n)"
  using f64_round_int[OF assms, of False] by (simp_all add: f64_of_int_def)

lemma f64_neg_round: "q \<noteq> 0 \<Longrightarrow> f64_neg (f64_round s q) \<longleftrightarrow> q < 0"
  using mag_round_bounds[of "\<bar>q\<bar>"] inf_mag_bounds
  by (simp add: f64_round_def f64_make_decode)

lemma f64_neg_of_int: "f64_neg (f64_of_int n) \<longleftrightarrow> n < 0"
proof (cases "n = 0")
  case True
  then show ?thesis by (simp add: f64_of_int_def f64_round_def mag_round_def f64_make_decode)
qed (simp add: f64_of_int_def f64_neg_round)

lemma f64_zero_of_int: "(0 :: f64) = f64_of_int 0"
  by (simp add: f64_of_int_def f64_round_def mag_round_def f64_make_def)

lemma f64_round_zero: "f64_round s 0 = f64_make s 0"
  by (simp add: f64_round_def mag_round_def)

lemma f64_int_add:
  assumes "small_int a" "small_int b"
  shows "f64_add (f64_of_int a) (f64_of_int b) = f64_of_int (a + b)"
proof -
  define s where "s \<longleftrightarrow> a < 0 \<and> b < 0"
  have "a + b = 0 \<Longrightarrow> \<not> s" by (auto simp: s_def)
  then have "f64_round s (of_int a + of_int b) = f64_round False (of_int (a + b))"
    by (cases "a + b = 0") (auto simp: f64_round_def simp flip: of_int_add)
  then show ?thesis
    using assms by (simp add: f64_add_fin f64_of_int_exact f64_neg_of_int flip: s_def) (simp add: f64_of_int_def)
qed

lemma f64_int_sub:
  assumes "small_int a" "small_int b" "a = b \<longrightarrow> 0 \<le> a"
  shows "f64_sub (f64_of_int a) (f64_of_int b) = f64_of_int (a - b)"
proof -
  have "f64_round (a < 0 \<and> \<not> b < 0) (of_int a - of_int b) = f64_round False (of_int (a - b))"
    by (cases "a - b = 0") (auto simp: f64_round_def simp flip: of_int_diff)
  then show ?thesis
    using assms by (simp add: f64_sub_fin f64_of_int_exact f64_neg_of_int) (simp add: f64_of_int_def)
qed

lemma f64_int_mul:
  assumes "small_int a" "small_int b" "0 \<le> a \<and> 0 \<le> b \<or> a * b \<noteq> 0"
  shows "f64_mul (f64_of_int a) (f64_of_int b) = f64_of_int (a * b)"
proof -
  have "f64_round ((a < 0) \<noteq> (b < 0)) (of_int a * of_int b) = f64_round False (of_int (a * b))"
    using assms(3) by (cases "a * b = 0") (auto simp: f64_round_def simp flip: of_int_mult)
  then show ?thesis
    using assms by (simp add: f64_mul_fin f64_of_int_exact f64_neg_of_int) (simp add: f64_of_int_def)
qed

lemma f64_int_compare:
  assumes "small_int a" "small_int b"
  shows "f64_lt (f64_of_int a) (f64_of_int b) \<longleftrightarrow> a < b"
    "f64_le (f64_of_int a) (f64_of_int b) \<longleftrightarrow> a \<le> b"
    "f64_eq (f64_of_int a) (f64_of_int b) \<longleftrightarrow> a = b"
  using assms by (simp_all add: f64_lt_fin f64_le_fin f64_eq_fin f64_of_int_exact)

lemma f64_floor_fin:
  assumes "is_fin a" "\<bar>f64_val a\<bar> < 2 ^ 52"
  shows "f64_val (f64_floor a) = of_int \<lfloor>f64_val a\<rfloor>" "is_fin (f64_floor a)"
proof -
  let ?f = "\<lfloor>f64_val a\<rfloor>"
  have "?f < 2 ^ 52" using assms(2) by (simp add: floor_less_iff)
  then have "?f < 2 ^ 53" by (rule order.strict_trans) simp
  moreover have "- (2 ^ 52) \<le> ?f" using assms(2) by (simp add: le_floor_iff)
  then have "- (2 ^ 53) < ?f" by (rule order.strict_trans2[rotated]) simp
  ultimately have f: "small_int ?f" by (simp add: abs_less_iff minus_less_iff)
  show "f64_val (f64_floor a) = of_int ?f" "is_fin (f64_floor a)"
    using assms(1) f64_round_int[OF f, of "f64_neg a"] by (simp_all add: f64_floor_def)
qed

end
