(* ===== verification/Rounding.thy ===== *)
theory Rounding
  imports Binary64
begin

text \<open>
  Rounding seen from the values of finite doubles. \<open>rv q\<close> is the value a rational rounds to.
  The main fact is \<open>div_cell\<close>: the rounded quotient of a coordinate and an integer cell width
  reaches an integer exactly when the coordinate reaches that cell's border, so the floor of
  the quotient is the right cell although the division rounds.
\<close>

section \<open>Division by an integer\<close>


lemma round_even_less:
  assumes "q < of_int k - 1 / 2"
  shows "round_even q < k"
proof -
  have "\<lfloor>q\<rfloor> < k" using assms by (simp add: floor_less_iff)
  moreover have "1 / 2 \<le> q - of_int \<lfloor>q\<rfloor> \<Longrightarrow> \<lfloor>q\<rfloor> \<noteq> k - 1" using assms by auto
  ultimately show ?thesis by (auto simp: round_even_def Let_def)
qed

lemma two_powi_around:
  assumes "0 < k"
  obtains f where "-1 \<le> f" "2 powi f < rat_of_int k" "rat_of_int k \<le> 2 powi (f + 1)"
proof
  let ?f = "ilog2 (of_int k - 1 / 2)"
  have p: "(2::rat) powi (-1) \<le> of_int k - 1 / 2" using assms by simp
  then have "0 < rat_of_int k - 1 / 2" by simp
  note b = ilog2_bounds[OF this]
  show f: "-1 \<le> ?f"
  proof (rule ccontr)
    assume "\<not> -1 \<le> ?f"
    then have "(2::rat) powi (?f + 1) \<le> 2 powi (-1)" by (intro powi2_le) simp
    with b p show False by linarith
  qed
  from b show "2 powi ?f < rat_of_int k" by linarith
  have "rat_of_int k - 1 / 2 < of_int (2 ^ nat (?f + 1))" using b f powi2_nat[of "?f + 1"] by simp
  then have "rat_of_int k < of_int (2 ^ nat (?f + 1)) + 1" by linarith
  then have "k < 2 ^ nat (?f + 1) + 1" by (metis of_int_less_iff of_int_add of_int_1)
  then have "rat_of_int k \<le> of_int (2 ^ nat (?f + 1))" by (simp only: of_int_le_iff)
  with f powi2_nat[of "?f + 1"] show "rat_of_int k \<le> 2 powi (?f + 1)" by simp
qed

text \<open>Above \<open>2 ^ g\<close> the representable numbers are multiples of \<open>2 ^ (g - 52)\<close>.\<close>

lemma f64_granular:
  assumes "2 powi g \<le> f64_val a" "-1022 \<le> g"
  shows "\<exists>n. f64_val a * 2 powi (52 - g) = of_int n"
proof -
  define c where "c = f64_mag a"
  have c0: "0 \<le> c" using f64_mag_bounds[of a] by (simp add: c_def)
  have "0 < f64_val a" using assms(1) powi2_pos[of g] by linarith
  then have v: "f64_val a = mag_val c" using mag_val_nonneg[OF c0] by (auto simp: f64_val_def c_def split: if_splits)
  define E F where "E = c div 2 ^ 52" and "F = c mod 2 ^ 52"
  have F: "0 \<le> F" "F < 2 ^ 52" by (simp_all add: F_def)
  have big: "\<not> c < 2 ^ 52"
  proof
    assume c: "c < 2 ^ 52"
    then have "rat_of_int c < of_int (2 ^ 52)" by (simp only: of_int_less_iff)
    then have "rat_of_int c * 2 powi (-1074) < of_int (2 ^ 52) * 2 powi (-1074)" by (intro mult_strict_right_mono) simp_all
    also have "\<dots> = 2 powi (-1022)" using powi2_add[of 52 "-1074"] by simp
    finally have "f64_val a < 2 powi (-1022)" using c by (simp add: v mag_val_def)
    with assms powi2_le[of "-1022" g] show False by linarith
  qed
  then have val: "f64_val a = of_int (2 ^ 52 + F) * 2 powi (E - 1075)" by (simp add: v mag_val_def E_def F_def)
  have "rat_of_int (2 ^ 52 + F) < of_int (2 ^ 53)" using F by (simp only: of_int_less_iff) simp
  then have "f64_val a < of_int (2 ^ 53) * 2 powi (E - 1075)" unfolding val by (intro mult_strict_right_mono) simp_all
  also have "\<dots> = 2 powi (E - 1022)" using powi2_add[of 53 "E - 1075"] by simp
  finally have "\<not> E - 1022 \<le> g" using assms(1) powi2_le[of "E - 1022" g] by linarith
  then have nn: "0 \<le> (E - 1075) + (52 - g)" by simp
  have "f64_val a * 2 powi (52 - g) = of_int (2 ^ 52 + F) * 2 powi ((E - 1075) + (52 - g))"
    unfolding val by (simp only: powi2_add mult.assoc)
  also have "\<dots> = of_int ((2 ^ 52 + F) * 2 ^ nat ((E - 1075) + (52 - g)))"
    using nn by (simp only: powi2_nat of_int_mult)
  finally show ?thesis by blast
qed

lemma f64_gap_below:
  assumes "0 < m" "m < 2 ^ 53" "-1 \<le> g" "2 powi g < rat_of_int m" "rat_of_int m \<le> 2 powi (g + 1)"
    and "f64_val a < of_int m"
  shows "f64_val a \<le> of_int m - 2 powi (g - 52)"
proof -
  have "(2::rat) powi g < of_int (2 ^ 53)" using assms(2,4) by (meson less_trans of_int_less_iff)
  then have "g < 53" using powi2_le[of 53 g] by (cases "g < 53") simp_all
  then have u: "2 powi (g - 52) \<le> (1::rat)" using powi2_le[of "g - 52" 0] by simp
  have sc: "rat_of_int m * 2 powi (52 - g) = of_int (m * 2 ^ nat (52 - g))"
    using \<open>g < 53\<close> by (simp add: powi2_nat)
  show ?thesis
  proof (cases "2 powi g \<le> f64_val a")
    case True
    then obtain n where n: "f64_val a * 2 powi (52 - g) = of_int n" using f64_granular[of g a] assms(3) by auto
    have "rat_of_int n < of_int (m * 2 ^ nat (52 - g))"
      unfolding n[symmetric] sc[symmetric] using assms(6) by (intro mult_strict_right_mono) simp_all
    then have "n \<le> m * 2 ^ nat (52 - g) - 1" by (simp only: of_int_less_iff zle_diff1_eq)
    then have "rat_of_int n \<le> of_int (m * 2 ^ nat (52 - g)) - 1" by (metis of_int_1 of_int_diff of_int_le_iff)
    then have "f64_val a * 2 powi (52 - g) \<le> rat_of_int m * 2 powi (52 - g) - 1" by (simp only: n sc)
    then have "(f64_val a * 2 powi (52 - g)) * 2 powi (g - 52) \<le> (rat_of_int m * 2 powi (52 - g) - 1) * 2 powi (g - 52)"
      by (intro mult_right_mono) simp_all
    then show ?thesis by (simp add: algebra_simps flip: powi2_add)
  next
    case False
    show ?thesis
    proof (cases "g = -1")
      case True
      have "(2::rat) powi (-53) \<le> 2 powi (-1)" by (rule powi2_le) simp
      moreover have "1 \<le> rat_of_int m" using assms(1) by simp
      ultimately show ?thesis using False True by simp
    next
      case g: False
      then have "rat_of_int (2 ^ nat g) < of_int m" using assms(3,4) by (simp add: powi2_nat)
      then have "2 ^ nat g + 1 \<le> m" by (simp only: of_int_less_iff zless_imp_add1_zle)
      then have "rat_of_int (2 ^ nat g) + 1 \<le> of_int m" by (metis of_int_1 of_int_add of_int_le_iff)
      then have "(2::rat) powi g + 1 \<le> of_int m" using assms(3) g by (simp add: powi2_nat)
      with False u show ?thesis by linarith
    qed
  qed
qed

lemma rnd_key_int: "small_int n \<Longrightarrow> rnd_key (of_int n) = f64_key (f64_of_int n)"
  by (simp add: f64_of_int_def f64_key_round)

lemma mag_raw_power_bound:
  assumes f: "-1 \<le> f" "2 powi f < rat_of_int k" "rat_of_int k \<le> 2 powi (f + 1)"
    and K: "rat_of_int k * 2 powi (52 - f) = of_int K"
  shows "mag_raw (of_int k) = (f + 1022) * 2 ^ 52 + K"
proof (cases "rat_of_int k < 2 powi (f + 1)")
  case True
  then have "ilog2 (of_int k) = f" using f by (intro ilog2_unique) simp_all
  then show ?thesis using f(1) K by (simp add: mag_raw_def mag_exp_def)
next
  case False
  then have k: "rat_of_int k = 2 powi (f + 1)" using f(3) by simp
  have "ilog2 (rat_of_int k) = f + 1" unfolding k by (rule ilog2_unique) (simp_all add: powi2_less)
  then have e: "mag_exp (rat_of_int k) = f + 1" using f(1) by (simp add: mag_exp_def)
  have "rat_of_int K = 2 powi 53" unfolding K[symmetric] k by (simp flip: powi2_add)
  then have "rat_of_int K = of_int (2 ^ 53)" by simp
  then have K': "K = 2 ^ 53" by (simp only: of_int_eq_iff)
  have "rat_of_int k * 2 powi (52 - (f + 1)) = 2 powi 52" unfolding k by (simp flip: powi2_add)
  then have "rat_of_int k * 2 powi (52 - (f + 1)) = of_int (2 ^ 52)" by simp
  then show ?thesis by (simp only: mag_raw_def e round_even_of_int K') simp
qed

text \<open>
  Division by an integer does not round up to an integer multiple that the dividend has not
  reached.
\<close>

lemma f64_div_below:
  assumes T: "0 < T" and k: "0 < k" and m: "k * T < 2 ^ 52" and a: "f64_val a < of_int (k * T)" "0 \<le> f64_val a"
  shows "rnd_key (f64_val a / of_int T) < rnd_key (of_int k)"
proof -
  define q where "q = f64_val a / of_int T"
  have kT: "0 < k * T" using T k by simp
  have kb: "k < 2 ^ 52" proof -
    have "k * 1 \<le> k * T" using T k by (intro mult_left_mono) simp_all
    with m show ?thesis by linarith
  qed
  obtain f where f: "-1 \<le> f" "2 powi f < rat_of_int k" "rat_of_int k \<le> 2 powi (f + 1)"
    using two_powi_around[OF k] by blast
  obtain g where g: "-1 \<le> g" "2 powi g < rat_of_int (k * T)" "rat_of_int (k * T) \<le> 2 powi (g + 1)"
    using two_powi_around[OF kT] by blast
  have gap: "f64_val a \<le> of_int (k * T) - 2 powi (g - 52)"
    using f64_gap_below[OF kT _ g a(1)] m by simp
  have "of_int T * 2 powi f < of_int T * rat_of_int k" using f(2) T by (intro mult_strict_left_mono) simp_all
  also have "\<dots> \<le> 2 powi (g + 1)" using g(3) by (simp add: mult.commute)
  finally have "(of_int T * 2 powi f) * 2 powi (-53) < 2 powi (g + 1) * (2 powi (-53) :: rat)"
    by (intro mult_strict_right_mono) simp_all
  then have "of_int T * 2 powi (f + -53) < (2 powi (g + 1 + -53) :: rat)" by (simp only: mult.assoc powi2_add)
  then have "of_int T * 2 powi (f - 53) < (2 powi (g - 52) :: rat)" by simp
  with gap have "f64_val a < of_int T * (of_int k - 2 powi (f - 53))" by (simp add: algebra_simps)
  then have q: "q < of_int k - 2 powi (f - 53)" using T by (simp add: q_def field_simps)
  have "(2::rat) powi f < of_int (2 ^ 52)" using f(2) kb by (meson less_trans of_int_less_iff)
  then have "f < 52" using powi2_le[of 52 f] by (cases "f < 52") simp_all
  then have K: "rat_of_int k * 2 powi (52 - f) = of_int (k * 2 ^ nat (52 - f))" by (simp add: powi2_nat)
  have small: "small_int k" using k kb by simp
  have exact: "mag_round (of_int k) = mag_raw (of_int k)"
    using f64_of_int_exact(2)[OF small] rnd_key_int[OF small] k
    by (auto simp: is_fin_key rnd_key_def mag_round_def min_def split: if_splits)
  show ?thesis
  proof (cases "q \<le> 2 powi f")
    case True
    have "f64_val (f64_round False (of_int 1 * 2 powi f)) = of_int 1 * 2 powi f \<and> is_fin (f64_round False (of_int 1 * 2 powi f))"
      using f64_round_dyadic[of 1 f False] f(1) \<open>f < 52\<close> powi2_less[of f 1024] by simp
    then have fin: "is_fin (f64_round False (2 powi f))" "f64_val (f64_round False (2 powi f)) = 2 powi f" by simp_all
    have "rnd_key q \<le> rnd_key (2 powi f)" by (rule rnd_key_mono[OF True])
    also have "\<dots> < rnd_key (of_int k)"
      using f64o.val_less_iff[OF fin(1) f64_of_int_exact(2)[OF small]] fin(2) f64_of_int_exact(1)[OF small] f(2)
      by (simp add: f64_key_round rnd_key_int[OF small])
    finally show ?thesis by (simp add: q_def)
  next
    case False
    have q0: "0 < q" using False powi2_pos[of f] by linarith
    have "q < 2 powi (f + 1)" using q f(3) powi2_pos[of "f - 53"] by linarith
    then have e: "mag_exp q = f" using False f(1) ilog2_unique[of f q] by (simp add: mag_exp_def)
    have "q * 2 powi (52 - f) < (of_int k - 2 powi (f - 53)) * 2 powi (52 - f)"
      using q by (intro mult_strict_right_mono) simp_all
    also have "\<dots> = of_int (k * 2 ^ nat (52 - f)) - 1 / 2"
    proof -
      have "(2::rat) powi (f - 53) * 2 powi (52 - f) = 1 / 2" by (simp flip: powi2_add)
      then show ?thesis by (simp only: left_diff_distrib K)
    qed
    finally have "mag_raw q < mag_raw (of_int k)"
      using round_even_less mag_raw_power_bound[OF f K] by (simp add: mag_raw_def e)
    then have "mag_round q < mag_round (of_int k)" using q0 by (simp add: exact) (simp add: mag_round_def)
    then show ?thesis using q0 k by (simp add: rnd_key_def q_def)
  qed
qed


section \<open>Rounded values\<close>

definition rv :: "rat \<Rightarrow> rat" where
  "rv q = f64_val (f64_round False q)"

abbreviation moderate :: "rat \<Rightarrow> bool" where
  "moderate q \<equiv> \<bar>q\<bar> \<le> 2 ^ 52"

lemma f64_val_round: "f64_val (f64_round s q) = rv q"
  unfolding rv_def by (rule f64_val_cong) (simp add: f64_key_round)

lemma fin_round:
  assumes "moderate q" shows "is_fin (f64_round s q)"
proof -
  have "is_fin (f64_of_int (2 ^ 52))" by (rule f64_of_int_exact) simp
  then have "\<bar>rnd_key (of_int (2 ^ 52))\<bar> < inf_mag" by (simp only: is_fin_key f64_of_int_def f64_key_round)
  moreover have "rnd_key q \<le> rnd_key (of_int (2 ^ 52))" "- rnd_key (of_int (2 ^ 52)) \<le> rnd_key q"
    using assms rnd_key_mono[of q "of_int (2 ^ 52)"] rnd_key_mono[of "- of_int (2 ^ 52)" q]
    by (simp_all add: rnd_key_uminus abs_le_iff)
  ultimately show ?thesis by (simp add: is_fin_key f64_key_round)
qed

lemma rv_mono: "p \<le> q \<Longrightarrow> moderate p \<Longrightarrow> moderate q \<Longrightarrow> rv p \<le> rv q"
  unfolding rv_def by (subst f64o.val_le_iff) (simp_all add: fin_round f64_key_round rnd_key_mono)

lemma rv_val [simp]: "is_fin a \<Longrightarrow> rv (f64_val a) = f64_val a"
  unfolding rv_def by (rule f64_val_cong) (simp add: f64_key_round rnd_key_val)

lemma rv_int [simp]: "small_int n \<Longrightarrow> rv (of_int n) = of_int n"
  using f64_round_int[of n False] by (simp add: rv_def)

lemma rv_le: "is_fin a \<Longrightarrow> q \<le> f64_val a \<Longrightarrow> moderate q \<Longrightarrow> rv q \<le> f64_val a"
  unfolding rv_def by (subst f64o.val_le_iff) (simp_all add: fin_round f64_key_round f64o.round_le)

lemma rv_ge: "is_fin a \<Longrightarrow> f64_val a \<le> q \<Longrightarrow> moderate q \<Longrightarrow> f64_val a \<le> rv q"
  unfolding rv_def by (subst f64o.val_le_iff) (simp_all add: fin_round f64_key_round f64o.round_ge)

lemma rv_le_int: "small_int n \<Longrightarrow> q \<le> of_int n \<Longrightarrow> moderate q \<Longrightarrow> rv q \<le> of_int n"
  using rv_le[of "f64_of_int n" q] by (simp add: f64_of_int_exact)

lemma rv_ge_int: "small_int n \<Longrightarrow> of_int n \<le> q \<Longrightarrow> moderate q \<Longrightarrow> of_int n \<le> rv q"
  using rv_ge[of "f64_of_int n" q] by (simp add: f64_of_int_exact)

lemma rv_moderate: "moderate q \<Longrightarrow> moderate (rv q)"
  using rv_le_int[of "2 ^ 52" q] rv_ge_int[of "- (2 ^ 52)" q] by (simp add: abs_le_iff)

lemma f64_add_val:
  assumes "is_fin a" "is_fin b" "moderate (f64_val a + f64_val b)"
  shows "f64_val (f64_add a b) = rv (f64_val a + f64_val b)" "is_fin (f64_add a b)"
  using assms by (simp_all add: f64_add_fin f64_val_round fin_round)

lemma f64_sub_val:
  assumes "is_fin a" "is_fin b" "moderate (f64_val a - f64_val b)"
  shows "f64_val (f64_sub a b) = rv (f64_val a - f64_val b)" "is_fin (f64_sub a b)"
  using assms by (simp_all add: f64_sub_fin f64_val_round fin_round)

lemma f64_mul_val:
  assumes "is_fin a" "is_fin b" "moderate (f64_val a * f64_val b)"
  shows "f64_val (f64_mul a b) = rv (f64_val a * f64_val b)" "is_fin (f64_mul a b)"
  using assms by (simp_all add: f64_mul_fin f64_val_round fin_round)

lemma f64_div_val:
  assumes "is_fin a" "is_fin b" "f64_val b \<noteq> 0" "moderate (f64_val a / f64_val b)"
  shows "f64_val (f64_div a b) = rv (f64_val a / f64_val b)" "is_fin (f64_div a b)"
  using assms by (simp_all add: f64_div_fin f64_val_round fin_round)

lemma f64_min_val:
  assumes "is_fin a" "is_fin b"
  shows "f64_val (f64_fmin a b) = min (f64_val a) (f64_val b)" "is_fin (f64_fmin a b)"
    "f64_val (f64_fmax a b) = max (f64_val a) (f64_val b)" "is_fin (f64_fmax a b)"
  using assms by (simp_all add: f64_fmin_def f64_fmax_def f64_classes f64o.val_less_iff[symmetric] min_def max_def)

text \<open>The index of the cell of width \<open>T\<close> that holds a coordinate, as the rounded quotient gives it.\<close>

lemma div_cell:
  assumes "is_fin a" "0 \<le> f64_val a" "f64_val a \<le> 2 ^ 51" "0 < T" "T < 2 ^ 52" "0 \<le> k" "k * T < 2 ^ 52"
  shows "of_int k \<le> rv (f64_val a / of_int T) \<longleftrightarrow> of_int (k * T) \<le> f64_val a"
proof -
  have "1 \<le> rat_of_int T" using assms(4) by simp
  then have "f64_val a / of_int T \<le> f64_val a / 1" using assms(2) by (intro divide_left_mono) simp_all
  then have mq: "moderate (f64_val a / of_int T)" using assms by simp
  have kb: "small_int k"
  proof -
    have "k * 1 \<le> k * T" using assms by (intro mult_left_mono) simp_all
    with assms(6,7) show ?thesis by simp
  qed
  show ?thesis
  proof
    assume le: "of_int (k * T) \<le> f64_val a"
    then have "of_int k \<le> f64_val a / of_int T" using assms(4) by (simp add: field_simps)
    then show "of_int k \<le> rv (f64_val a / of_int T)" by (intro rv_ge_int kb mq)
  next
    assume le: "of_int k \<le> rv (f64_val a / of_int T)"
    show "of_int (k * T) \<le> f64_val a"
    proof (rule ccontr)
      assume n: "\<not> of_int (k * T) \<le> f64_val a"
      then have "k \<noteq> 0" using assms(2) by auto
      with n assms have "rnd_key (f64_val a / of_int T) < rnd_key (of_int k)"
        by (intro f64_div_below) auto
      then have "f64_key (f64_round False (f64_val a / of_int T)) < f64_key (f64_of_int k)"
        by (simp add: f64_key_round rnd_key_int[OF kb])
      then have "rv (f64_val a / of_int T) < of_int k"
        using f64o.val_less_iff[OF fin_round[OF mq] f64_of_int_exact(2)[OF kb]] f64_of_int_exact(1)[OF kb] by (simp add: rv_def)
      with le show False by simp
    qed
  qed
qed

end
