(* ===== verification/SweptMath.thy ===== *)
theory SweptMath
  imports Rounding
begin

text \<open>
  Boxes, tiles, players and the swept collision test of two boxes
  (\<open>src/game/tile\<close>, \<open>src/game/player\<close>, \<open>src/game/physics/swept_math.cpp\<close>). The interface
  classes \<open>IBox\<close> and \<open>IPlayer\<close> are record types, and derivation is record extension.
\<close>

section \<open>Boxes\<close>

record IBox =
  GetX :: f64
  GetY :: f64
  GetWidth :: u8
  GetHeight :: u8

datatype TileType = Empty_tile | Solid

record Tile = IBox +
  tile_type :: TileType

text \<open>
  The default constructor sets only the type; the other members are indeterminate and are never
  read for an empty tile. The model gives them the value 0.
\<close>

definition Tile_default :: Tile where
  "Tile_default = \<lparr>GetX = 0, GetY = 0, GetWidth = 0, GetHeight = 0, tile_type = Empty_tile\<rparr>"

definition Tile_new :: "f64 \<Rightarrow> f64 \<Rightarrow> u8 \<Rightarrow> u8 \<Rightarrow> TileType \<Rightarrow> Tile" where
  "Tile_new x y width height t =
     \<lparr>GetX = x, GetY = y, GetWidth = width, GetHeight = height, tile_type = t\<rparr>"

record Player = IBox +
  player_id :: size_t
  GetVelX :: f64
  GetVelY :: f64
  OnGround :: bool

definition Player_new :: "size_t \<Rightarrow> f64 \<Rightarrow> f64 \<Rightarrow> f64 \<Rightarrow> f64 \<Rightarrow> u8 \<Rightarrow> u8 \<Rightarrow> Player" where
  "Player_new pid x y vel_x vel_y width height =
     \<lparr>GetX = x, GetY = y, GetWidth = width, GetHeight = height,
      player_id = pid, GetVelX = vel_x, GetVelY = vel_y, OnGround = False\<rparr>"

definition Move :: "f64 \<Rightarrow> f64 \<Rightarrow> Player \<Rightarrow> Player" where
  "Move dx dy p = p\<lparr>GetX := f64_add (GetX p) dx, GetY := f64_add (GetY p) dy\<rparr>"

definition SetVel :: "f64 \<Rightarrow> f64 \<Rightarrow> Player \<Rightarrow> Player" where
  "SetVel vel_x vel_y p = p\<lparr>GetVelX := vel_x, GetVelY := vel_y\<rparr>"

definition SetOnGround :: "bool \<Rightarrow> Player \<Rightarrow> Player" where
  "SetOnGround state p = p\<lparr>OnGround := state\<rparr>"

section \<open>The swept test\<close>

record SweptData =
  entry_time :: f64
  normal_x :: u8
  normal_y :: u8
  hit :: bool

abbreviation f64_zero :: f64 where
  "f64_zero \<equiv> 0"

definition f64_one :: f64 where
  "f64_one = f64_lit 1"

text \<open>An operand of type \<open>std::uint8_t\<close> is converted to \<open>double\<close>.\<close>

definition f64_of_u8 :: "u8 \<Rightarrow> f64" where
  "f64_of_u8 w = f64_of_int (uint w)"

definition no_hit :: SweptData where
  "no_hit = \<lparr>entry_time = f64_one, normal_x = 0, normal_y = 0, hit = False\<rparr>"

text \<open>
  One axis: the distances to the near and the far side of the second box in the direction of
  the velocity; \<open>None\<close> where the boxes do not overlap along an axis without movement.
\<close>

definition axis_distances :: "f64 \<Rightarrow> u8 \<Rightarrow> f64 \<Rightarrow> u8 \<Rightarrow> f64 \<Rightarrow> (f64 \<times> f64) option" where
  "axis_distances pos1 ext1 pos2 ext2 vel =
     (let far1 = f64_add pos1 (f64_of_u8 ext1); far2 = f64_add pos2 (f64_of_u8 ext2) in
      if f64_lt f64_zero vel then Some (f64_sub pos2 far1, f64_sub far2 pos1)
      else if f64_lt vel f64_zero then Some (f64_sub far2 pos1, f64_sub pos2 far1)
      else if f64_le far1 pos2 \<or> f64_le far2 pos1 then None
      else Some (f64_inf True, f64_inf False))"

definition axis_time :: "f64 \<Rightarrow> f64 \<Rightarrow> f64" where
  "axis_time d vel = (if f64_eq vel f64_zero then d else f64_div d vel)"

definition SweptAABB :: "'a IBox_scheme \<Rightarrow> 'b IBox_scheme \<Rightarrow> f64 \<Rightarrow> f64 \<Rightarrow> SweptData" where
  "SweptAABB box1 box2 vel_x vel_y =
     (if f64_eq vel_x f64_zero \<and> f64_eq vel_y f64_zero then no_hit
      else case axis_distances (GetX box1) (GetWidth box1) (GetX box2) (GetWidth box2) vel_x of
        None \<Rightarrow> no_hit
      | Some (x_inv_entry, x_inv_exit) \<Rightarrow>
       (case axis_distances (GetY box1) (GetHeight box1) (GetY box2) (GetHeight box2) vel_y of
          None \<Rightarrow> no_hit
        | Some (y_inv_entry, y_inv_exit) \<Rightarrow>
           (let x_entry = axis_time x_inv_entry vel_x;
                x_exit = axis_time x_inv_exit vel_x;
                y_entry = axis_time y_inv_entry vel_y;
                y_exit = axis_time y_inv_exit vel_y;
                entry = f64_fmax x_entry y_entry;
                exit = f64_fmin x_exit y_exit
            in if f64_lt exit entry \<or> f64_lt entry f64_zero \<or> f64_lt f64_one entry then no_hit
               else if f64_lt y_entry x_entry
               then \<lparr>entry_time = entry, normal_x = (if f64_lt f64_zero vel_x then -1 else 1), normal_y = 0, hit = True\<rparr>
               else \<lparr>entry_time = entry, normal_x = 0, normal_y = (if f64_lt f64_zero vel_y then -1 else 1), hit = True\<rparr>)))"

section \<open>Facts about the constants\<close>

declare of_int_uint [simp del]

lemma uint_u8: "0 \<le> uint (w :: u8)" "uint (w :: u8) < 256"
  using unsigned_less[of w, where 'a = int] by simp_all

lemma f64_of_u8_val: "f64_val (f64_of_u8 w) = of_int (uint w)" "is_fin (f64_of_u8 w)"
  using uint_u8[of w] f64_of_int_exact[of "uint w"] by (simp_all add: f64_of_u8_def)

lemma u8_nonzero: "0 < (tile :: u8) \<Longrightarrow> 1 \<le> uint tile"
  using uint_u8[of tile] by (simp add: word_less_def int_one_le_iff_zero_less)

lemma one_facts: "is_fin f64_one" "f64_val f64_one = 1"
  using f64_of_int_exact[of 1] by (simp_all add: f64_one_def f64_lit_def f64_of_int_def)

section \<open>The swept test along one axis\<close>

lemma SweptAABB_cases:
  fixes b :: "'a IBox_scheme" and t :: "'b IBox_scheme"
  obtains (miss) "SweptAABB b t vx vy = no_hit"
  | (contact) xe xx ye yx where
      "axis_distances (GetX b) (GetWidth b) (GetX t) (GetWidth t) vx = Some (xe, xx)"
      "axis_distances (GetY b) (GetHeight b) (GetY t) (GetHeight t) vy = Some (ye, yx)"
      "entry_time (SweptAABB b t vx vy) = f64_fmax (axis_time xe vx) (axis_time ye vy)"
      "\<not> f64_lt (f64_fmin (axis_time xx vx) (axis_time yx vy)) (f64_fmax (axis_time xe vx) (axis_time ye vy))"
      "\<not> f64_lt (f64_fmax (axis_time xe vx) (axis_time ye vy)) f64_zero"
      "\<not> f64_lt f64_one (f64_fmax (axis_time xe vx) (axis_time ye vy))"
      "hit (SweptAABB b t vx vy)" "\<not> (f64_eq vx f64_zero \<and> f64_eq vy f64_zero)"
proof (cases "SweptAABB b t vx vy = no_hit")
  case False
  then have nz: "\<not> (f64_eq vx f64_zero \<and> f64_eq vy f64_zero)" by (auto simp: SweptAABB_def)
  from False obtain xe xx where x: "axis_distances (GetX b) (GetWidth b) (GetX t) (GetWidth t) vx = Some (xe, xx)"
    by (cases "axis_distances (GetX b) (GetWidth b) (GetX t) (GetWidth t) vx") (auto simp: SweptAABB_def)
  from False x obtain ye yx where y: "axis_distances (GetY b) (GetHeight b) (GetY t) (GetHeight t) vy = Some (ye, yx)"
    by (cases "axis_distances (GetY b) (GetHeight b) (GetY t) (GetHeight t) vy") (auto simp: SweptAABB_def)
  define en ex where "en = f64_fmax (axis_time xe vx) (axis_time ye vy)"
    and "ex = f64_fmin (axis_time xx vx) (axis_time yx vy)"
  have "\<not> (f64_lt ex en \<or> f64_lt en f64_zero \<or> f64_lt f64_one en)"
    using False by (auto simp: SweptAABB_def nz x y Let_def en_def ex_def)
  moreover from this have "entry_time (SweptAABB b t vx vy) = en" "hit (SweptAABB b t vx vy)"
    by (simp_all add: SweptAABB_def nz x y Let_def flip: en_def ex_def)
  ultimately show ?thesis using contact[OF x y] nz by (simp add: en_def ex_def)
qed (rule miss)

lemma neg_inf_facts: "\<not> is_nan (f64_inf s)" "f64_key (f64_inf True) = - inf_mag" "f64_lt (f64_inf True) f64_zero"
proof -
  show "\<not> is_nan (f64_inf s)" "f64_key (f64_inf True) = - inf_mag" for s
    using inf_mag_bounds by (simp_all add: is_nan_def f64_inf_def f64_make_decode f64_make_key)
  then show "f64_lt (f64_inf True) f64_zero" using inf_mag_bounds by (simp add: f64_lt_def)
qed

lemma fmax_neg_inf:
  "\<not> f64_lt (f64_fmax a (f64_inf True)) f64_zero \<Longrightarrow> f64_fmax a (f64_inf True) = a"
  "\<not> f64_lt (f64_fmax (f64_inf True) a) f64_zero \<Longrightarrow> f64_fmax (f64_inf True) a = a"
proof -
  have "is_nan a \<or> - inf_mag \<le> f64_key a" by (auto simp: is_nan_key)
  then show "\<not> f64_lt (f64_fmax a (f64_inf True)) f64_zero \<Longrightarrow> f64_fmax a (f64_inf True) = a"
    using neg_inf_facts by (auto simp: f64_fmax_def split: if_splits)
  show "\<not> f64_lt (f64_fmax (f64_inf True) a) f64_zero \<Longrightarrow> f64_fmax (f64_inf True) a = a"
    using neg_inf_facts by (auto simp: f64_fmax_def split: if_splits)
qed

lemma axis_distances_rest:
  assumes "f64_eq v f64_zero" "axis_distances p1 e1 p2 e2 v = Some (en, ex)"
  shows "axis_time en v = f64_inf True"
  using assms by (auto simp: axis_distances_def axis_time_def Let_def f64_eq_def f64_lt_def split: if_splits)

lemma swept_x:
  assumes "f64_eq vy f64_zero" "\<not> f64_eq vx f64_zero"
    and lt: "f64_lt (entry_time (SweptAABB b t vx vy)) f64_one"
  shows "\<exists>en ex d. axis_distances (GetX b) (GetWidth b) (GetX t) (GetWidth t) vx = Some (en, ex) \<and>
    axis_distances (GetY b) (GetHeight b) (GetY t) (GetHeight t) vy = Some d \<and>
    \<not> f64_lt (f64_div en vx) f64_zero \<and> f64_lt (f64_div en vx) f64_one"
proof (cases rule: SweptAABB_cases[of b t vx vy])
  case miss
  with lt show ?thesis by (simp add: no_hit_def f64_lt_def)
next
  case (contact xe xx ye yx)
  note r = axis_distances_rest[OF assms(1) contact(2)]
  have "f64_fmax (axis_time xe vx) (f64_inf True) = axis_time xe vx" using contact(5) r fmax_neg_inf(1) by simp
  with contact r lt assms(2) show ?thesis by (auto simp: axis_time_def)
qed

lemma swept_y:
  assumes "f64_eq vx f64_zero" "\<not> f64_eq vy f64_zero"
    and lt: "f64_lt (entry_time (SweptAABB b t vx vy)) f64_one"
  shows "\<exists>en ex d. axis_distances (GetY b) (GetHeight b) (GetY t) (GetHeight t) vy = Some (en, ex) \<and>
    axis_distances (GetX b) (GetWidth b) (GetX t) (GetWidth t) vx = Some d \<and>
    \<not> f64_lt (f64_div en vy) f64_zero \<and> f64_lt (f64_div en vy) f64_one"
proof (cases rule: SweptAABB_cases[of b t vx vy])
  case miss
  with lt show ?thesis by (simp add: no_hit_def f64_lt_def)
next
  case (contact xe xx ye yx)
  note r = axis_distances_rest[OF assms(1) contact(1)]
  have "f64_fmax (f64_inf True) (axis_time ye vy) = axis_time ye vy" using contact(5) r fmax_neg_inf(2) by simp
  with contact r lt assms(2) show ?thesis by (auto simp: axis_time_def)
qed

end
