(* ===== verification/Collision.thy ===== *)
theory Collision
  imports SweptMath
begin

text \<open>
  The grid collision test (\<open>src/game/physics/collision.cpp\<close>): \<open>FindCollisionIndices\<close> computes
  the indices of the tiles a moving box can touch, \<open>SweptAxis\<close> runs the swept test on the solid
  ones and keeps the earliest hit.
\<close>

section \<open>Operations\<close>

text \<open>
  The values of the loop \<open>for (std::size_t v = a; v <= b; v++)\<close>. When \<open>b\<close> is the largest
  value the condition never fails.
\<close>

definition size_range :: "size_t \<Rightarrow> size_t \<Rightarrow> size_t list res" where
  "size_range a b = (if b = -1 then Inl EndlessLoop else Inr (map of_nat [unat a..<Suc (unat b)]))"

text \<open>
  \<open>std::set<std::size_t>\<close> is the ascending list of its elements. The difference \<open>grid_x - 1\<close> is
  computed as an \<open>int\<close> and converted to \<open>std::size_t\<close>; the arguments of \<open>std::max\<close> and
  \<open>std::min\<close> are converted from \<open>double\<close> first.
\<close>

definition FindCollisionIndices ::
  "'a IBox_scheme \<Rightarrow> u8 \<Rightarrow> u16 \<Rightarrow> u8 \<Rightarrow> f64 \<Rightarrow> f64 \<Rightarrow> size_t list res" where
  "FindCollisionIndices box tile grid_x grid_y vel_x vel_y =
     (if f64_eq vel_x f64_zero \<and> f64_eq vel_y f64_zero then Inr []
      else
       (let start_left = GetX box;
            start_top = GetY box;
            start_right = f64_add (GetX box) (f64_of_u8 (GetWidth box));
            start_bottom = f64_add (GetY box) (f64_of_u8 (GetHeight box));
            end_left = f64_add start_left vel_x;
            end_top = f64_add start_top vel_y;
            end_right = f64_add start_right vel_x;
            end_bottom = f64_add start_bottom vel_y;
            bb_left = f64_floor (f64_div (f64_fmin start_left end_left) (f64_of_u8 tile));
            bb_top = f64_floor (f64_div (f64_fmin start_top end_top) (f64_of_u8 tile));
            bb_right = f64_floor (f64_div (f64_fmax start_right end_right) (f64_of_u8 tile));
            bb_bottom = f64_floor (f64_div (f64_fmax start_bottom end_bottom) (f64_of_u8 tile))
        in rbind (f64_to_size bb_left) (\<lambda>left.
           rbind (f64_to_size bb_top) (\<lambda>top.
           rbind (f64_to_size bb_right) (\<lambda>right.
           rbind (f64_to_size bb_bottom) (\<lambda>bottom.
            (let tile_left = max 0 left;
                 tile_top = max 0 top;
                 tile_right = min (ucast grid_x - 1) right;
                 tile_bottom = min (ucast grid_y - 1) bottom
             in rbind (size_range tile_top tile_bottom) (\<lambda>ys.
                rbind (rfold (\<lambda>y idx. rbind (size_range tile_left tile_right) (\<lambda>xs.
                   Inr (idx @ map (\<lambda>x. y * ucast grid_x + x) xs))) ys []) (\<lambda>idx.
                Inr (sort (remdups idx)))))))))))"

definition swept_step ::
  "'a IBox_scheme \<Rightarrow> Tile list \<Rightarrow> f64 \<Rightarrow> f64 \<Rightarrow> size_t \<Rightarrow> SweptData \<Rightarrow> SweptData res" where
  "swept_step box tiles vel_x vel_y i sd =
     rbind (vec_at tiles (unat i)) (\<lambda>t.
       Inr (if tile_type t \<noteq> Empty_tile
            then let tmp = SweptAABB box t vel_x vel_y
                 in if f64_lt (entry_time tmp) (entry_time sd) then tmp else sd
            else sd))"

definition SweptAxis ::
  "'a IBox_scheme \<Rightarrow> u8 \<Rightarrow> u16 \<Rightarrow> u8 \<Rightarrow> Tile list \<Rightarrow> f64 \<Rightarrow> f64 \<Rightarrow> SweptData res" where
  "SweptAxis box tile grid_x grid_y tiles vel_x vel_y =
     rbind (FindCollisionIndices box tile grid_x grid_y vel_x vel_y) (\<lambda>indices.
       rfold (swept_step box tiles vel_x vel_y) indices no_hit)"

section \<open>Cells\<close>

definition cell :: "f64 \<Rightarrow> u8 \<Rightarrow> int" where
  "cell a tile = \<lfloor>rv (f64_val a / of_int (uint tile))\<rfloor>"

lemma quotient_moderate:
  assumes "\<bar>q\<bar> \<le> b" "1 \<le> (T :: rat)"
  shows "\<bar>q / T\<bar> \<le> b"
proof -
  have "\<bar>q\<bar> / T \<le> \<bar>q\<bar> / 1" using assms by (intro divide_left_mono) simp_all
  with assms show ?thesis by (simp add: abs_divide)
qed

text \<open>The tile coordinate of a point of the field, as \<open>floor\<close> of the rounded quotient.\<close>

lemma floor_div_cell:
  assumes "is_fin a" "\<bar>f64_val a\<bar> \<le> 2 ^ 50" "0 < tile"
  shows "f64_val (f64_floor (f64_div a (f64_of_u8 tile))) = of_int (cell a tile)"
    "is_fin (f64_floor (f64_div a (f64_of_u8 tile)))" "\<bar>cell a tile\<bar> \<le> 2 ^ 50"
proof -
  let ?q = "f64_val a / of_int (uint tile)"
  have T: "1 \<le> rat_of_int (uint tile)" using u8_nonzero[OF assms(3)] by simp
  have q: "\<bar>?q\<bar> \<le> 2 ^ 50" by (rule quotient_moderate[OF assms(2) T])
  then have m: "moderate ?q" by simp
  have d: "f64_val (f64_div a (f64_of_u8 tile)) = rv ?q" "is_fin (f64_div a (f64_of_u8 tile))"
    using f64_div_val[OF assms(1) f64_of_u8_val(2), of tile] m T by (simp_all add: f64_of_u8_val)
  have q': "?q \<le> 2 ^ 50" "- (2 ^ 50) \<le> ?q" using q unfolding abs_le_iff by linarith+
  have b: "rv ?q \<le> 2 ^ 50" "- (2 ^ 50) \<le> rv ?q"
    using rv_le_int[OF _ _ m, of "2 ^ 50"] rv_ge_int[OF _ _ m, of "- (2 ^ 50)"] q' by simp_all
  then have "\<bar>rv ?q\<bar> < 2 ^ 52" by (simp add: abs_less_iff)
  with f64_floor_fin[OF d(2)] d
  show "f64_val (f64_floor (f64_div a (f64_of_u8 tile))) = of_int (cell a tile)"
    "is_fin (f64_floor (f64_div a (f64_of_u8 tile)))" by (simp_all add: cell_def)
  have "cell a tile \<le> 2 ^ 50" "- (2 ^ 50) \<le> cell a tile"
    using b by (simp_all add: cell_def le_floor_iff floor_le_iff)
  then show "\<bar>cell a tile\<bar> \<le> 2 ^ 50" unfolding abs_le_iff by simp
qed

lemma cell_le:
  assumes "is_fin a" "\<bar>f64_val a\<bar> \<le> 2 ^ 50" "0 < tile" "0 \<le> k" "(k + 1) * uint tile < 2 ^ 52"
    and "f64_val a < of_int ((k + 1) * uint tile)"
  shows "cell a tile \<le> k"
proof -
  have "rv (f64_val a / of_int (uint tile)) < of_int (k + 1)"
  proof (cases "0 \<le> f64_val a")
    case True
    then show ?thesis
      using div_cell[of a "uint tile" "k + 1"] assms u8_nonzero[OF assms(3)] uint_u8[of tile] by (simp add: abs_le_iff)
  next
    case False
    have "f64_val a / of_int (uint tile) \<le> of_int 0" using False u8_nonzero[OF assms(3)] by (simp add: divide_nonpos_pos)
    then have "rv (f64_val a / of_int (uint tile)) \<le> of_int 0"
      using quotient_moderate[OF assms(2), of "of_int (uint tile)"] u8_nonzero[OF assms(3)]
      by (intro rv_le_int) auto
    with assms(4) show ?thesis by simp
  qed
  then show ?thesis by (simp add: cell_def floor_le_iff)
qed

lemma cell_ge:
  assumes "is_fin a" "\<bar>f64_val a\<bar> \<le> 2 ^ 50" "0 < tile" "0 \<le> k" "k * uint tile < 2 ^ 52"
    and "of_int (k * uint tile) \<le> f64_val a"
  shows "k \<le> cell a tile"
proof -
  have "0 \<le> f64_val a" using assms(4,6) uint_u8[of tile] by (meson mult_nonneg_nonneg of_int_0_le_iff order_trans)
  then show ?thesis
    using div_cell[of a "uint tile" k] assms u8_nonzero[OF assms(3)] uint_u8[of tile] by (simp add: cell_def le_floor_iff abs_le_iff)
qed


section \<open>One axis\<close>

text \<open>A finite number of moderate size: 2 ^ 40 is far outside any map.\<close>

abbreviation in_field :: "f64 \<Rightarrow> bool" where
  "in_field a \<equiv> is_fin a \<and> \<bar>f64_val a\<bar> \<le> 2 ^ 40"

lemma far_side:
  assumes "in_field pos"
  shows "f64_val (f64_add pos (f64_of_u8 ext)) = rv (f64_val pos + of_int (uint ext))"
    "is_fin (f64_add pos (f64_of_u8 ext))"
    "f64_val pos \<le> f64_val (f64_add pos (f64_of_u8 ext))"
    "\<bar>f64_val (f64_add pos (f64_of_u8 ext))\<bar> \<le> 2 ^ 41"
proof -
  let ?e = "rat_of_int (uint ext)"
  have e: "0 \<le> ?e" "?e \<le> 255" using uint_u8[of ext] by simp_all
  have p: "f64_val pos \<le> 2 ^ 40" "- (2 ^ 40) \<le> f64_val pos" using assms by (simp_all add: abs_le_iff)
  have b: "f64_val pos + ?e \<le> 2 ^ 41" "- (2 ^ 41) \<le> f64_val pos + ?e"
    using p e(2) add_increasing2[OF e(1), of "- (2 ^ 41)" "f64_val pos"] by simp_all
  then have m: "moderate (f64_val pos + ?e)" unfolding abs_le_iff by simp
  then show v: "f64_val (f64_add pos (f64_of_u8 ext)) = rv (f64_val pos + ?e)"
    "is_fin (f64_add pos (f64_of_u8 ext))"
    using f64_add_val[of pos "f64_of_u8 ext"] assms by (simp_all add: f64_of_u8_val)
  show "f64_val pos \<le> f64_val (f64_add pos (f64_of_u8 ext))"
    unfolding v(1) using assms e m by (intro rv_ge) auto
  show "\<bar>f64_val (f64_add pos (f64_of_u8 ext))\<bar> \<le> 2 ^ 41"
    unfolding v(1) abs_le_iff using rv_le_int[OF _ _ m, of "2 ^ 41"] rv_ge_int[OF _ _ m, of "- (2 ^ 41)"] b by simp
qed

lemma moved_side:
  assumes "is_fin a" "\<bar>f64_val a\<bar> \<le> 2 ^ 41" "in_field vel"
  shows "f64_val (f64_add a vel) = rv (f64_val a + f64_val vel)" "is_fin (f64_add a vel)"
    "\<bar>f64_val (f64_add a vel)\<bar> \<le> 2 ^ 42" "moderate (f64_val a + f64_val vel)"
proof -
  have b: "f64_val a + f64_val vel \<le> 2 ^ 42" "- (2 ^ 42) \<le> f64_val a + f64_val vel"
    using assms unfolding abs_le_iff by simp_all
  then show m: "moderate (f64_val a + f64_val vel)" unfolding abs_le_iff by simp
  then show v: "f64_val (f64_add a vel) = rv (f64_val a + f64_val vel)" "is_fin (f64_add a vel)"
    using f64_add_val[of a vel] assms by simp_all
  show "\<bar>f64_val (f64_add a vel)\<bar> \<le> 2 ^ 42"
    unfolding v(1) abs_le_iff using rv_le_int[OF _ _ m, of "2 ^ 42"] rv_ge_int[OF _ _ m, of "- (2 ^ 42)"] b by simp
qed

text \<open>The first and the last tile coordinate of the bounding box along one axis.\<close>

definition low_side :: "f64 \<Rightarrow> f64 \<Rightarrow> f64" where
  "low_side pos vel = f64_fmin pos (f64_add pos vel)"

definition high_side :: "f64 \<Rightarrow> u8 \<Rightarrow> f64 \<Rightarrow> f64" where
  "high_side pos ext vel =
     f64_fmax (f64_add pos (f64_of_u8 ext)) (f64_add (f64_add pos (f64_of_u8 ext)) vel)"

lemma sides:
  assumes "in_field pos" "in_field vel"
  shows "is_fin (low_side pos vel)" "is_fin (high_side pos ext vel)"
    "\<bar>f64_val (low_side pos vel)\<bar> \<le> 2 ^ 50" "\<bar>f64_val (high_side pos ext vel)\<bar> \<le> 2 ^ 50"
    "f64_val (low_side pos vel) \<le> f64_val pos" "f64_val (low_side pos vel) \<le> f64_val (f64_add pos vel)"
    "f64_val (f64_add pos (f64_of_u8 ext)) \<le> f64_val (high_side pos ext vel)"
    "f64_val (f64_add (f64_add pos (f64_of_u8 ext)) vel) \<le> f64_val (high_side pos ext vel)"
proof -
  note far = far_side[OF assms(1), of ext]
  have p: "\<bar>f64_val pos\<bar> \<le> 2 ^ 41" using assms(1) by simp
  note m1 = moved_side[OF conjunct1[OF assms(1)] p assms(2)]
  note m2 = moved_side[OF far(2,4) assms(2)]
  show "is_fin (low_side pos vel)" "is_fin (high_side pos ext vel)"
    using assms far m1 m2 by (simp_all add: low_side_def high_side_def f64_min_val)
  show "\<bar>f64_val (low_side pos vel)\<bar> \<le> 2 ^ 50" "\<bar>f64_val (high_side pos ext vel)\<bar> \<le> 2 ^ 50"
    using assms far(2,4) m1(2,3) m2(2,3) p by (simp_all add: low_side_def high_side_def f64_min_val min_def max_def)
  show "f64_val (low_side pos vel) \<le> f64_val pos" "f64_val (low_side pos vel) \<le> f64_val (f64_add pos vel)"
    "f64_val (f64_add pos (f64_of_u8 ext)) \<le> f64_val (high_side pos ext vel)"
    "f64_val (f64_add (f64_add pos (f64_of_u8 ext)) vel) \<le> f64_val (high_side pos ext vel)"
    using assms far(2) m1(2) m2(2) by (simp_all add: low_side_def high_side_def f64_min_val)
qed


text \<open>A tile side along one axis: coordinate \<open>k\<close> times the tile size.\<close>

definition tile_at :: "f64 \<Rightarrow> u8 \<Rightarrow> int \<Rightarrow> bool" where
  "tile_at p tile k \<longleftrightarrow> 0 < tile \<and> is_fin p \<and> f64_val p = of_int (k * uint tile) \<and>
     0 \<le> k \<and> (k + 1) * uint tile \<le> 2 ^ 40"

lemma tile_atD:
  assumes "tile_at p tile k"
  shows "in_field p" "f64_val (f64_add p (f64_of_u8 tile)) = of_int ((k + 1) * uint tile)"
    "is_fin (f64_add p (f64_of_u8 tile))" "(k + 1) * uint tile < 2 ^ 52" "k * uint tile < 2 ^ 52" "1 \<le> uint tile"
    "small_int ((k + 1) * uint tile)" "0 \<le> k * uint tile" "0 \<le> k" "f64_val p = of_int (k * uint tile)" "0 < tile"
proof -
  let ?m = "k * uint tile"
  show T: "1 \<le> uint tile" and k0: "0 \<le> k" and v: "f64_val p = of_int ?m" and "0 < tile"
    using assms u8_nonzero by (auto simp: tile_at_def)
  have n: "(k + 1) * uint tile = ?m + uint tile" by (simp add: algebra_simps)
  then have up: "?m + uint tile \<le> 2 ^ 40" using assms by (simp add: tile_at_def)
  show m0: "0 \<le> ?m" using k0 T by simp
  show "(k + 1) * uint tile < 2 ^ 52" "?m < 2 ^ 52" using up T n by simp_all
  show s: "small_int ((k + 1) * uint tile)" unfolding n using up T m0 by simp
  have "rat_of_int ?m \<le> of_int (2 ^ 40)" using up T by (simp only: of_int_le_iff)
  then show i: "in_field p" using assms m0 by (simp add: tile_at_def v del: of_int_mult)
  show "f64_val (f64_add p (f64_of_u8 tile)) = of_int ((k + 1) * uint tile)" "is_fin (f64_add p (f64_of_u8 tile))"
    using far_side[OF i, of tile] rv_int[OF s] by (simp_all add: v n)
qed

text \<open>Along an axis without movement: a tile that overlaps the box lies in the bounding box.\<close>

lemma resting_axis:
  assumes pos: "in_field pos" and vel: "in_field vel" and t: "tile_at p tile k"
    and zero: "f64_val vel = 0" and overlap: "axis_distances pos ext p tile vel = Some d"
  shows "cell (low_side pos vel) tile \<le> k \<and> k \<le> cell (high_side pos ext vel) tile"
proof -
  note T = tile_atD[OF t] and far = far_side[OF pos, of ext] and s1 = sides(1,3,5,6)[OF pos vel] and s2 = sides(2,4,7,8)[OF pos vel, of ext]
  have "\<not> f64_le (f64_add pos (f64_of_u8 ext)) p" "\<not> f64_le (f64_add p (f64_of_u8 tile)) pos"
    using overlap zero vel by (auto simp: axis_distances_def Let_def f64_lt_fin split: if_splits)
  then have o: "of_int (k * uint tile) < f64_val (f64_add pos (f64_of_u8 ext))" "f64_val pos < of_int ((k + 1) * uint tile)"
    using T(1-3,10) far(2) pos by (simp_all add: f64_le_fin not_le)
  show ?thesis
    using cell_le[OF s1(1,2) T(11,9,4)] cell_ge[OF s2(1,2) T(11,9,5)] o s1(3) s2(3) by linarith
qed

lemma rnd_key_neg:
  assumes "q \<le> - (1 / 2 ^ 40)" shows "rnd_key q < 0"
proof -
  have "0 < mag_round (1 / 2 ^ 40)" by code_simp
  moreover have "mag_round (1 / 2 ^ 40) \<le> mag_round (- q)" using assms by (intro mag_round_mono) simp_all
  moreover have "q < 0" using assms by (rule order.strict_trans1) simp
  ultimately show ?thesis by (simp add: rnd_key_def)
qed

text \<open>
  Along the axis of movement: a tile the box enters before the end of the step lies in the
  bounding box, or the box ends exactly at the border of the tile.
\<close>

lemma quotient_below_one:
  assumes "is_fin e" "is_fin vel" "f64_val vel \<noteq> 0" "f64_lt (f64_div e vel) f64_one"
  shows "f64_val e / f64_val vel < 1"
  using assms f64o.round_less_imp[OF one_facts(1), of "f64_val e / f64_val vel"]
  by (simp add: f64_lt_def f64_op_keys one_facts)

lemma quotient_not_neg:
  assumes "is_fin e" "is_fin vel" "f64_val vel \<noteq> 0" "\<not> f64_lt (f64_div e vel) f64_zero"
  shows "- (1 / 2 ^ 40) < f64_val e / f64_val vel"
  using assms rnd_key_neg[of "f64_val e / f64_val vel"]
  by (force simp: f64_lt_def f64_op_keys f64_op_not_nan not_le[symmetric])

lemma moving_forward:
  assumes pos: "in_field pos" and vel: "in_field vel" and t: "tile_at p tile k" and fwd: "0 < f64_val vel"
    and e: "e = f64_sub p (f64_add pos (f64_of_u8 ext))"
    and hit: "\<not> f64_lt (f64_div e vel) f64_zero" "f64_lt (f64_div e vel) f64_one"
  shows "cell (low_side pos vel) tile \<le> k \<and> k \<le> cell (high_side pos ext vel) tile"
proof -
  note T = tile_atD[OF t] and far = far_side[OF pos, of ext] and s1 = sides(1,3,5,6)[OF pos vel]
    and s2 = sides(2,4,7,8)[OF pos vel, of ext]
  let ?far = "f64_val (f64_add pos (f64_of_u8 ext))" and ?m = "rat_of_int (k * uint tile)"
  have "\<bar>?m - ?far\<bar> \<le> 2 ^ 42" using T(1,10) far(4) by (simp add: abs_le_iff)
  then have mod: "moderate (?m - ?far)" by simp
  have ev: "f64_val e = rv (?m - ?far)" "is_fin e"
    using f64_sub_val[OF conjunct1[OF T(1)] far(2)] mod by (simp_all add: e T(10))
  have nz: "f64_val vel \<noteq> 0" using fwd by simp
  have fin: "is_fin vel" using vel by simp
  have "rnd_key (?m - ?far) < f64_key vel"
    using quotient_below_one[OF ev(2) fin nz hit(2)] fwd f64o.val_less_iff[OF ev(2) fin]
    by (simp add: e f64_op_keys[OF conjunct1[OF T(1)] far(2)] T(10))
  then have "?m \<le> ?far + f64_val vel" using f64o.round_less_imp[OF fin] by fastforce
  then have "?m \<le> f64_val (f64_add (f64_add pos (f64_of_u8 ext)) vel)"
    using moved_side[OF far(2,4) vel] rv_ge_int[of "k * uint tile"] T(5,8) by simp
  then have hi: "k \<le> cell (high_side pos ext vel) tile"
    using cell_ge[OF s2(1,2) T(11,9,5)] s2(4) by linarith
  have "f64_val pos < of_int ((k + 1) * uint tile)"
  proof (rule ccontr)
    assume "\<not> f64_val pos < of_int ((k + 1) * uint tile)"
    then have "?m - ?far \<le> of_int (- 1)" using far(3) T(6) by (simp add: algebra_simps)
    then have "f64_val e \<le> - 1" unfolding ev(1) using rv_le_int[OF _ _ mod, of "-1"] by simp
    then have "f64_val e / f64_val vel \<le> - 1 / f64_val vel" using fwd by (intro divide_right_mono) simp_all
    also have "\<dots> \<le> - (1 / 2 ^ 40)" using vel fwd by (simp add: field_simps)
    finally show False using quotient_not_neg[OF ev(2) fin nz hit(1)] by simp
  qed
  with hi show ?thesis using cell_le[OF s1(1,2) T(11,9,4)] s1(3) by linarith
qed


lemma moving_backward:
  assumes pos: "in_field pos" and vel: "in_field vel" and t: "tile_at p tile k" and bwd: "f64_val vel < 0"
    and e: "e = f64_sub (f64_add p (f64_of_u8 tile)) pos"
    and hit: "\<not> f64_lt (f64_div e vel) f64_zero" "f64_lt (f64_div e vel) f64_one"
  shows "(cell (low_side pos vel) tile \<le> k \<and> k \<le> cell (high_side pos ext vel) tile) \<or>
    f64_val (f64_add pos vel) = of_int ((k + 1) * uint tile)"
proof -
  note T = tile_atD[OF t] and far = far_side[OF pos, of ext] and s1 = sides(1,3,5,6)[OF pos vel]
    and s2 = sides(2,4,7,8)[OF pos vel, of ext]
  let ?far = "f64_val (f64_add pos (f64_of_u8 ext))" and ?n = "rat_of_int ((k + 1) * uint tile)"
  have p: "is_fin pos" "\<bar>f64_val pos\<bar> \<le> 2 ^ 41" using pos by simp_all
  have "?n \<le> of_int (2 ^ 40)" using t by (simp only: of_int_le_iff tile_at_def)
  moreover have "0 \<le> ?n" using T(8,6) by (simp only: of_int_0_le_iff) (simp add: algebra_simps)
  ultimately have "\<bar>?n - f64_val pos\<bar> \<le> 2 ^ 42" using p by (simp add: abs_le_iff del: of_int_mult)
  then have mod: "moderate (?n - f64_val pos)" by simp
  have ev: "f64_val e = rv (?n - f64_val pos)" "is_fin e"
    using f64_sub_val[OF T(3) p(1)] mod by (simp_all add: e T(2))
  have nz: "f64_val vel \<noteq> 0" and fin: "is_fin vel" using bwd vel by simp_all
  have "f64_key vel < rnd_key (?n - f64_val pos)"
    using quotient_below_one[OF ev(2) fin nz hit(2)] bwd f64o.val_less_iff[OF fin ev(2)]
    by (simp add: e f64_op_keys[OF T(3) p(1)] T(2) divide_less_eq)
  then have lt: "f64_val pos + f64_val vel < ?n" using f64o.round_greater_imp[OF fin] by fastforce
  have le: "f64_val (f64_add pos vel) \<le> ?n"
    using moved_side[OF p vel] rv_le_int[OF T(7) less_imp_le[OF lt]] by simp
  have "of_int (k * uint tile) \<le> ?far"
  proof (rule ccontr)
    assume "\<not> of_int (k * uint tile) \<le> ?far"
    then have "of_int 1 \<le> ?n - f64_val pos" using far(3) T(6) by (simp add: algebra_simps)
    then have "1 \<le> f64_val e" unfolding ev(1) using rv_ge_int[OF _ _ mod, of 1] by simp
    then have "f64_val e / f64_val vel \<le> 1 / f64_val vel" using bwd by (simp add: divide_right_mono_neg)
    also have "\<dots> \<le> - (1 / 2 ^ 40)" using vel bwd by (simp add: field_simps abs_if)
    finally show False using quotient_not_neg[OF ev(2) fin nz hit(1)] by simp
  qed
  then have hi: "k \<le> cell (high_side pos ext vel) tile"
    using cell_ge[OF s2(1,2) T(11,9,5)] s2(3) by linarith
  show ?thesis
    using hi cell_le[OF s1(1,2) T(11,9,4)] s1(4) le by linarith
qed

lemma moving_axis:
  assumes pos: "in_field pos" and vel: "in_field vel" and t: "tile_at p tile k" and nz: "\<not> f64_eq vel f64_zero"
    and d: "axis_distances pos ext p tile vel = Some (en, ex)"
    and hit: "\<not> f64_lt (f64_div en vel) f64_zero" "f64_lt (f64_div en vel) f64_one"
  shows "(cell (low_side pos vel) tile \<le> k \<and> k \<le> cell (high_side pos ext vel) tile) \<or>
    f64_val vel < 0 \<and> f64_val (f64_add pos vel) = of_int ((k + 1) * uint tile)"
proof -
  from nz vel have "f64_val vel \<noteq> 0" by (simp add: f64_eq_fin)
  then consider "0 < f64_val vel" | "f64_val vel < 0" by linarith
  then show ?thesis
  proof cases
    case 1
    then show ?thesis using d vel moving_forward[OF pos vel t 1 _ hit, of ext]
      by (simp add: axis_distances_def Let_def f64_lt_fin)
  next
    case 2
    then show ?thesis using d vel moving_backward[OF pos vel t 2 _ hit, of ext]
      by (simp add: axis_distances_def Let_def f64_lt_fin)
  qed
qed


section \<open>The index set\<close>

lemma f64_to_size_int:
  assumes "is_fin a" "f64_val a = of_int n" "\<bar>n\<bar> \<le> 2 ^ 50"
  shows "f64_to_size a = (if 0 \<le> n then Inr (word_of_int n) else Inl BadCast)"
proof -
  have "rat_of_int n < of_int (2 ^ 64)" using assms(3) by (simp only: of_int_less_iff) simp
  moreover have "-1 < rat_of_int n \<longleftrightarrow> 0 \<le> n" using of_int_less_iff[of "-1" n, where 'a = rat] by auto
  ultimately show ?thesis using assms by (simp add: f64_to_size_def)
qed

lemma size_range_set:
  assumes "size_range a b = Inr xs"
  shows "set xs = {x. a \<le> x \<and> x \<le> b}"
proof (rule set_eqI, unfold mem_Collect_eq)
  fix x
  from assms have xs: "xs = map of_nat [unat a..<Suc (unat b)]" by (auto simp: size_range_def split: if_splits)
  have "x \<in> set xs \<longleftrightarrow> (\<exists>n. unat a \<le> n \<and> n \<le> unat b \<and> x = of_nat n)" by (auto simp: xs)
  also have "\<dots> \<longleftrightarrow> unat a \<le> unat x \<and> unat x \<le> unat b"
  proof
    assume "\<exists>n. unat a \<le> n \<and> n \<le> unat b \<and> x = of_nat n"
    then obtain n where n: "unat a \<le> n" "n \<le> unat b" "x = of_nat n" by blast
    moreover have "n < 2 ^ LENGTH(64)" using n(2) unsigned_less[of b, where 'a = nat] by simp
    then have "unat x = n" by (simp add: n(3) unat_of_nat)
    ultimately show "unat a \<le> unat x \<and> unat x \<le> unat b" by simp
  qed (auto intro: exI[of _ "unat x"])
  finally show "x \<in> set xs \<longleftrightarrow> a \<le> x \<and> x \<le> b" by (simp add: word_le_nat_alt)
qed

lemma rfold_rows:
  "rfold (\<lambda>y idx. rbind r (\<lambda>xs. Inr (idx @ f y xs))) ys idx0 = Inr idx \<Longrightarrow>
   (ys = [] \<and> idx = idx0) \<or> (\<exists>xs. r = Inr xs \<and> idx = idx0 @ concat (map (\<lambda>y. f y xs) ys))"
proof (induction ys arbitrary: idx0)
  case (Cons y ys)
  then obtain xs where "r = Inr xs" "rfold (\<lambda>y idx. rbind r (\<lambda>xs. Inr (idx @ f y xs))) ys (idx0 @ f y xs) = Inr idx"
    by auto
  with Cons.IH show ?case by fastforce
qed simp

definition axis_low :: "f64 \<Rightarrow> f64 \<Rightarrow> u8 \<Rightarrow> size_t res" where
  "axis_low pos vel tile = f64_to_size (f64_floor (f64_div (low_side pos vel) (f64_of_u8 tile)))"

definition axis_high :: "f64 \<Rightarrow> u8 \<Rightarrow> f64 \<Rightarrow> u8 \<Rightarrow> size_t res" where
  "axis_high pos ext vel tile = f64_to_size (f64_floor (f64_div (high_side pos ext vel) (f64_of_u8 tile)))"

lemma FindCollisionIndices_set:
  assumes "FindCollisionIndices box tile gx gy vx vy = Inr idx" "\<not> (f64_eq vx f64_zero \<and> f64_eq vy f64_zero)"
  obtains l t r b where "axis_low (GetX box) vx tile = Inr l" "axis_low (GetY box) vy tile = Inr t"
    "axis_high (GetX box) (GetWidth box) vx tile = Inr r" "axis_high (GetY box) (GetHeight box) vy tile = Inr b"
    "set idx = {y * ucast gx + x |x y. t \<le> y \<and> y \<le> min (ucast gy - 1) b \<and> l \<le> x \<and> x \<le> min (ucast gx - 1) r}"
proof -
  from assms obtain l t r b ys rows where
    w: "axis_low (GetX box) vx tile = Inr l" "axis_low (GetY box) vy tile = Inr t"
    "axis_high (GetX box) (GetWidth box) vx tile = Inr r" "axis_high (GetY box) (GetHeight box) vy tile = Inr b"
    and ys: "size_range (max 0 t) (min (ucast gy - 1) b) = Inr ys"
    and rows: "rfold (\<lambda>y idx. rbind (size_range (max 0 l) (min (ucast gx - 1) r))
       (\<lambda>xs. Inr (idx @ map (\<lambda>x. y * ucast gx + x) xs))) ys [] = Inr rows"
    and idx: "idx = sort (remdups rows)"
    unfolding FindCollisionIndices_def axis_low_def axis_high_def low_side_def high_side_def
    by (auto simp: Let_def split: if_splits)
  have m: "max 0 t = t" "max 0 l = l" by (simp_all add: max_def)
  have Y: "set ys = {y. t \<le> y \<and> y \<le> min (ucast gy - 1) b}" using size_range_set[OF ys] by (simp add: m)
  from rfold_rows[OF rows] have "set rows = {y * ucast gx + x |x y. y \<in> set ys \<and> l \<le> x \<and> x \<le> min (ucast gx - 1) r}"
  proof (elim disjE conjE exE)
    fix xs assume "size_range (max 0 l) (min (ucast gx - 1) r) = Inr xs"
      "rows = [] @ concat (map (\<lambda>y. map (\<lambda>x. y * ucast gx + x) xs) ys)"
    with size_range_set[of "max 0 l" "min (ucast gx - 1) r" xs] show ?thesis by (auto simp: m)
  qed simp
  with that[OF w] Y idx show thesis by simp
qed


lemma axis_words:
  assumes "in_field pos" "in_field vel" "0 < tile"
  shows "axis_low pos vel tile =
      (if 0 \<le> cell (low_side pos vel) tile then Inr (word_of_int (cell (low_side pos vel) tile)) else Inl BadCast)"
    "axis_high pos ext vel tile =
      (if 0 \<le> cell (high_side pos ext vel) tile then Inr (word_of_int (cell (high_side pos ext vel) tile)) else Inl BadCast)"
  unfolding axis_low_def axis_high_def
  using f64_to_size_int floor_div_cell sides[OF assms(1,2)] assms(3) by simp_all

lemma word_of_cell: "0 \<le> c \<Longrightarrow> c \<le> 2 ^ 50 \<Longrightarrow> unat (word_of_int c :: size_t) = nat c"
  by (simp add: unat_eq_nat_uint uint_word_of_int)

lemma axis_member:
  assumes "in_field pos" "in_field vel" "0 < tile" and k: "k < n" "n < 2 ^ 32"
    and lo: "axis_low pos vel tile = Inr l" and hi: "axis_high pos ext vel tile = Inr r"
    and cells: "cell (low_side pos vel) tile \<le> int k" "int k \<le> cell (high_side pos ext vel) tile"
  shows "l \<le> of_nat k \<and> of_nat k \<le> min (of_nat n - 1) r"
proof -
  have c: "0 \<le> cell (low_side pos vel) tile" "l = word_of_int (cell (low_side pos vel) tile)"
    "0 \<le> cell (high_side pos ext vel) tile" "r = word_of_int (cell (high_side pos ext vel) tile)"
    using lo hi axis_words[OF assms(1-3)] by (auto split: if_splits)
  have b: "cell (low_side pos vel) tile \<le> 2 ^ 50" "cell (high_side pos ext vel) tile \<le> 2 ^ 50"
    using floor_div_cell(3) sides[OF assms(1,2)] assms(3) by (simp_all add: abs_le_iff)
  have u: "unat l = nat (cell (low_side pos vel) tile)" "unat r = nat (cell (high_side pos ext vel) tile)"
    using c b word_of_cell by simp_all
  have kn: "unat (of_nat k :: size_t) = k" "unat (of_nat n :: size_t) = n"
    using k by (simp_all add: unat_of_nat)
  then have "unat (of_nat n - 1 :: size_t) = n - 1" using k by (subst unat_sub) (simp_all add: word_le_nat_alt)
  with u kn k cells c(1,3) show ?thesis
    unfolding min.bounded_iff word_le_nat_alt by (simp add: nat_le_iff le_nat_iff)
qed

section \<open>The earliest hit\<close>

text \<open>The tiles of a map: tile \<open>(i, j)\<close> stands at index \<open>j * grid_x + i\<close>, at its grid position.\<close>

definition grid_tile :: "u8 \<Rightarrow> nat \<Rightarrow> nat \<Rightarrow> Tile" where
  "grid_tile tile i j = Tile_new (f64_of_int (int i * uint tile)) (f64_of_int (int j * uint tile)) tile tile Solid"

definition grid_map :: "u8 \<Rightarrow> nat \<Rightarrow> nat \<Rightarrow> Tile list \<Rightarrow> bool" where
  "grid_map tile gx gy tiles \<longleftrightarrow> length tiles = gx * gy \<and>
     (\<forall>j<gy. \<forall>i<gx. tile_type (tiles ! (j * gx + i)) \<noteq> Empty_tile \<longrightarrow> tiles ! (j * gx + i) = grid_tile tile i j)"

lemma grid_tile_at:
  assumes "i < 2 ^ 16" "0 < tile"
  shows "tile_at (f64_of_int (int i * uint tile)) tile (int i)"
proof -
  have "(int i + 1) * uint tile \<le> 2 ^ 16 * 2 ^ 8" using assms uint_u8[of tile] by (intro mult_mono) simp_all
  moreover have "int i * uint tile \<le> (int i + 1) * uint tile" using uint_u8[of tile] by (intro mult_right_mono) simp_all
  ultimately have "(int i + 1) * uint tile \<le> 2 ^ 40" "small_int (int i * uint tile)" using uint_u8[of tile] by simp_all
  then show ?thesis using assms(2) f64_of_int_exact[of "int i * uint tile"] by (simp add: tile_at_def)
qed

lemma sweep_min:
  "rfold (swept_step box tiles vx vy) idx r0 = Inr sd \<Longrightarrow> \<not> is_nan (entry_time r0) \<Longrightarrow>
   \<not> is_nan (entry_time sd) \<and> f64_key (entry_time sd) \<le> f64_key (entry_time r0) \<and>
   (\<forall>i\<in>set idx. tile_type (tiles ! unat i) \<noteq> Empty_tile \<longrightarrow>
      \<not> f64_lt (entry_time (SweptAABB box (tiles ! unat i) vx vy)) (entry_time sd))"
proof (induction idx arbitrary: r0)
  case (Cons i idx)
  from Cons.prems(1) obtain r1 where r1: "swept_step box tiles vx vy i r0 = Inr r1"
    "rfold (swept_step box tiles vx vy) idx r1 = Inr sd" by auto
  then have s: "\<not> is_nan (entry_time r1)" "f64_key (entry_time r1) \<le> f64_key (entry_time r0)"
    "tile_type (tiles ! unat i) \<noteq> Empty_tile \<Longrightarrow> \<not> f64_lt (entry_time (SweptAABB box (tiles ! unat i) vx vy)) (entry_time r1)"
    using Cons.prems(2) by (auto simp: swept_step_def f64_lt_def Let_def split: if_splits)
  have "f64_key (entry_time sd) \<le> f64_key (entry_time r1)" using Cons.IH[OF r1(2) s(1)] by simp
  with Cons.IH[OF r1(2) s(1)] s show ?case by (auto simp: f64_lt_def)
qed simp


lemma cells_of_early_tile:
  assumes field: "in_field (GetX box)" "in_field (GetY box)" "in_field vx" "in_field vy"
    and axis: "f64_val vx = 0 \<or> f64_val vy = 0"
    and tx: "tile_at (GetX t) tile i" "GetWidth t = tile" and ty: "tile_at (GetY t) tile j" "GetHeight t = tile"
    and early: "f64_lt (entry_time (SweptAABB box t vx vy)) f64_one"
  shows "(cell (low_side (GetX box) vx) tile \<le> i \<and> i \<le> cell (high_side (GetX box) (GetWidth box) vx) tile \<and>
      cell (low_side (GetY box) vy) tile \<le> j \<and> j \<le> cell (high_side (GetY box) (GetHeight box) vy) tile) \<or>
    (f64_val vx < 0 \<and> f64_val (f64_add (GetX box) vx) = of_int ((i + 1) * uint tile)) \<or>
    (f64_val vy < 0 \<and> f64_val (f64_add (GetY box) vy) = of_int ((j + 1) * uint tile))"
proof -
  have "\<not> (f64_eq vx f64_zero \<and> f64_eq vy f64_zero)"
    using early by (auto simp: SweptAABB_def no_hit_def f64_lt_def)
  with axis field consider (x) "f64_eq vy f64_zero" "\<not> f64_eq vx f64_zero" | (y) "f64_eq vx f64_zero" "\<not> f64_eq vy f64_zero"
    by (auto simp: f64_eq_fin)
  then show ?thesis
  proof cases
    case x
    from swept_x[OF x early] obtain en ex d where h:
      "axis_distances (GetX box) (GetWidth box) (GetX t) tile vx = Some (en, ex)"
      "axis_distances (GetY box) (GetHeight box) (GetY t) tile vy = Some d"
      "\<not> f64_lt (f64_div en vx) f64_zero" "f64_lt (f64_div en vx) f64_one" using tx ty by auto
    have "f64_val vy = 0" using x(1) field by (simp add: f64_eq_fin)
    from resting_axis[OF field(2,4) ty(1) this h(2)] moving_axis[OF field(1,3) tx(1) x(2) h(1,3,4)]
    show ?thesis by blast
  next
    case y
    from swept_y[OF y early] obtain en ex d where h:
      "axis_distances (GetY box) (GetHeight box) (GetY t) tile vy = Some (en, ex)"
      "axis_distances (GetX box) (GetWidth box) (GetX t) tile vx = Some d"
      "\<not> f64_lt (f64_div en vy) f64_zero" "f64_lt (f64_div en vy) f64_one" using tx ty by auto
    have "f64_val vx = 0" using y(1) field by (simp add: f64_eq_fin)
    from resting_axis[OF field(1,3) tx(1) this h(2)] moving_axis[OF field(2,4) ty(1) y(2) h(1,3,4)]
    show ?thesis by blast
  qed
qed

lemma index_word:
  assumes "i < unat (gx :: u16)" "j < unat (gy :: u8)"
  shows "unat (of_nat j * ucast gx + of_nat i :: size_t) = j * unat gx + i"
proof -
  have g: "unat gx < 2 ^ 16" "unat gy < 2 ^ 8" using unsigned_less[of gx, where 'a = nat] unsigned_less[of gy, where 'a = nat] by simp_all
  have "j * unat gx \<le> 2 ^ 8 * 2 ^ 16" using assms g by (intro mult_le_mono) simp_all
  then have "j * unat gx + i < 2 ^ 64" using assms g by simp
  moreover have "of_nat j * ucast gx + of_nat i = (of_nat (j * unat gx + i) :: size_t)" by simp
  ultimately show ?thesis by (simp only: unat_of_nat) simp
qed

lemma early_tile_found:
  assumes run: "SweptAxis box tile gx gy tiles vx vy = Inr sd" and tile: "0 < tile"
    and grid: "grid_map tile (unat gx) (unat gy) tiles"
    and field: "in_field (GetX box)" "in_field (GetY box)" "in_field vx" "in_field vy"
    and axis: "f64_val vx = 0 \<or> f64_val vy = 0"
    and ij: "i < unat gx" "j < unat gy" and solid: "tile_type (tiles ! (j * unat gx + i)) \<noteq> Empty_tile"
  shows "\<not> f64_lt (entry_time (SweptAABB box (tiles ! (j * unat gx + i)) vx vy)) (entry_time sd) \<or>
    (f64_val vx < 0 \<and> f64_val (f64_add (GetX box) vx) = of_int ((int i + 1) * uint tile)) \<or>
    (f64_val vy < 0 \<and> f64_val (f64_add (GetY box) vy) = of_int ((int j + 1) * uint tile))"
proof (rule ccontr)
  define t where "t = tiles ! (j * unat gx + i)"
  assume "\<not> ?thesis"
  then have lt: "f64_lt (entry_time (SweptAABB box t vx vy)) (entry_time sd)"
    and nt: "\<not> (f64_val vx < 0 \<and> f64_val (f64_add (GetX box) vx) = of_int ((int i + 1) * uint tile))"
      "\<not> (f64_val vy < 0 \<and> f64_val (f64_add (GetY box) vy) = of_int ((int j + 1) * uint tile))"
    by (auto simp: t_def)
  obtain idx where idx: "FindCollisionIndices box tile gx gy vx vy = Inr idx"
      "rfold (swept_step box tiles vx vy) idx no_hit = Inr sd" using run by (auto simp: SweptAxis_def)
  have one: "\<not> is_nan f64_one" using one_facts(1) by (simp add: f64_classes)
  note m = sweep_min[OF idx(2), unfolded no_hit_def SweptData.simps, OF one]
  have early: "f64_lt (entry_time (SweptAABB box t vx vy)) f64_one" using lt m one by (auto simp: f64_lt_def)
  have t: "t = grid_tile tile i j" using grid ij solid by (simp add: grid_map_def t_def)
  have g: "i < 2 ^ 16" "j < 2 ^ 16" "unat gx < 2 ^ 32" "unat gy < 2 ^ 32"
    using ij unsigned_less[of gx, where 'a = nat] unsigned_less[of gy, where 'a = nat] by simp_all
  have ta: "tile_at (GetX t) tile (int i)" "GetWidth t = tile" "tile_at (GetY t) tile (int j)" "GetHeight t = tile"
    using grid_tile_at[OF g(1) tile] grid_tile_at[OF g(2) tile] by (simp_all add: t grid_tile_def Tile_new_def)
  from cells_of_early_tile[OF field axis ta early] nt have c:
    "cell (low_side (GetX box) vx) tile \<le> int i" "int i \<le> cell (high_side (GetX box) (GetWidth box) vx) tile"
    "cell (low_side (GetY box) vy) tile \<le> int j" "int j \<le> cell (high_side (GetY box) (GetHeight box) vy) tile" by blast+
  have "\<not> (f64_eq vx f64_zero \<and> f64_eq vy f64_zero)"
    using early by (auto simp: SweptAABB_def no_hit_def f64_lt_def)
  from FindCollisionIndices_set[OF idx(1) this] obtain l u r b where w:
    "axis_low (GetX box) vx tile = Inr l" "axis_low (GetY box) vy tile = Inr u"
    "axis_high (GetX box) (GetWidth box) vx tile = Inr r" "axis_high (GetY box) (GetHeight box) vy tile = Inr b"
    "set idx = {y * ucast gx + x |x y. u \<le> y \<and> y \<le> min (ucast gy - 1) b \<and> l \<le> x \<and> x \<le> min (ucast gx - 1) r}" by blast
  have "of_nat j * ucast gx + of_nat i \<in> set idx"
    using axis_member[OF field(1,3) tile ij(1) g(3) w(1,3) c(1,2)] axis_member[OF field(2,4) tile ij(2) g(4) w(2,4) c(3,4)]
    unfolding w(5) by auto
  with m solid lt show False by (auto simp: index_word[OF ij] t_def dest!: bspec)
qed

text \<open>
  C26. The broad phase loses nothing: for movement along one axis, no solid tile of the whole map
  is entered earlier than the time \<open>SweptAxis\<close> returns, although only the tiles of the bounding
  box are tested and every coordinate, quotient and time is rounded. The one exception is a box
  that moves towards smaller coordinates and ends exactly at the border of the tile.
\<close>

theorem SweptAxis_first_hit:
  assumes run: "SweptAxis box tile gx gy tiles vx vy = Inr sd" and tile: "0 < tile"
    and grid: "grid_map tile (unat gx) (unat gy) tiles"
    and field: "in_field (GetX box)" "in_field (GetY box)" "in_field vx" "in_field vy"
    and axis: "f64_val vx = 0 \<or> f64_val vy = 0"
    and ij: "i < unat gx" "j < unat gy" and solid: "tile_type (tiles ! (j * unat gx + i)) \<noteq> Empty_tile"
  shows "\<not> f64_lt (entry_time (SweptAABB box (tiles ! (j * unat gx + i)) vx vy)) (entry_time sd) \<or>
    (f64_val vx < 0 \<and> f64_val (f64_add (GetX box) vx) = of_int ((int i + 1) * uint tile)) \<or>
    (f64_val vy < 0 \<and> f64_val (f64_add (GetY box) vy) = of_int ((int j + 1) * uint tile))"
  by (rule early_tile_found[OF assms])

end
