(* ===== verification/FloorRounding.thy ===== *)
theory FloorRounding
  imports Collision
begin

text \<open>
  Where rounding defeats the collision test: a landing that ends one rounding step inside the
  floor, evaluated on the bit patterns of the doubles involved.
\<close>

section \<open>Rounding at the floor\<close>

definition sink_box :: IBox where
  "sink_box = \<lparr>GetX = f64_of_int 40, GetY = 0x406fe5fc95c21531, GetWidth = 15, GetHeight = 25\<rparr>"

definition sink_tile :: Tile where
  "sink_tile = grid_tile 32 1 9"

definition sink_vel :: f64 where
  "sink_vel = 0x4029f58bf8ded1af"

definition landed :: IBox where
  "landed = sink_box\<lparr>GetY := f64_add (GetY sink_box) (f64_mul sink_vel (entry_time (SweptAABB sink_box sink_tile f64_zero sink_vel)))\<rparr>"

lemma sink_x: "axis_distances (GetX sink_box) (GetWidth sink_box) (GetX sink_tile) (GetWidth sink_tile) f64_zero =
    Some (f64_inf True, f64_inf False)"
  by code_simp

lemma sink_y: "axis_distances (GetY sink_box) (GetHeight sink_box) (GetY sink_tile) (GetHeight sink_tile) sink_vel =
    Some (0x401f406d47bd5a00, 0x40503406d47bd59e)"
  by code_simp

lemma sink_times: "axis_time 0x401f406d47bd5a00 sink_vel = 0x3fe3431578ad607c"
  "axis_time 0x40503406d47bd59e sink_vel = 0x4013f94b451a7e98"
  "axis_time (f64_inf True) f64_zero = f64_inf True" "axis_time (f64_inf False) f64_zero = f64_inf False"
  "f64_fmax (f64_inf True) 0x3fe3431578ad607c = 0x3fe3431578ad607c"
  "f64_fmin (f64_inf False) 0x4013f94b451a7e98 = 0x4013f94b451a7e98"
  "\<not> f64_eq sink_vel f64_zero" "f64_lt f64_zero sink_vel"
  "\<not> f64_lt 0x4013f94b451a7e98 0x3fe3431578ad607c" "\<not> f64_lt 0x3fe3431578ad607c f64_zero"
  "\<not> f64_lt f64_one 0x3fe3431578ad607c" "\<not> f64_lt 0x3fe3431578ad607c (f64_inf True)"
  by code_simp+

lemma sink_hit: "SweptAABB sink_box sink_tile f64_zero sink_vel =
    \<lparr>entry_time = 0x3fe3431578ad607c, normal_x = 0, normal_y = -1, hit = True\<rparr>"
  by (simp add: SweptAABB_def sink_x sink_y sink_times Let_def)

lemma landed_box: "landed = \<lparr>GetX = f64_of_int 40, GetY = 0x4070700000000001, GetWidth = 15, GetHeight = 25\<rparr>"
proof -
  have "f64_add 0x406fe5fc95c21531 (f64_mul sink_vel 0x3fe3431578ad607c) = 0x4070700000000001" by code_simp
  then show ?thesis by (simp add: landed_def sink_hit) (simp add: sink_box_def)
qed

lemma next_y: "axis_distances (GetY landed) (GetHeight landed) (GetY sink_tile) (GetHeight sink_tile) (f64_lit (1/4)) =
    Some (0xbd30000000000000, 0x404c7ffffffffff8)"
  unfolding landed_box by code_simp

lemma next_x: "axis_distances (GetX landed) (GetWidth landed) (GetX sink_tile) (GetWidth sink_tile) f64_zero =
    Some (f64_inf True, f64_inf False)"
  unfolding landed_box by code_simp

lemma next_times: "axis_time 0xbd30000000000000 (f64_lit (1/4)) = 0xbd50000000000000"
  "f64_fmax (f64_inf True) 0xbd50000000000000 = 0xbd50000000000000" "f64_lt 0xbd50000000000000 f64_zero"
  by code_simp+

text \<open>
  C29. A landing can end inside the floor. A box above a tile of the map is reported to hit it;
  moved by the velocity scaled with the entry time, as \<open>MovePlayer\<close> does, its lower side lies
  below the tile's upper side, because \<open>y + height\<close> rounds; and the next downward step reports
  no hit, so the box falls through the floor.
\<close>

theorem landing_can_sink:
  "f64_le (f64_add (GetY sink_box) (f64_of_u8 (GetHeight sink_box))) (GetY sink_tile) \<and>
   hit (SweptAABB sink_box sink_tile f64_zero sink_vel) \<and>
   f64_lt (GetY sink_tile) (f64_add (GetY landed) (f64_of_u8 (GetHeight landed))) \<and>
   SweptAABB landed sink_tile f64_zero (f64_lit (1/4)) = no_hit"
proof (intro conjI)
  show "f64_le (f64_add (GetY sink_box) (f64_of_u8 (GetHeight sink_box))) (GetY sink_tile)" by code_simp
  show "f64_lt (GetY sink_tile) (f64_add (GetY landed) (f64_of_u8 (GetHeight landed)))"
    unfolding landed_box by code_simp
  show "SweptAABB landed sink_tile f64_zero (f64_lit (1/4)) = no_hit"
    by (simp add: SweptAABB_def next_x next_y next_times sink_times Let_def)
qed (simp add: sink_hit)

end
