(* ===== verification/RoundingError.thy ===== *)
theory RoundingError
  imports Rounding
begin

text \<open>
  How far rounding moves a value: by half a unit in the last place, not at all for values on the
  grid of their binade, and back to the integer that a value just misses.
\<close>

section \<open>The rounded magnitude\<close>

lemma round_even_error: "\<bar>of_int (round_even q) - q\<bar> \<le> 1 / 2"
proof -
  have "of_int \<lfloor>q\<rfloor> \<le> q" "q < of_int \<lfloor>q\<rfloor> + 1" by linarith+
  then show ?thesis by (simp add: round_even_def Let_def abs_le_iff)
qed

lemma round_even_near:
  assumes "\<bar>q - of_int n\<bar> < 1 / 2"
  shows "round_even q = n"
proof -
  have "rat_of_int (round_even q) < of_int (n + 1)" "of_int n < rat_of_int (round_even q + 1)"
    using round_even_error[of q] assms unfolding abs_less_iff abs_le_iff by simp_all
  then show ?thesis by (simp only: of_int_less_iff)
qed

text \<open>Every significand of a binade, the carry to the next one included, is a magnitude.\<close>

lemma mag_val_significand:
  assumes "-1022 \<le> e" "2 ^ 52 \<le> R" "R \<le> 2 ^ 53"
  shows "mag_val ((e + 1022) * 2 ^ 52 + R) = of_int R * 2 powi (e - 52)"
proof (cases "R = 2 ^ 53")
  case True
  have "((e + 1022) * 2 ^ 52 + R) = (e + 1024) * 2 ^ 52 + 0" using True by simp
  then have d: "((e + 1022) * 2 ^ 52 + R) div 2 ^ 52 = e + 1024" "((e + 1022) * 2 ^ 52 + R) mod 2 ^ 52 = 0"
    using int_div_mod_unique[of 0 "2 ^ 52" "e + 1024"] by simp_all
  have "\<not> (e + 1022) * 2 ^ 52 + R < 2 ^ 52" using assms True by simp
  moreover have "rat_of_int (2 ^ 52) * 2 powi (e - 51) = of_int (2 ^ 53) * 2 powi (e - 52)"
    using powi2_add[of 1 "e - 52"] by simp
  ultimately show ?thesis using d True by (simp add: mag_val_def)
next
  case False
  have s: "(e + 1022) * 2 ^ 52 + R = (e + 1023) * 2 ^ 52 + (R - 2 ^ 52)" by simp
  have d: "((e + 1022) * 2 ^ 52 + R) div 2 ^ 52 = e + 1023" "((e + 1022) * 2 ^ 52 + R) mod 2 ^ 52 = R - 2 ^ 52"
    unfolding s using int_div_mod_unique[of "R - 2 ^ 52" "2 ^ 52" "e + 1023"] assms False by auto
  have "\<not> (e + 1022) * 2 ^ 52 + R < 2 ^ 52" using assms by simp
  then show ?thesis using d by (simp add: mag_val_def)
qed

lemma rv_uminus: "rv (- q) = - rv q"
proof -
  have "f64_key (f64_round False (- q)) = f64_key (f64_minus (f64_round False q))"
    by (simp add: f64_key_round rnd_key_uminus)
  then have "f64_val (f64_round False (- q)) = f64_val (f64_minus (f64_round False q))" by (rule f64_val_cong)
  then show ?thesis by (simp add: rv_def)
qed

lemma rv_pos:
  assumes "0 < q" "moderate q"
  shows "rv q = of_int (round_even (q * 2 powi (52 - mag_exp q))) * 2 powi (mag_exp q - 52)"
proof -
  let ?e = "mag_exp q" and ?R = "round_even (q * 2 powi (52 - mag_exp q))"
  have raw: "mag_raw q = (?e + 1022) * 2 ^ 52 + ?R" by (simp add: mag_raw_def)
  have "is_fin (f64_round False q)" by (rule fin_round[OF assms(2)])
  then have "\<bar>rnd_key q\<bar> < inf_mag" by (simp add: is_fin_key f64_key_round)
  then have mr: "mag_round q = mag_raw q" "mag_raw q < inf_mag"
    using assms(1) by (auto simp: rnd_key_def mag_round_def min_def split: if_splits)
  have v: "rv q = mag_val (mag_raw q)"
    using assms(1) mr mag_raw_nonneg[OF assms(1)] inf_mag_bounds
    by (simp add: rv_def f64_val_def f64_round_def f64_make_decode)
  have e: "-1022 \<le> ?e" by (simp add: mag_exp_def)
  have "q * 2 powi (52 - ?e) \<le> of_int (2 ^ 53)" using mag_scaled_upper[OF assms(1)] by simp
  then have hi: "?R \<le> 2 ^ 53" using round_even_mono[of _ "of_int (2 ^ 53)"] by (metis round_even_of_int)
  show ?thesis
  proof (cases "2 ^ 52 \<le> ?R")
    case True
    then show ?thesis using mag_val_significand[OF e _ hi] v raw by simp
  next
    case False
    have "\<not> -1022 < ?e"
    proof
      assume "-1022 < ?e"
      then have "of_int (2 ^ 52) \<le> q * 2 powi (52 - ?e)" using mag_scaled_lower[OF assms(1)] by simp
      then have "2 ^ 52 \<le> ?R" using round_even_mono[of "of_int (2 ^ 52)"] by (metis round_even_of_int)
      with False show False by simp
    qed
    with e have "?e = -1022" by simp
    then show ?thesis using v raw False by (simp add: mag_val_def)
  qed
qed

section \<open>Error bounds\<close>

lemma rv_error_pos:
  assumes "0 < q" "q \<le> 2 powi (k + 1)" "-1022 \<le> k" "k \<le> 51"
  shows "\<bar>rv q - q\<bar> \<le> 2 powi (k - 53)"
proof -
  let ?e = "mag_exp q" and ?s = "q * 2 powi (52 - mag_exp q)"
  have "2 powi (k + 1) \<le> (2 :: rat) powi 52" using assms(4) by (intro powi2_le) simp
  then have m: "moderate q" using assms by simp
  have q: "q = ?s * 2 powi (?e - 52)" by (simp add: mult.assoc flip: powi2_add)
  have "rv q - q = (of_int (round_even ?s) - ?s) * 2 powi (?e - 52)"
    unfolding rv_pos[OF assms(1) m] by (subst (3) q) (simp add: left_diff_distrib)
  then have err: "\<bar>rv q - q\<bar> = \<bar>of_int (round_even ?s) - ?s\<bar> * 2 powi (?e - 52)" by (simp add: abs_mult)
  show ?thesis
  proof (cases "q = 2 powi (k + 1)")
    case True
    then have "ilog2 q = k + 1" by (intro ilog2_unique) (simp_all add: powi2_less)
    then have "?e = k + 1" using assms(3) by (simp add: mag_exp_def)
    then have "?s = of_int (2 ^ 52)" using True by (simp flip: powi2_add)
    then have "round_even ?s = 2 ^ 52" by (simp only: round_even_of_int)
    with \<open>?s = of_int (2 ^ 52)\<close> err show ?thesis by simp
  next
    case False
    have "2 powi (ilog2 q) < (2 :: rat) powi (k + 1)" using ilog2_bounds[OF assms(1)] assms(2) False by simp
    then have "ilog2 q \<le> k" using powi2_le[of "k + 1" "ilog2 q"] by (cases "ilog2 q \<le> k") simp_all
    then have "?e \<le> k" using assms(3) by (simp add: mag_exp_def)
    have "\<bar>rv q - q\<bar> \<le> 1 / 2 * 2 powi (?e - 52)"
      unfolding err using round_even_error by (intro mult_right_mono) simp_all
    also have "\<dots> = 2 powi (?e - 53)" using powi2_add[of "-1" "?e - 52"] by simp
    also have "\<dots> \<le> 2 powi (k - 53)" using \<open>?e \<le> k\<close> by (intro powi2_le) simp
    finally show ?thesis .
  qed
qed

text \<open>Rounding to nearest: half a unit in the last place of the binade that bounds the value.\<close>

lemma rv_error:
  assumes "\<bar>q\<bar> \<le> 2 powi (k + 1)" "-1022 \<le> k" "k \<le> 51"
  shows "\<bar>rv q - q\<bar> \<le> 2 powi (k - 53)"
proof -
  consider "q = 0" | "0 < q" | "0 < - q" by linarith
  then show ?thesis
  proof cases
    case 1
    then show ?thesis using rv_int[of 0] by simp
  next
    case 2
    then show ?thesis using rv_error_pos[OF 2 _ assms(2,3)] assms(1) by simp
  next
    case 3
    have "- rv q - - q = - (rv q - q)" by simp
    then show ?thesis using rv_error_pos[OF 3 _ assms(2,3)] assms(1) 3 by (simp only: rv_uminus abs_minus_cancel)
  qed
qed

text \<open>The grid of a binade: multiples of its unit in the last place.\<close>

definition on_grid :: "int \<Rightarrow> rat \<Rightarrow> bool" where
  "on_grid k q \<longleftrightarrow> (\<exists>m. q * 2 powi (52 - k) = of_int m)"

lemma on_grid_val: "2 powi k \<le> f64_val a \<Longrightarrow> -1022 \<le> k \<Longrightarrow> on_grid k (f64_val a)"
  using f64_granular[of k a] by (simp add: on_grid_def)

lemma on_grid_int: "k \<le> 52 \<Longrightarrow> on_grid k (of_int n)"
  unfolding on_grid_def by (intro exI[of _ "n * 2 ^ nat (52 - k)"]) (simp add: powi2_nat)

lemma on_grid_add: "on_grid k p \<Longrightarrow> on_grid k q \<Longrightarrow> on_grid k (p + q)"
  unfolding on_grid_def by (metis distrib_right of_int_add)

lemma on_grid_diff: "on_grid k p \<Longrightarrow> on_grid k q \<Longrightarrow> on_grid k (p - q)"
  unfolding on_grid_def by (metis left_diff_distrib of_int_diff)

lemma rv_on_grid:
  assumes "on_grid k q" "\<bar>q\<bar> < 2 powi (k + 1)" "-1022 \<le> k" "k \<le> 51"
  shows "rv q = q"
proof -
  from assms(1) obtain m where m: "q * 2 powi (52 - k) = of_int m" by (auto simp: on_grid_def)
  have "\<bar>q\<bar> * 2 powi (52 - k) < 2 powi (k + 1) * 2 powi (52 - k)" using assms(2) by (intro mult_strict_right_mono) simp_all
  then have "\<bar>q * 2 powi (52 - k)\<bar> < of_int (2 ^ 53)" by (simp add: abs_mult flip: powi2_add)
  then have mb: "\<bar>m\<bar> < 2 ^ 53" unfolding m by (simp only: of_int_abs[symmetric] of_int_less_iff)
  have "q = (q * 2 powi (52 - k)) * 2 powi (k - 52)" by (simp add: mult.assoc flip: powi2_add)
  then have q: "q = of_int m * 2 powi (k - 52)" unfolding m .
  have "2 powi (k + 1) \<le> (2 :: rat) powi 1024" using assms(4) by (intro powi2_le) simp
  then have "\<bar>of_int m * 2 powi (k - 52)\<bar> < (2 :: rat) powi 1024" using assms(2) q by simp
  from f64_round_dyadic(1)[OF mb _ this, of False] show ?thesis using assms(3) by (simp add: rv_def q[symmetric])
qed

text \<open>A value close enough to an integer is rounded to it.\<close>

lemma rv_absorb:
  assumes "2 powi k \<le> q" "q \<le> 2 powi (k + 1)" "\<bar>q - of_int n\<bar> < 2 powi (k - 53)" "0 \<le> k" "k \<le> 51"
  shows "rv q = of_int n"
proof (cases "q = 2 powi (k + 1)")
  case True
  then have q: "q = of_int (2 ^ nat (k + 1))" using assms(4) by (simp add: powi2_nat)
  have "(2 :: rat) powi (k - 53) \<le> 2 powi 0" using assms(5) by (intro powi2_le) simp
  then have "\<bar>rat_of_int (2 ^ nat (k + 1) - n)\<bar> < 1" using assms(3) q by simp
  then have "2 ^ nat (k + 1) = n" by (simp only: of_int_abs[symmetric] of_int_less_1_iff)
  moreover have "(2 :: int) ^ nat (k + 1) \<le> 2 ^ 52" using assms(4,5) by (intro power_increasing) simp_all
  moreover have "0 < (2 :: int) ^ nat (k + 1)" by simp
  ultimately show ?thesis using q rv_int[of n] by simp
next
  case False
  then have "ilog2 q = k" using assms(1,2) by (intro ilog2_unique) simp_all
  then have e: "mag_exp q = k" using assms(4) by (simp add: mag_exp_def)
  have q0: "0 < q" using assms(1) powi2_pos[of k] by linarith
  have "(2 :: rat) powi (k + 1) \<le> 2 powi 52" using assms(5) by (intro powi2_le) simp
  then have m: "moderate q" using assms(2) q0 by simp
  have n: "rat_of_int n * 2 powi (52 - k) = of_int (n * 2 ^ nat (52 - k))" using assms(5) by (simp add: powi2_nat)
  have "\<bar>q - of_int n\<bar> * 2 powi (52 - k) < 2 powi (k - 53) * 2 powi (52 - k)"
    using assms(3) by (intro mult_strict_right_mono) simp_all
  also have "\<dots> = 1 / 2" by (simp flip: powi2_add)
  finally have "\<bar>(q - of_int n) * 2 powi (52 - k)\<bar> < 1 / 2" by (simp add: abs_mult)
  then have "\<bar>q * 2 powi (52 - k) - of_int (n * 2 ^ nat (52 - k))\<bar> < 1 / 2" by (simp only: left_diff_distrib n)
  from round_even_near[OF this] have "rv q = of_int (n * 2 ^ nat (52 - k)) * 2 powi (k - 52)"
    by (simp only: rv_pos[OF q0 m] e)
  also have "\<dots> = of_int n" unfolding n[symmetric] by (simp add: mult.assoc flip: powi2_add)
  finally show ?thesis .
qed

end
