(* ===== verification/Contact.thy ===== *)
theory Contact
  imports Collision
begin

text \<open>
  What the collision test guarantees: the index set stays inside
  the map, the test is defined while coordinates are not negative, entry times lie in the
  step, and a reported miss means the box stays on its side of the tile.
\<close>

section \<open>Defined behaviour\<close>

lemma FindCollisionIndices_zero:
  "f64_eq vx f64_zero \<Longrightarrow> f64_eq vy f64_zero \<Longrightarrow> FindCollisionIndices box tile gx gy vx vy = Inr []"
  by (simp add: FindCollisionIndices_def)

lemma unat_below_half:
  assumes "LENGTH('a) < 64" shows "unat (g :: 'a::len word) < 2 ^ 63"
proof -
  have "(2::nat) ^ LENGTH('a) \<le> 2 ^ 63" using assms by (intro power_increasing) simp_all
  then show ?thesis using unsigned_less[of g, where 'a = nat] by linarith
qed

lemma ucast_pred:
  assumes "0 < (g :: 'a::len word)" "LENGTH('a) < 64"
  shows "(x :: size_t) \<le> ucast g - 1 \<longleftrightarrow> unat x < unat g"
proof -
  have u: "unat (ucast g :: size_t) = unat g" using unat_below_half[OF assms(2), of g] by (simp add: unsigned_ucast_eq take_bit_eq_mod)
  have "0 < unat g" using assms(1) by (simp add: word_less_nat_alt)
  then have "unat (ucast g - 1 :: size_t) = unat g - 1" using u by (subst unat_sub) (simp_all add: word_le_nat_alt)
  with \<open>0 < unat g\<close> show ?thesis by (auto simp: word_le_nat_alt)
qed

lemma indices_bound:
  assumes "0 < gx" "0 < gy" "FindCollisionIndices box tile gx gy vx vy = Inr idx" "k \<in> set idx"
  shows "\<exists>i j. i < unat gx \<and> j < unat gy \<and> unat k = j * unat gx + i"
proof -
  have nz: "\<not> (f64_eq vx f64_zero \<and> f64_eq vy f64_zero)"
    using assms(3,4) by (auto simp: FindCollisionIndices_zero)
  obtain l t r b where
    "set idx = {y * ucast gx + x |x y. t \<le> y \<and> y \<le> min (ucast gy - 1) b \<and> l \<le> x \<and> x \<le> min (ucast gx - 1) r}"
    by (rule FindCollisionIndices_set[OF assms(3) nz])
  with assms(4) obtain x y :: size_t where k: "k = y * ucast gx + x" "y \<le> ucast gy - 1" "x \<le> ucast gx - 1"
    by (auto simp: min.bounded_iff)
  then have b: "unat x < unat gx" "unat y < unat gy" using assms(1,2) by (simp_all add: ucast_pred)
  from index_word[OF b] k(1) b show ?thesis by (intro exI[of _ "unat x"] exI[of _ "unat y"]) simp
qed

text \<open>
  The broad phase of the collision test stays inside the map: on a map that is not empty, \<open>FindCollisionIndices\<close> returns
  an ascending set of indices, each below \<open>grid_x * grid_y\<close>, for every box, every velocity
  and every tile size, infinities and NaNs included.
\<close>

lemma indices_in_grid:
  assumes "0 < gx" "0 < gy" "FindCollisionIndices box tile gx gy vx vy = Inr idx"
  shows "sorted idx \<and> distinct idx \<and> (\<forall>k\<in>set idx. unat k < unat gx * unat gy)"
proof -
  have "sorted idx \<and> distinct idx"
    using assms(3) by (auto simp: FindCollisionIndices_def Let_def split: if_splits)
  then show ?thesis using indices_bound[OF assms] cell_in_grid by metis
qed

lemma cell_nonneg: "is_fin a \<Longrightarrow> \<bar>f64_val a\<bar> \<le> 2 ^ 50 \<Longrightarrow> 0 < tile \<Longrightarrow> 0 \<le> f64_val a \<Longrightarrow> 0 \<le> cell a tile"
  using cell_ge[of a tile 0] by simp

lemma cell_negative:
  assumes "is_fin a" "\<bar>f64_val a\<bar> \<le> 2 ^ 50" "0 < tile" "f64_val a \<le> -1"
  shows "cell a tile < 0"
proof -
  let ?q = "f64_val a / of_int (uint tile)"
  have T: "1 \<le> uint tile" "uint tile \<le> 255" using u8_nonzero[OF assms(3)] uint_u8[of tile] by simp_all
  have "?q \<le> -1 / of_int (uint tile)" using assms(4) T by (intro divide_right_mono) simp_all
  also have "\<dots> \<le> -1 / 255" using T by (intro divide_left_mono_neg) simp_all
  finally have q: "?q \<le> - (1 / 2 ^ 40)" by simp
  have m: "moderate ?q" using quotient_moderate[OF assms(2), of "of_int (uint tile)"] T by simp
  have "f64_key (f64_round False ?q) < f64_key f64_zero" using rnd_key_neg[OF q] by (simp add: f64_key_round)
  then have "rv ?q < 0" using f64o.val_less_iff[OF fin_round[OF m], of f64_zero] by (simp add: rv_def)
  then show ?thesis by (simp add: cell_def floor_less_iff)
qed

lemma high_cell_nonneg:
  assumes "in_field pos" "in_field vel" "0 < tile" "0 \<le> f64_val pos"
  shows "0 \<le> cell (high_side pos ext vel) tile"
proof -
  have "0 \<le> f64_val (high_side pos ext vel)"
    using sides(7)[OF assms(1,2), of ext] far_side(3)[OF assms(1), of ext] assms(4) by linarith
  then show ?thesis by (rule cell_nonneg[OF sides(2,4)[OF assms(1,2)] assms(3)])
qed

lemma low_cell_nonneg:
  assumes "in_field pos" "in_field vel" "0 < tile" "0 \<le> f64_val pos" "0 \<le> f64_val (f64_add pos vel)"
  shows "0 \<le> cell (low_side pos vel) tile"
proof -
  have "is_fin (f64_add pos vel)" using moved_side[of pos vel] assms by simp
  then have "0 \<le> f64_val (low_side pos vel)" using assms by (simp add: low_side_def f64_min_val)
  then show ?thesis by (rule cell_nonneg[OF sides(1,3)[OF assms(1,2)] assms(3)])
qed

lemma size_range_total: "b \<noteq> -1 \<Longrightarrow> \<exists>xs. size_range a b = Inr xs"
  by (simp add: size_range_def)

lemma min_not_max: "0 < (g :: 'a::len word) \<Longrightarrow> LENGTH('a) < 64 \<Longrightarrow> min (ucast g - 1) r \<noteq> (-1 :: size_t)"
proof
  assume "0 < g" and l: "LENGTH('a) < 64" and "min (ucast g - 1) r = (-1 :: size_t)"
  then have "(-1 :: size_t) \<le> ucast g - 1" by (metis min.cobounded1)
  with ucast_pred[OF \<open>0 < g\<close> l] unat_below_half[OF l, of g] show False by (simp add: unsigned_minus_1_eq_mask mask_eq_exp_minus_1)
qed


lemma FindCollisionIndices_rows:
  assumes "\<not> (f64_eq vx f64_zero \<and> f64_eq vy f64_zero)"
  shows "FindCollisionIndices box tile gx gy vx vy =
    rbind (axis_low (GetX box) vx tile) (\<lambda>l. rbind (axis_low (GetY box) vy tile) (\<lambda>t.
    rbind (axis_high (GetX box) (GetWidth box) vx tile) (\<lambda>r.
    rbind (axis_high (GetY box) (GetHeight box) vy tile) (\<lambda>b.
    rbind (size_range (max 0 t) (min (ucast gy - 1) b)) (\<lambda>ys.
    rbind (rfold (\<lambda>y idx. rbind (size_range (max 0 l) (min (ucast gx - 1) r)) (\<lambda>xs.
       Inr (idx @ map (\<lambda>x. y * ucast gx + x) xs))) ys []) (\<lambda>idx. Inr (sort (remdups idx))))))))"
  using assms by (auto simp: FindCollisionIndices_def axis_low_def axis_high_def low_side_def high_side_def Let_def)

lemma FindCollisionIndices_total:
  assumes "0 < tile" "0 < gx" "0 < gy"
    and "in_field (GetX box)" "in_field (GetY box)" "in_field vx" "in_field vy"
    and "0 \<le> f64_val (GetX box)" "0 \<le> f64_val (GetY box)"
    and "0 \<le> f64_val (f64_add (GetX box) vx)" "0 \<le> f64_val (f64_add (GetY box) vy)"
  shows "\<exists>idx. FindCollisionIndices box tile gx gy vx vy = Inr idx"
proof (cases "f64_eq vx f64_zero \<and> f64_eq vy f64_zero")
  case False
  obtain l t r b where w: "axis_low (GetX box) vx tile = Inr l" "axis_low (GetY box) vy tile = Inr t"
    "axis_high (GetX box) (GetWidth box) vx tile = Inr r" "axis_high (GetY box) (GetHeight box) vy tile = Inr b"
    using assms by (simp add: axis_words low_cell_nonneg high_cell_nonneg)
  obtain ys xs where "size_range (max 0 t) (min (ucast gy - 1) b) = Inr ys"
    "size_range (max 0 l) (min (ucast gx - 1) r) = Inr xs"
    using size_range_total[OF min_not_max[OF assms(2)], of "max 0 l" r]
      size_range_total[OF min_not_max[OF assms(3)], of "max 0 t" b] by auto
  moreover have "\<exists>rows. rfold (\<lambda>y idx. rbind (Inr xs) (\<lambda>xs. Inr (idx @ map (\<lambda>x. y * ucast gx + x) xs))) ys [] = Inr rows"
    using rfold_total[of "\<lambda>_. True" "[]" ys "\<lambda>y idx. Inr (idx @ map (\<lambda>x. y * ucast gx + x) xs)"] by simp
  ultimately show ?thesis using w by (simp add: FindCollisionIndices_rows[OF False])
qed (simp add: FindCollisionIndices_zero)

lemma sweep_total:
  assumes "\<And>k. k \<in> set idx \<Longrightarrow> unat k < length tiles"
  shows "\<exists>sd. rfold (swept_step box tiles vx vy) idx r0 = Inr sd"
  using rfold_total[of "\<lambda>_. True" r0 idx "swept_step box tiles vx vy"] assms by (auto simp: swept_step_def)

lemma sweep_source:
  assumes "rfold (swept_step box tiles vx vy) idx no_hit = Inr sd"
  shows "sd = no_hit \<or> (\<exists>k<length tiles. tile_type (tiles ! k) \<noteq> Empty_tile \<and> sd = SweptAABB box (tiles ! k) vx vy)"
  using assms by (rule rfold_invariant) (auto simp: swept_step_def Let_def split: if_splits)

lemma SweptAxis_returns:
  assumes "0 < tile" "0 < gx" "0 < gy" "unat gx * unat gy \<le> length tiles"
    and "in_field (GetX box)" "in_field (GetY box)" "in_field vx" "in_field vy"
    and "0 \<le> f64_val (GetX box)" "0 \<le> f64_val (GetY box)"
    and "0 \<le> f64_val (f64_add (GetX box) vx)" "0 \<le> f64_val (f64_add (GetY box) vy)"
  shows "\<exists>sd. SweptAxis box tile gx gy tiles vx vy = Inr sd"
proof -
  obtain idx where idx: "FindCollisionIndices box tile gx gy vx vy = Inr idx"
    using FindCollisionIndices_total[OF assms(1-3,5-12)] by blast
  have "unat k < length tiles" if "k \<in> set idx" for k
    using indices_bound[OF assms(2,3) idx that] cell_in_grid assms(4) by fastforce
  then show ?thesis using sweep_total[of idx tiles] idx by (simp add: SweptAxis_def)
qed

lemma axis_low_negative:
  assumes "in_field pos" "in_field vel" "0 < tile" "f64_val (f64_add pos vel) \<le> -1"
  shows "axis_low pos vel tile = Inl BadCast"
proof -
  have "f64_val (low_side pos vel) \<le> -1" using sides(6)[OF assms(1,2)] assms(4) by linarith
  then show ?thesis using cell_negative[OF sides(1,3)[OF assms(1,2)] assms(3)] by (simp add: axis_words[OF assms(1-3)])
qed

text \<open>
  C27. \<open>SweptAxis\<close> is defined while the box stays at non-negative coordinates: the loops end, no
  index is out of range, every conversion is in range, and the result is a miss or the swept
  test against a solid tile of the map.
\<close>

theorem SweptAxis_defined:
  assumes "0 < tile" "0 < gx" "0 < gy" "unat gx * unat gy \<le> length tiles"
    and "in_field (GetX box)" "in_field (GetY box)" "in_field vx" "in_field vy"
    and "0 \<le> f64_val (GetX box)" "0 \<le> f64_val (GetY box)"
    and "0 \<le> f64_val (f64_add (GetX box) vx)" "0 \<le> f64_val (f64_add (GetY box) vy)"
  shows "\<exists>sd. SweptAxis box tile gx gy tiles vx vy = Inr sd \<and>
    (sd = no_hit \<or> (\<exists>k<length tiles. tile_type (tiles ! k) \<noteq> Empty_tile \<and> sd = SweptAABB box (tiles ! k) vx vy))"
proof -
  obtain sd where sd: "SweptAxis box tile gx gy tiles vx vy = Inr sd" using SweptAxis_returns[OF assms] by blast
  then show ?thesis using sweep_source[of box tiles vx vy _ sd] by (auto simp: SweptAxis_def)
qed

text \<open>
  C28. The bounding box is converted to unsigned integers before it is clamped at 0: a step that
  ends at least one unit left of the map makes the conversion undefined, whatever the map.
\<close>

theorem leaving_the_map_is_undefined:
  assumes "in_field (GetX box)" "in_field vx" "0 < tile" "f64_val (f64_add (GetX box) vx) \<le> -1"
    and "\<not> f64_eq vx f64_zero"
  shows "SweptAxis box tile gx gy tiles vx vy = Inl BadCast"
  using assms axis_low_negative[OF assms(1-4)] by (simp add: SweptAxis_def FindCollisionIndices_rows)

section \<open>What the swept test reports\<close>

lemma axis_time_not_nan:
  assumes "in_field p1" "in_field p2" "in_field v" "axis_distances p1 e1 p2 e2 v = Some (en, ex)"
  shows "\<not> is_nan (axis_time en v)" "\<not> is_nan (axis_time ex v)"
proof -
  note f = far_side[OF assms(1), of e1] far_side[OF assms(2), of e2]
  have m: "moderate (f64_val p2 - f64_val (f64_add p1 (f64_of_u8 e1)))" "moderate (f64_val (f64_add p2 (f64_of_u8 e2)) - f64_val p1)"
    using f(4,8) assms(1,2) by (simp_all add: abs_le_iff)
  note d = f64_sub_val(2)[of p2 "f64_add p1 (f64_of_u8 e1)", OF _ f(2) m(1)] f64_sub_val(2)[of "f64_add p2 (f64_of_u8 e2)" p1, OF f(6) _ m(2)]
  have "is_fin v" using assms(3) by simp
  then have "is_fin en \<and> is_fin ex \<or> en = f64_inf True \<and> ex = f64_inf False \<and> f64_val v = 0"
    using assms d by (auto simp: axis_distances_def Let_def f64_lt_fin split: if_splits)
  with \<open>is_fin v\<close> show "\<not> is_nan (axis_time en v)" "\<not> is_nan (axis_time ex v)"
    using f64_op_not_nan(4)[of _ v] by (auto simp: axis_time_def f64_eq_fin neg_inf_facts f64_classes)
qed

lemma swept_range:
  assumes "in_field (GetX b)" "in_field (GetY b)" "in_field (GetX t)" "in_field (GetY t)" "in_field vx" "in_field vy"
  shows "f64_le f64_zero (entry_time (SweptAABB b t vx vy)) \<and> f64_le (entry_time (SweptAABB b t vx vy)) f64_one \<and>
    (hit (SweptAABB b t vx vy) \<or> SweptAABB b t vx vy = no_hit)"
proof (cases rule: SweptAABB_cases[of b t vx vy])
  case miss
  have "f64_le f64_zero f64_one" "f64_le f64_one f64_one" using one_facts by (simp_all add: f64_le_fin)
  with miss show ?thesis by (simp add: no_hit_def)
next
  case (contact xe xx ye yx)
  have "\<not> is_nan (f64_fmax (axis_time xe vx) (axis_time ye vy))"
    using axis_time_not_nan[OF assms(1,3,5) contact(1)] axis_time_not_nan[OF assms(2,4,6) contact(2)]
    by (simp add: f64_fmax_def)
  with contact one_facts show ?thesis by (simp add: f64_le_def f64_lt_def f64_classes)
qed

lemma axis_pass:
  assumes p1: "in_field p1" and p2: "in_field p2" and v: "in_field v"
    and d: "axis_distances p1 e1 p2 e2 v = Some (en, ex)"
    and side: "0 < f64_val v \<and> f64_val (f64_add p1 (f64_of_u8 e1)) \<le> f64_val p2 \<or>
      f64_val v < 0 \<and> f64_val (f64_add p2 (f64_of_u8 e2)) \<le> f64_val p1"
  shows "\<not> f64_lt (axis_time en v) f64_zero" "\<not> f64_lt (axis_time ex v) (axis_time en v)"
    "f64_lt f64_one (axis_time en v) \<Longrightarrow> (0 < f64_val v \<and> f64_val (f64_add p1 (f64_of_u8 e1)) + f64_val v < f64_val p2) \<or>
      (f64_val v < 0 \<and> f64_val (f64_add p2 (f64_of_u8 e2)) < f64_val p1 + f64_val v)"
proof -
  let ?r1 = "f64_val (f64_add p1 (f64_of_u8 e1))" and ?r2 = "f64_val (f64_add p2 (f64_of_u8 e2))"
  note f1 = far_side[OF p1, of e1] and f2 = far_side[OF p2, of e2]
  have m: "moderate (f64_val p2 - ?r1)" "moderate (?r2 - f64_val p1)" using f1(4) f2(4) p1 p2 by (simp_all add: abs_le_iff)
  have fin: "is_fin p1" "is_fin p2" "is_fin v" using p1 p2 v by simp_all
  note dn = f64_sub_val[OF fin(2) f1(2) m(1)] and df = f64_sub_val[OF f2(2) fin(1) m(2)]
  have le: "f64_val p2 - ?r1 \<le> ?r2 - f64_val p1" using f1(3) f2(3) by simp
  have vz: "f64_val v \<noteq> 0" using side by auto
  define u where "u = f64_val v"
  have keys: "f64_key (axis_time e v) = rnd_key (f64_val e / u)" "\<not> is_nan (axis_time e v)" if "is_fin e" for e
    using that fin(3) vz f64_op_keys(4)[OF that fin(3)] f64_op_not_nan(4)[OF that fin(3)]
    by (simp_all add: axis_time_def f64_eq_fin u_def)
  have ee: "if 0 < u then en = f64_sub p2 (f64_add p1 (f64_of_u8 e1)) \<and> ex = f64_sub (f64_add p2 (f64_of_u8 e2)) p1
     else en = f64_sub (f64_add p2 (f64_of_u8 e2)) p1 \<and> ex = f64_sub p2 (f64_add p1 (f64_of_u8 e1))"
    using d fin vz by (auto simp: axis_distances_def Let_def f64_lt_fin u_def split: if_splits)
  then have fe: "is_fin en" "is_fin ex" using dn df by (auto split: if_splits)
  have q: "0 \<le> f64_val en / u" "f64_val en / u \<le> f64_val ex / u"
  proof -
    have z: "rv 0 = 0" using rv_int[of 0] by simp
    have mono: "rv (f64_val p2 - ?r1) \<le> rv (?r2 - f64_val p1)" by (rule rv_mono[OF le m])
    have "0 < u \<Longrightarrow> 0 \<le> rv (f64_val p2 - ?r1)" using side rv_mono[OF _ _ m(1), of 0] z by (simp add: u_def)
    moreover have "u < 0 \<Longrightarrow> rv (?r2 - f64_val p1) \<le> 0" using side rv_mono[OF _ m(2), of 0] z by (simp add: u_def)
    ultimately show "0 \<le> f64_val en / u" "f64_val en / u \<le> f64_val ex / u"
      using ee dn(1) df(1) vz mono
      by (auto simp: u_def zero_le_divide_iff intro: divide_right_mono divide_right_mono_neg split: if_splits)
  qed
  show "\<not> f64_lt (axis_time en v) f64_zero" using keys[OF fe(1)] f64o.rkey_nonneg[OF q(1)] by (simp add: f64_lt_def)
  show "\<not> f64_lt (axis_time ex v) (axis_time en v)"
    using keys[OF fe(1)] keys[OF fe(2)] rnd_key_mono[OF q(2)] by (simp add: f64_lt_def)
  assume "f64_lt f64_one (axis_time en v)"
  then have "f64_key f64_one < rnd_key (f64_val en / u)" using keys[OF fe(1)] by (simp add: f64_lt_def)
  then have gt: "1 < f64_val en / u" using f64o.round_greater_imp[OF one_facts(1)] one_facts(2) by simp
  show "(0 < f64_val v \<and> ?r1 + f64_val v < f64_val p2) \<or> (f64_val v < 0 \<and> ?r2 < f64_val p1 + f64_val v)"
  proof (cases "0 < u")
    case True
    then have "f64_val v < f64_val en" using gt by (simp add: u_def less_divide_eq)
    then have "f64_key v < rnd_key (f64_val p2 - ?r1)"
      using ee True f64o.val_less_iff[OF fin(3) fe(1)] f64_op_keys(2)[OF fin(2) f1(2)] by simp
    then show ?thesis using f64o.round_greater_imp[OF fin(3)] True by (fastforce simp: u_def)
  next
    case False
    then have "f64_val en < f64_val v" using gt vz by (simp add: u_def less_divide_eq)
    then have "rnd_key (?r2 - f64_val p1) < f64_key v"
      using ee False f64o.val_less_iff[OF fe(1) fin(3)] f64_op_keys(2)[OF f2(2) fin(1)] by simp
    then show ?thesis using f64o.round_less_imp[OF fin(3)] False vz by (fastforce simp: u_def)
  qed
qed


lemma inf_max_min:
  assumes "\<not> is_nan a"
  shows "f64_fmax (f64_inf True) a = a \<or> f64_key a = - inf_mag \<and> f64_fmax (f64_inf True) a = f64_inf True"
    "f64_fmin (f64_inf False) a = a \<or> f64_key a = inf_mag \<and> f64_fmin (f64_inf False) a = f64_inf False"
proof -
  have "\<bar>f64_key a\<bar> \<le> inf_mag" using assms by (simp add: is_nan_key)
  moreover have "f64_key (f64_inf False) = inf_mag" using inf_mag_bounds by (simp add: f64_inf_def f64_make_key)
  ultimately show "f64_fmax (f64_inf True) a = a \<or> f64_key a = - inf_mag \<and> f64_fmax (f64_inf True) a = f64_inf True"
    "f64_fmin (f64_inf False) a = a \<or> f64_key a = inf_mag \<and> f64_fmin (f64_inf False) a = f64_inf False"
    using assms neg_inf_facts by (auto simp: f64_fmax_def f64_fmin_def)
qed

lemma rest_on_axis:
  assumes "f64_eq vx f64_zero" "\<not> f64_eq vy f64_zero" "SweptAABB b t vx vy = no_hit"
    and "axis_distances (GetX b) (GetWidth b) (GetX t) (GetWidth t) vx = Some d"
    and y: "axis_distances (GetY b) (GetHeight b) (GetY t) (GetHeight t) vy = Some (en, ex)"
    and nn: "\<not> is_nan (axis_time en vy)" "\<not> is_nan (axis_time ex vy)"
    and pass: "\<not> f64_lt (axis_time en vy) f64_zero" "\<not> f64_lt (axis_time ex vy) (axis_time en vy)"
  shows "f64_lt f64_one (axis_time en vy)"
proof -
  have "d = (f64_inf True, f64_inf False)"
    using assms(1,4) by (auto simp: axis_distances_def Let_def f64_eq_def f64_lt_def split: if_splits)
  then have x: "axis_distances (GetX b) (GetWidth b) (GetX t) (GetWidth t) vx = Some (f64_inf True, f64_inf False)"
    "axis_time (f64_inf True) vx = f64_inf True" "axis_time (f64_inf False) vx = f64_inf False"
    using assms(1,4) by (simp_all add: axis_time_def)
  define e where "e = f64_fmax (f64_inf True) (axis_time en vy)"
  define q where "q = f64_fmin (f64_inf False) (axis_time ex vy)"
  have "f64_key (f64_inf False) = inf_mag" using inf_mag_bounds by (simp add: f64_inf_def f64_make_key)
  then have k: "f64_key e = f64_key (axis_time en vy)" "\<not> is_nan e" "f64_key q = f64_key (axis_time ex vy)" "\<not> is_nan q"
    using inf_max_min(1)[OF nn(1)] inf_max_min(2)[OF nn(2)] nn neg_inf_facts by (auto simp: e_def q_def)
  have "f64_lt q e \<or> f64_lt e f64_zero \<or> f64_lt f64_one e"
    using assms(3) by (auto simp: SweptAABB_def assms(2) x y Let_def no_hit_def e_def q_def split: if_splits)
  with k pass nn show ?thesis by (simp add: f64_lt_def)
qed

text \<open>
  C9. No tunnelling: when \<open>SweptAABB\<close> reports no hit for a box that moves vertically past a tile it overlaps
  horizontally, the box stays on its side of the tile for the whole step. A box above the tile
  stays strictly above it, a box below it strictly below, whatever the speed.
\<close>

theorem no_tunnelling:
  assumes field: "in_field (GetX b)" "in_field (GetY b)" "in_field (GetX t)" "in_field (GetY t)" "in_field vx" "in_field vy"
    and vx: "f64_val vx = 0" and miss: "SweptAABB b t vx vy = no_hit"
    and overlap: "\<not> f64_le (f64_add (GetX b) (f64_of_u8 (GetWidth b))) (GetX t)"
      "\<not> f64_le (f64_add (GetX t) (f64_of_u8 (GetWidth t))) (GetX b)"
    and side: "0 < f64_val vy \<and> f64_val (f64_add (GetY b) (f64_of_u8 (GetHeight b))) \<le> f64_val (GetY t) \<or>
      f64_val vy < 0 \<and> f64_val (f64_add (GetY t) (f64_of_u8 (GetHeight t))) \<le> f64_val (GetY b)"
  shows "(0 < f64_val vy \<and> f64_val (f64_add (GetY b) (f64_of_u8 (GetHeight b))) + f64_val vy < f64_val (GetY t)) \<or>
    (f64_val vy < 0 \<and> f64_val (f64_add (GetY t) (f64_of_u8 (GetHeight t))) < f64_val (GetY b) + f64_val vy)"
proof -
  have v: "f64_eq vx f64_zero" "\<not> f64_eq vy f64_zero" using field vx side by (auto simp: f64_eq_fin)
  have d: "axis_distances (GetX b) (GetWidth b) (GetX t) (GetWidth t) vx = Some (f64_inf True, f64_inf False)"
    using overlap v(1) by (simp add: axis_distances_def Let_def f64_eq_def f64_lt_def)
  obtain en ex where y: "axis_distances (GetY b) (GetHeight b) (GetY t) (GetHeight t) vy = Some (en, ex)"
    using side field by (auto simp: axis_distances_def Let_def f64_lt_fin)
  note nn = axis_time_not_nan[OF field(2,4,6) y] and pass = axis_pass[OF field(2,4,6) y side]
  show ?thesis by (rule pass(3)[OF rest_on_axis[OF v miss d y nn pass(1,2)]])
qed

section \<open>Concrete runs\<close>

definition wit_box :: IBox where
  "wit_box = \<lparr>GetX = f64_of_int 40, GetY = f64_of_int 2, GetWidth = 15, GetHeight = 25\<rparr>"

definition wit_map :: "Tile list" where
  "wit_map = [grid_tile 32 0 0, Tile_default, Tile_default, grid_tile 32 1 1]"

lemma wit_small: "\<bar>n\<bar> \<le> 1000 \<Longrightarrow> in_field (f64_of_int n)" "\<bar>n\<bar> \<le> 1000 \<Longrightarrow> f64_val (f64_of_int n) = of_int n"
proof -
  assume n: "\<bar>n\<bar> \<le> 1000"
  then have s: "small_int n" by simp
  have "rat_of_int \<bar>n\<bar> \<le> of_int 1000" using n by (simp only: of_int_le_iff)
  then show "in_field (f64_of_int n)" using f64_of_int_exact[OF s] by simp
  show "f64_val (f64_of_int n) = of_int n" by (rule f64_of_int_exact[OF s])
qed

lemmas wit_simps = wit_box_def wit_small f64_int_add f64_zero_of_int

lemma wit_length: "length wit_map = 4"
  by (simp add: wit_map_def)

lemma wit_run: "\<exists>sd. SweptAxis wit_box 32 2 2 wit_map f64_zero (f64_of_int 10) = Inr sd"
  by (rule SweptAxis_returns) (simp_all add: wit_simps wit_length)

lemma wit_grid: "grid_map 32 2 2 wit_map"
  by (auto simp: grid_map_def wit_map_def less_2_cases_iff Tile_default_def)

lemma indices_in_grid_witness:
  "\<exists>idx. FindCollisionIndices wit_box 32 2 2 f64_zero (f64_of_int 10) = Inr idx \<and> sorted idx \<and> distinct idx \<and>
     (\<forall>k\<in>set idx. unat k < 4)"
proof -
  obtain idx where "FindCollisionIndices wit_box 32 2 2 f64_zero (f64_of_int 10) = Inr idx"
    using wit_run by (auto simp: SweptAxis_def)
  with indices_in_grid[OF _ _ this] show ?thesis by simp
qed

theorem SweptAxis_defined_witness: "\<exists>sd. SweptAxis wit_box 32 2 2 wit_map f64_zero (f64_of_int 10) = Inr sd \<and>
    (sd = no_hit \<or> (\<exists>k<4. tile_type (wit_map ! k) \<noteq> Empty_tile \<and> sd = SweptAABB wit_box (wit_map ! k) f64_zero (f64_of_int 10)))"
  using SweptAxis_defined[of 32 2 2 wit_map wit_box f64_zero "f64_of_int 10"]
  by (simp add: wit_simps wit_length)

theorem leaving_the_map_witness: "SweptAxis wit_box 32 2 2 wit_map (f64_of_int (-50)) f64_zero = Inl BadCast"
  by (rule leaving_the_map_is_undefined) (simp_all add: wit_simps f64_eq_fin)

theorem SweptAxis_first_hit_witness:
  "\<exists>sd. SweptAxis wit_box 32 2 2 wit_map f64_zero (f64_of_int 10) = Inr sd \<and>
     \<not> f64_lt (entry_time (SweptAABB wit_box (grid_tile 32 1 1) f64_zero (f64_of_int 10))) (entry_time sd)"
proof -
  obtain sd where sd: "SweptAxis wit_box 32 2 2 wit_map f64_zero (f64_of_int 10) = Inr sd" using wit_run by blast
  from SweptAxis_first_hit[OF sd, of 1 1] wit_grid show ?thesis
    using sd by (simp add: wit_simps) (simp add: wit_map_def grid_tile_def Tile_new_def)
qed

definition wit_tile :: Tile where
  "wit_tile = grid_tile 32 1 9"

lemma wit_miss: "SweptAABB wit_box wit_tile f64_zero (f64_of_int 10) = no_hit"
proof -
  have x: "axis_distances (GetX wit_box) (GetWidth wit_box) (GetX wit_tile) (GetWidth wit_tile) f64_zero =
      Some (f64_inf True, f64_inf False)" by code_simp
  have y: "axis_distances (GetY wit_box) (GetHeight wit_box) (GetY wit_tile) (GetHeight wit_tile) (f64_of_int 10) =
      Some (f64_of_int 261, f64_of_int 318)" by code_simp
  have t: "f64_lt f64_one (f64_fmax (axis_time (f64_inf True) f64_zero) (axis_time (f64_of_int 261) (f64_of_int 10)))" by code_simp
  show ?thesis by (simp add: SweptAABB_def x y t Let_def)
qed

theorem no_tunnelling_witness:
  "f64_val (f64_add (GetY wit_box) (f64_of_u8 25)) + 10 < f64_val (GetY wit_tile)"
proof -
  have "\<not> f64_le (f64_add (GetX wit_box) (f64_of_u8 (GetWidth wit_box))) (GetX wit_tile)"
    "\<not> f64_le (f64_add (GetX wit_tile) (f64_of_u8 (GetWidth wit_tile))) (GetX wit_box)" by code_simp+
  from no_tunnelling[OF _ _ _ _ _ _ _ wit_miss this] show ?thesis
    by (simp add: wit_simps wit_tile_def grid_tile_def Tile_new_def f64_of_u8_def)
qed

end
