(* ===== verification/Config.thy ===== *)
theory Config
  imports Binary64
begin

text \<open>
  Configuration (\<open>src/shared/config\<close>): the parameter structs and their loading from JSON
  files. The parser and the file system are one parameter, \<open>load\<close>: the value parsed from the
  named file, \<open>None\<close> where \<open>nlohmann::json::parse\<close> throws. The accessors of a parsed value that
  the loader uses are modelled: \<open>operator[]\<close> and the conversions to strings, numbers and arrays
  of numbers.
\<close>

section \<open>The structs\<close>

record NetConfig =
  ip :: string
  port :: u16
  io_threads :: u8
  net_threads :: u8

record PlayerConfig =
  pc_width :: u8
  pc_height :: u8
  player_start_x :: u16
  player_start_y :: u16
  player_offset :: u16

record AccountsDBConfig =
  db_name :: string
  db_host :: string
  db_user :: string
  db_password :: string
  db_table_name :: string

record GameConfig =
  tick_rate :: u8
  game_threads :: u8
  tile_size :: u8
  grid_x :: u16
  grid_y :: u16
  map_data :: "u8 list"
  player_config :: PlayerConfig

record Config =
  net_config :: NetConfig
  game_config :: GameConfig
  accounts_db_config :: AccountsDBConfig

section \<open>Parsed values\<close>

datatype json = JNull | JBool bool | JInt int | JFloat f64 | JString string
  | JArray "json list" | JObject "(string \<times> json) list"

text \<open>
  \<open>operator[]\<close> with a key: a missing element is created as null, null becomes an object,
  any other value throws. The element created in the parsed value is not observed: the
  conversion of null that follows throws.
\<close>

definition json_get :: "string \<Rightarrow> json \<Rightarrow> json res" where
  "json_get key j = (case j of
       JObject kvs \<Rightarrow> Inr (case map_of kvs key of Some v \<Rightarrow> v | None \<Rightarrow> JNull)
     | JNull \<Rightarrow> Inr JNull
     | _ \<Rightarrow> Inl Thrown)"

definition json_string :: "json \<Rightarrow> string res" where
  "json_string j = (case j of JString s \<Rightarrow> Inr s | _ \<Rightarrow> Inl Thrown)"

text \<open>
  Conversion to an unsigned type: integers wrap, a floating-point value is truncated and must
  then be a value of the type.
\<close>

definition trunc_rat :: "rat \<Rightarrow> int" where
  "trunc_rat q = (if q < 0 then - \<lfloor>- q\<rfloor> else \<lfloor>q\<rfloor>)"

definition json_uint :: "json \<Rightarrow> 'a::len word res" where
  "json_uint j = (case j of
       JInt n \<Rightarrow> Inr (word_of_int n)
     | JBool b \<Rightarrow> Inr (if b then 1 else 0)
     | JFloat a \<Rightarrow>
        (if is_fin a \<and> 0 \<le> trunc_rat (f64_val a) \<and> trunc_rat (f64_val a) < 2 ^ LENGTH('a)
         then Inr (word_of_int (trunc_rat (f64_val a))) else Inl BadCast)
     | _ \<Rightarrow> Inl Thrown)"

definition json_cint :: "json \<Rightarrow> int res" where
  "json_cint j = (case j of
       JInt n \<Rightarrow> Inr (sint (word_of_int n :: 32 word))
     | JBool b \<Rightarrow> Inr (if b then 1 else 0)
     | JFloat a \<Rightarrow>
        (if is_fin a \<and> - (2 ^ 31) \<le> trunc_rat (f64_val a) \<and> trunc_rat (f64_val a) < 2 ^ 31
         then Inr (trunc_rat (f64_val a)) else Inl BadCast)
     | _ \<Rightarrow> Inl Thrown)"

definition json_cints :: "json \<Rightarrow> int list res" where
  "json_cints j = (case j of
       JArray xs \<Rightarrow> rfold (\<lambda>x acc. rbind (json_cint x) (\<lambda>n. Inr (acc @ [n]))) xs []
     | _ \<Rightarrow> Inl Thrown)"

definition json_parse :: "(string \<Rightarrow> json option) \<Rightarrow> string \<Rightarrow> json res" where
  "json_parse load filename = (case load filename of None \<Rightarrow> Inl Thrown | Some j \<Rightarrow> Inr j)"

text \<open>A chain \<open>j[k1][k2]...\<close>.\<close>

definition json_path :: "string list \<Rightarrow> json \<Rightarrow> json res" where
  "json_path = rfold json_get"

section \<open>Loading\<close>

definition InitNetConfig :: "(string \<Rightarrow> json option) \<Rightarrow> string \<Rightarrow> NetConfig res" where
  "InitNetConfig load filename =
     rbind (json_parse load filename) (\<lambda>config_data.
     rbind (rbind (json_path [''server'', ''ip''] config_data) json_string) (\<lambda>ip'.
     rbind (rbind (json_path [''server'', ''port''] config_data) json_uint) (\<lambda>port'.
     rbind (rbind (json_path [''server'', ''io_threads''] config_data) json_uint) (\<lambda>io.
     rbind (rbind (json_path [''server'', ''net_threads''] config_data) json_uint) (\<lambda>net.
     Inr \<lparr>ip = ip', port = port', io_threads = io, net_threads = net\<rparr>)))))"

text \<open>\<open>std::filesystem::path::operator/\<close>: an absolute right operand replaces the left one.\<close>

definition path_append :: "string \<Rightarrow> string \<Rightarrow> string" where
  "path_append p q =
     (if q \<noteq> [] \<and> hd q = CHR ''/'' then q
      else if p = [] \<or> last p = CHR ''/'' then p @ q
      else p @ ''/'' @ q)"

text \<open>
  The cell count is a product of two \<open>std::uint16_t\<close>, computed as an \<open>int\<close> of 32 bits.
\<close>

definition cell_count :: "u16 \<Rightarrow> u16 \<Rightarrow> nat res" where
  "cell_count gx gy =
     (if uint gx * uint gy < 2 ^ 31 then Inr (nat (uint gx * uint gy)) else Inl SignedOverflow)"

text \<open>The copy loop; \<open>tmp[i]\<close> is not checked against the length of the array in the file.\<close>

definition copy_map :: "nat \<Rightarrow> int list \<Rightarrow> u8 list res" where
  "copy_map n tmp =
     rfold (\<lambda>i cells. rbind (vec_at tmp i) (\<lambda>v. Inr (cells[i := word_of_int v]))) [0..<n] (replicate n 0)"

text \<open>The debug output reads cells \<open>y * 25 + x\<close> for \<open>x\<close> and \<open>y\<close> below 25.\<close>

definition debug_map :: "u8 list \<Rightarrow> u8 list res" where
  "debug_map cells =
     rfold (\<lambda>i out. rbind (vec_at cells i) (\<lambda>v. Inr (out @ [v])))
       (concat (map (\<lambda>y. map (\<lambda>x. y * 25 + x) [0..<25]) [0..<25])) []"

definition InitPlayerConfig :: "json \<Rightarrow> PlayerConfig res" where
  "InitPlayerConfig player_data =
     rbind (rbind (json_path [''type'', ''default'', ''width''] player_data) json_uint) (\<lambda>w.
     rbind (rbind (json_path [''type'', ''default'', ''height''] player_data) json_uint) (\<lambda>h.
     rbind (rbind (json_path [''type'', ''default'', ''player_start_x''] player_data) json_uint) (\<lambda>sx.
     rbind (rbind (json_path [''type'', ''default'', ''player_start_y''] player_data) json_uint) (\<lambda>sy.
     rbind (rbind (json_path [''type'', ''default'', ''player_offset''] player_data) json_uint) (\<lambda>off.
     Inr \<lparr>pc_width = w, pc_height = h, player_start_x = sx, player_start_y = sy, player_offset = off\<rparr>)))))"

definition InitGameConfig :: "(string \<Rightarrow> json option) \<Rightarrow> string \<Rightarrow> string \<Rightarrow> GameConfig res" where
  "InitGameConfig load cwd filename =
     rbind (json_parse load filename) (\<lambda>config_data.
     rbind (rbind (json_path [''game'', ''tick_rate''] config_data) json_uint) (\<lambda>tick.
     rbind (rbind (json_path [''game'', ''game_threads''] config_data) json_uint) (\<lambda>threads.
     rbind (rbind (json_path [''game'', ''map''] config_data) json_string) (\<lambda>map_name.
     rbind (json_parse load (path_append (path_append cwd ''config'') map_name)) (\<lambda>map_json.
     rbind (rbind (json_path [''grid_x''] map_json) json_uint) (\<lambda>gx.
     rbind (rbind (json_path [''grid_y''] map_json) json_uint) (\<lambda>gy.
     rbind (rbind (json_path [''tile''] map_json) json_uint) (\<lambda>t.
     rbind (cell_count gx gy) (\<lambda>n.
     rbind (rbind (json_path [''map''] map_json) json_cints) (\<lambda>tmp.
     rbind (copy_map n tmp) (\<lambda>cells.
     rbind (rbind (json_path [''game'', ''player''] config_data) json_string) (\<lambda>player_name.
     rbind (json_parse load (path_append (path_append cwd ''config'') player_name)) (\<lambda>player_json.
     rbind (InitPlayerConfig player_json) (\<lambda>pc.
     rbind (debug_map cells) (\<lambda>_.
     Inr \<lparr>tick_rate = tick, game_threads = threads, tile_size = t, grid_x = gx, grid_y = gy,
          map_data = cells, player_config = pc\<rparr>)))))))))))))))"

definition InitAccountsDBConfig :: "(string \<Rightarrow> json option) \<Rightarrow> string \<Rightarrow> AccountsDBConfig res" where
  "InitAccountsDBConfig load filename =
     rbind (json_parse load filename) (\<lambda>config_data.
     rbind (rbind (json_path [''db'', ''db_name''] config_data) json_string) (\<lambda>name.
     rbind (rbind (json_path [''db'', ''host''] config_data) json_string) (\<lambda>host.
     rbind (rbind (json_path [''db'', ''user''] config_data) json_string) (\<lambda>user.
     rbind (rbind (json_path [''db'', ''password''] config_data) json_string) (\<lambda>password.
     rbind (rbind (json_path [''db'', ''tables'', ''accounts_table''] config_data) json_string) (\<lambda>table_name.
     Inr \<lparr>db_name = name, db_host = host, db_user = user, db_password = password, db_table_name = table_name\<rparr>))))))"

definition Config_new :: "(string \<Rightarrow> json option) \<Rightarrow> string \<Rightarrow> string \<Rightarrow> Config res" where
  "Config_new load cwd filename =
     rbind (InitNetConfig load filename) (\<lambda>net.
     rbind (InitGameConfig load cwd filename) (\<lambda>game.
     rbind (InitAccountsDBConfig load filename) (\<lambda>db.
     Inr \<lparr>net_config = net, game_config = game, accounts_db_config = db\<rparr>)))"

text \<open>
  \<open>GetInstance\<close>: the function-local static is initialised by the first call that does not
  throw; the filename of later calls is not used.
\<close>

definition GetInstance ::
  "(string \<Rightarrow> json option) \<Rightarrow> string \<Rightarrow> Config option \<Rightarrow> string \<Rightarrow> (Config \<times> Config option) res" where
  "GetInstance load cwd inst filename =
     (case inst of
        Some c \<Rightarrow> Inr (c, inst)
      | None \<Rightarrow> rbind (Config_new load cwd filename) (\<lambda>c. Inr (c, Some c)))"

section \<open>The map\<close>

lemma vec_at_beyond: "length xs \<le> i \<Longrightarrow> vec_at xs i = Inl OutOfBounds"
  by (simp add: vec_at_def)

lemma copy_prefix:
  assumes "k \<le> n"
  shows "rfold (\<lambda>i cells. rbind (vec_at tmp i) (\<lambda>v. Inr (cells[i := word_of_int v]))) [0..<k] (replicate n 0) =
    (if k \<le> length tmp then Inr (map word_of_int (take k tmp) @ replicate (n - k) (0 :: u8)) else Inl OutOfBounds)"
  using assms
proof (induction k)
  case (Suc k)
  have "replicate (n - k) (0 :: u8) = 0 # replicate (n - Suc k) 0" using Suc.prems by (simp flip: replicate_Suc)
  with Suc show ?case
    by (auto simp: rfold_append vec_at_def take_Suc_conv_app_nth list_update_append)
qed simp

lemma copy_map_eq:
  "copy_map n tmp = (if n \<le> length tmp then Inr (map word_of_int (take n tmp)) else Inl OutOfBounds)"
  using copy_prefix[of n n tmp] by (simp add: copy_map_def)

lemma read_prefix:
  "rfold (\<lambda>i out. rbind (vec_at cells i) (\<lambda>v. Inr (out @ [v]))) [0..<k] [] =
    (if k \<le> length cells then Inr (take k cells) else Inl OutOfBounds)"
  by (induction k) (auto simp: rfold_append vec_at_def take_Suc_conv_app_nth)

lemma grid_enumeration: "concat (map (\<lambda>y. map (\<lambda>x. y * n + x) [0..<n]) [0..<m]) = [0..<m * n]"
proof (induction m)
  case (Suc m)
  have "map (\<lambda>x. m * n + x) [0..<n] = [m * n..<n + m * n]" by (simp add: add.commute[of "m * n"] map_add_upt)
  with Suc show ?case using upt_add_eq_append[of 0 "m * n" n] by (simp add: add.commute)
qed simp

lemma debug_map_eq:
  "debug_map cells = (if 625 \<le> length cells then Inr (take 625 cells) else Inl OutOfBounds)"
  unfolding debug_map_def grid_enumeration read_prefix by simp

lemma InitGameConfig_files:
  assumes "InitGameConfig load cwd filename = Inr cfg"
  obtains config_data map_name map_json tmp where
    "load filename = Some config_data" "rbind (json_path [''game'', ''map''] config_data) json_string = Inr map_name"
    "load (path_append (path_append cwd ''config'') map_name) = Some map_json"
    "rbind (json_path [''grid_x''] map_json) json_uint = Inr (grid_x cfg)"
    "rbind (json_path [''grid_y''] map_json) json_uint = Inr (grid_y cfg)"
    "rbind (json_path [''tile''] map_json) json_uint = Inr (tile_size cfg)"
    "rbind (json_path [''map''] map_json) json_cints = Inr tmp"
    "cell_count (grid_x cfg) (grid_y cfg) = Inr (length (map_data cfg))"
    "length (map_data cfg) \<le> length tmp" "map_data cfg = map word_of_int (take (length (map_data cfg)) tmp)"
    "625 \<le> length (map_data cfg)"
proof -
  from assms obtain config_data map_name map_json n tmp cells where
    "load filename = Some config_data" "rbind (json_path [''game'', ''map''] config_data) json_string = Inr map_name"
    "load (path_append (path_append cwd ''config'') map_name) = Some map_json"
    "rbind (json_path [''grid_x''] map_json) json_uint = Inr (grid_x cfg)"
    "rbind (json_path [''grid_y''] map_json) json_uint = Inr (grid_y cfg)"
    "rbind (json_path [''tile''] map_json) json_uint = Inr (tile_size cfg)"
    "rbind (json_path [''map''] map_json) json_cints = Inr tmp"
    "cell_count (grid_x cfg) (grid_y cfg) = Inr n" "copy_map n tmp = Inr cells" "map_data cfg = cells"
    "debug_map cells \<noteq> Inl OutOfBounds"
    unfolding InitGameConfig_def json_parse_def
    by (auto split: option.splits)
  with that show thesis by (auto simp: copy_map_eq debug_map_eq split: if_splits)
qed

lemma InitGameConfig_map:
  assumes "InitGameConfig load cwd filename = Inr cfg"
  shows "cell_count (grid_x cfg) (grid_y cfg) = Inr (length (map_data cfg))"
  by (rule InitGameConfig_files[OF assms])

text \<open>
  C34. A game configuration that loads is what its files say. The map file is the one that the
  configuration file names, in the directory \<open>config\<close> below the current one; grid and tile size
  are the values in it; there is one cell per grid position, each the entry of the file's map
  array at its index, reduced to 8 bits, and the array is long enough for all of them. The
  cell count fits an \<open>int\<close> and covers the 625 cells the debug output reads.
\<close>

theorem game_config_map:
  assumes "InitGameConfig load cwd filename = Inr cfg"
  shows "length (map_data cfg) = unat (grid_x cfg) * unat (grid_y cfg) \<and>
    length (map_data cfg) < 2 ^ 31 \<and> 625 \<le> length (map_data cfg) \<and>
    (\<exists>config_data map_name map_json tmp.
       load filename = Some config_data \<and> rbind (json_path [''game'', ''map''] config_data) json_string = Inr map_name \<and>
       load (path_append (path_append cwd ''config'') map_name) = Some map_json \<and>
       rbind (json_path [''grid_x''] map_json) json_uint = Inr (grid_x cfg) \<and>
       rbind (json_path [''grid_y''] map_json) json_uint = Inr (grid_y cfg) \<and>
       rbind (json_path [''tile''] map_json) json_uint = Inr (tile_size cfg) \<and>
       rbind (json_path [''map''] map_json) json_cints = Inr tmp \<and> length (map_data cfg) \<le> length tmp \<and>
       (\<forall>i<length (map_data cfg). map_data cfg ! i = word_of_int (tmp ! i)))"
proof -
  from InitGameConfig_files[OF assms] obtain config_data map_name map_json tmp where c:
    "load filename = Some config_data" "rbind (json_path [''game'', ''map''] config_data) json_string = Inr map_name"
    "load (path_append (path_append cwd ''config'') map_name) = Some map_json"
    "rbind (json_path [''grid_x''] map_json) json_uint = Inr (grid_x cfg)"
    "rbind (json_path [''grid_y''] map_json) json_uint = Inr (grid_y cfg)"
    "rbind (json_path [''tile''] map_json) json_uint = Inr (tile_size cfg)"
    "rbind (json_path [''map''] map_json) json_cints = Inr tmp"
    and m: "cell_count (grid_x cfg) (grid_y cfg) = Inr (length (map_data cfg))"
    "length (map_data cfg) \<le> length tmp" "map_data cfg = map word_of_int (take (length (map_data cfg)) tmp)"
    "625 \<le> length (map_data cfg)" .
  have "map_data cfg ! i = word_of_int (tmp ! i)" if "i < length (map_data cfg)" for i
    using that m(2) by (subst m(3)) simp
  moreover have n: "length (map_data cfg) = nat (uint (grid_x cfg) * uint (grid_y cfg))" "uint (grid_x cfg) * uint (grid_y cfg) < 2 ^ 31"
    using m(1) by (auto simp: cell_count_def split: if_splits)
  moreover have "nat (uint (grid_x cfg) * uint (grid_y cfg)) = unat (grid_x cfg) * unat (grid_y cfg)"
    by (simp only: nat_mult_distrib[OF uint_ge_0] unat_eq_nat_uint)
  moreover have "length (map_data cfg) < 2 ^ 31" using n by (simp add: nat_less_iff)
  ultimately show ?thesis using c m(2,4) by (intro conjI) (simp, simp, simp, blast)
qed

text \<open>
  The map array of the file is not checked against the grid: the copy is undefined exactly
  when the array is shorter than the grid, and otherwise takes the leading values.
\<close>

lemma copy_map_bounds:
  "copy_map n tmp = (if n \<le> length tmp then Inr (map word_of_int (take n tmp)) else Inl OutOfBounds)"
  by (rule copy_map_eq)

text \<open>
  The debug output of the map reads 625 cells whatever the grid is: it is undefined
  exactly for maps with fewer cells.
\<close>

lemma debug_map_bounds:
  "debug_map cells = (if 625 \<le> length cells then Inr (take 625 cells) else Inl OutOfBounds)"
  by (rule debug_map_eq)

text \<open>
  The configuration is a singleton: after a first successful call every further call returns
  the same object and leaves it in place, whatever its filename argument and the files.
\<close>

lemma GetInstance_once:
  assumes "GetInstance load cwd None f = Inr (c, inst)"
  shows "GetInstance load' cwd' inst f' = Inr (c, inst) \<and> Config_new load cwd f = Inr c"
  using assms by (auto simp: GetInstance_def)

section \<open>A configuration that loads\<close>

lemma json_cints_ints: "json_cints (JArray (map JInt ns)) = Inr (map (\<lambda>n. sint (word_of_int n :: 32 word)) ns)"
proof -
  have "rfold (\<lambda>x acc. rbind (json_cint x) (\<lambda>n. Inr (acc @ [n]))) (map JInt ns) acc =
      Inr (acc @ map (\<lambda>n. sint (word_of_int n :: 32 word)) ns)" for acc
    by (induction ns arbitrary: acc) (simp_all add: json_cint_def)
  then show ?thesis by (simp add: json_cints_def)
qed

definition wit_config :: json where
  "wit_config = JObject
     [(''server'', JObject [(''ip'', JString ''0.0.0.0''), (''port'', JInt 27998), (''io_threads'', JInt 4), (''net_threads'', JInt 1)]),
      (''game'', JObject [(''tick_rate'', JInt 60), (''game_threads'', JInt 4), (''map'', JString ''map.json''), (''player'', JString ''player.json'')]),
      (''db'', JObject [(''db_name'', JString ''EndlessPeak''), (''host'', JString ''localhost''), (''user'', JString ''user''),
        (''password'', JString ''user123''), (''tables'', JObject [(''accounts_table'', JString ''accounts'')])])]"

definition wit_load :: "string \<Rightarrow> json option" where
  "wit_load name =
     (if name = ''config.json'' then Some wit_config
      else if name = ''/ep/config/map.json'' then
        Some (JObject [(''grid_x'', JInt 25), (''grid_y'', JInt 25), (''tile'', JInt 32), (''map'', JArray (map JInt (replicate 625 1)))])
      else if name = ''/ep/config/player.json'' then
        Some (JObject [(''type'', JObject [(''default'', JObject [(''width'', JInt 15), (''height'', JInt 25),
          (''player_start_x'', JInt 1), (''player_start_y'', JInt 1), (''player_offset'', JInt 5)])])])
      else None)"

lemmas wit_config_simps = wit_load_def wit_config_def json_parse_def json_path_def json_get_def json_string_def
  json_uint_def path_append_def json_cints_ints cell_count_def copy_map_eq debug_map_eq

definition wit_game :: GameConfig where
  "wit_game = \<lparr>tick_rate = 60, game_threads = 4, tile_size = 32, grid_x = 25, grid_y = 25,
     map_data = replicate 625 1,
     player_config = \<lparr>pc_width = 15, pc_height = 25, player_start_x = 1, player_start_y = 1, player_offset = 5\<rparr>\<rparr>"

lemma wit_game_loads: "InitGameConfig wit_load ''/ep'' ''config.json'' = Inr wit_game"
  by (simp add: InitGameConfig_def InitPlayerConfig_def wit_config_simps wit_game_def del: map_replicate) simp

theorem game_config_map_witness:
  "InitGameConfig wit_load ''/ep'' ''config.json'' = Inr wit_game \<and>
   length (map_data wit_game) = unat (grid_x wit_game) * unat (grid_y wit_game)"
  using game_config_map[OF wit_game_loads] wit_game_loads by simp

lemma GetInstance_once_witness:
  "\<exists>c. GetInstance wit_load ''/ep'' None ''config.json'' = Inr (c, Some c) \<and>
     GetInstance (\<lambda>_. None) ''/'' (Some c) ''null'' = Inr (c, Some c)"
proof -
  obtain c where "GetInstance wit_load ''/ep'' None ''config.json'' = Inr (c, Some c)"
    by (simp add: GetInstance_def Config_new_def wit_game_loads InitNetConfig_def InitAccountsDBConfig_def
        wit_config_simps)
  with GetInstance_once[OF this] show ?thesis by blast
qed

end
