(* ===== verification/Protocol.thy ===== *)
theory Protocol
  imports Prelude
begin

text \<open>
  The wire protocol (\<open>src/shared/protocol\<close>): operation codes, the packed packet header, the
  packet with its stream operators \<open><<\<close> and \<open>>>\<close>, the flat send buffer, the packet builders
  and the server-side envelope. The host is little-endian: an object's bytes in memory are
  \<open>bytes_of\<close> of its value, lowest byte first. Header fields are kept as they are stored, in
  network byte order; the accessors swap.
\<close>

section \<open>Objects and their bytes\<close>

definition bytes_of :: "'a::len word \<Rightarrow> u8 list" where
  "bytes_of w = map (\<lambda>i. ucast (drop_bit (8 * i) w)) [0..<LENGTH('a) div 8]"

definition of_bytes :: "u8 list \<Rightarrow> 'a::len word" where
  "of_bytes bs = word_of_int (horner_sum uint (2 ^ 8) bs)"

text \<open>\<open>std::memcpy\<close> of \<open>bs\<close> to offset \<open>off\<close> of the bytes \<open>mem\<close>, within their length.\<close>

definition splice :: "nat \<Rightarrow> u8 list \<Rightarrow> u8 list \<Rightarrow> u8 list" where
  "splice off bs mem = take off mem @ bs @ drop (off + length bs) mem"

definition swap_endian :: "'a::len word \<Rightarrow> 'a word" where
  "swap_endian v = of_bytes (rev (bytes_of v))"

section \<open>Operation codes\<close>

text \<open>
  The enumeration has the fixed underlying type \<open>std::uint16_t\<close>, so a cast can give a value
  that is no enumerator.
\<close>

datatype Opcodes = CreatePlayer | SpawnPlayers | MoveLeft | MoveRight | Jump
  | MovePlayer | AddPlayer | RemovePlayer | NoEnumerator u16

fun to_uint16 :: "Opcodes \<Rightarrow> u16" where
  "to_uint16 CreatePlayer = 0x0003"
| "to_uint16 SpawnPlayers = 0x0004"
| "to_uint16 MoveLeft = 0x0012"
| "to_uint16 MoveRight = 0x0013"
| "to_uint16 Jump = 0x0014"
| "to_uint16 MovePlayer = 0x0015"
| "to_uint16 AddPlayer = 0x0016"
| "to_uint16 RemovePlayer = 0x0017"
| "to_uint16 (NoEnumerator w) = w"

definition to_opcode :: "u16 \<Rightarrow> Opcodes" where
  "to_opcode w =
     (if w = 0x0003 then CreatePlayer else if w = 0x0004 then SpawnPlayers
      else if w = 0x0012 then MoveLeft else if w = 0x0013 then MoveRight
      else if w = 0x0014 then Jump else if w = 0x0015 then MovePlayer
      else if w = 0x0016 then AddPlayer else if w = 0x0017 then RemovePlayer
      else NoEnumerator w)"

section \<open>The packet\<close>

definition kMaxOpcode :: u16 where
  "kMaxOpcode = 0x0FFF"

definition kMaxPayloadSize :: u32 where
  "kMaxPayloadSize = 128"

record PacketHead =
  hd_opcode :: u16
  hd_size :: u32

text \<open>\<open>sizeof(PacketHead)\<close> of the packed struct, and its bytes.\<close>

definition sizeof_PacketHead :: nat where
  "sizeof_PacketHead = 6"

definition head_bytes :: "PacketHead \<Rightarrow> u8 list" where
  "head_bytes h = bytes_of (hd_opcode h) @ bytes_of (hd_size h)"

definition head_of_bytes :: "u8 list \<Rightarrow> PacketHead" where
  "head_of_bytes bs = \<lparr>hd_opcode = of_bytes (take 2 bs), hd_size = of_bytes (drop 2 bs)\<rparr>"

text \<open>\<open>body = None\<close> is the null \<open>unique_ptr\<close>.\<close>

record NetPacket =
  head :: PacketHead
  body :: "u8 list option"

definition NetPacket_default :: NetPacket where
  "NetPacket_default = \<lparr>head = \<lparr>hd_opcode = 0, hd_size = 0\<rparr>, body = None\<rparr>"

definition NetPacket_of :: "Opcodes \<Rightarrow> NetPacket" where
  "NetPacket_of opcode =
     \<lparr>head = \<lparr>hd_opcode = swap_endian (to_uint16 opcode), hd_size = 0\<rparr>, body = None\<rparr>"

text \<open>
  The move constructor: the new packet and the moved-from one, which keeps its opcode, has
  size 0 and no body.
\<close>

definition NetPacket_move :: "NetPacket \<Rightarrow> NetPacket \<times> NetPacket" where
  "NetPacket_move other =
     (\<lparr>head = head other, body = body other\<rparr>,
      other\<lparr>head := (head other)\<lparr>hd_size := 0\<rparr>, body := None\<rparr>)"

text \<open>Move assignment; \<open>self\<close> says whether both sides are one object.\<close>

definition NetPacket_move_assign :: "bool \<Rightarrow> NetPacket \<Rightarrow> NetPacket \<Rightarrow> NetPacket \<times> NetPacket" where
  "NetPacket_move_assign self this other =
     (if self then (this, other)
      else (this\<lparr>head := head other, body := body other\<rparr>,
            other\<lparr>head := (head other)\<lparr>hd_size := 0\<rparr>, body := None\<rparr>))"

definition GetHeadOpcode :: "NetPacket \<Rightarrow> u16" where
  "GetHeadOpcode p = swap_endian (hd_opcode (head p))"

definition GetHeadSize :: "NetPacket \<Rightarrow> u32" where
  "GetHeadSize p = swap_endian (hd_size (head p))"

definition SetHeadOpcode :: "NetPacket \<Rightarrow> u16 \<Rightarrow> NetPacket" where
  "SetHeadOpcode p opcode = p\<lparr>head := (head p)\<lparr>hd_opcode := swap_endian opcode\<rparr>\<rparr>"

definition SetHeadSize :: "NetPacket \<Rightarrow> u32 \<Rightarrow> NetPacket" where
  "SetHeadSize p sz = p\<lparr>head := (head p)\<lparr>hd_size := swap_endian sz\<rparr>\<rparr>"

text \<open>A vector's length is a number; a conversion to a fixed-width type truncates it.\<close>

definition GetBodySize :: "NetPacket \<Rightarrow> nat" where
  "GetBodySize p = (case body p of None \<Rightarrow> 0 | Some b \<Rightarrow> length b)"

text \<open>\<open>GetBodyData\<close>: the bytes the pointer gives access to, \<open>None\<close> for \<open>nullptr\<close>.\<close>

definition GetBodyData :: "NetPacket \<Rightarrow> u8 list option" where
  "GetBodyData p = (case body p of None \<Rightarrow> None | Some b \<Rightarrow> Some b)"

definition vec_resize :: "nat \<Rightarrow> u8 list \<Rightarrow> u8 list" where
  "vec_resize n b = take n b @ replicate (n - length b) 0"

definition ResizeBody :: "NetPacket \<Rightarrow> nat \<Rightarrow> NetPacket" where
  "ResizeBody p sz = (case body p of
       None \<Rightarrow> p\<lparr>body := Some (replicate sz 0)\<rparr>
     | Some b \<Rightarrow> p\<lparr>body := Some (vec_resize sz b)\<rparr>)"

definition IsValidHeader :: "NetPacket \<Rightarrow> bool" where
  "IsValidHeader p \<longleftrightarrow> swap_endian (hd_opcode (head p)) < kMaxOpcode \<and>
     swap_endian (hd_size (head p)) < kMaxPayloadSize"

definition MakeBuffer :: "NetPacket \<Rightarrow> u8 list" where
  "MakeBuffer p = (case body p of None \<Rightarrow> [] | Some b \<Rightarrow> head_bytes (head p) @ b)"

text \<open>\<open>operator<<\<close> for a value of \<open>LENGTH('a) div 8\<close> bytes.\<close>

definition put :: "'a::len word \<Rightarrow> NetPacket \<Rightarrow> NetPacket" where
  "put v p =
     (let p1 = (case body p of None \<Rightarrow> p\<lparr>body := Some []\<rparr> | Some _ \<Rightarrow> p);
          value = swap_endian v;
          offset = GetBodySize p1;
          p2 = ResizeBody p1 (offset + LENGTH('a) div 8);
          p3 = p2\<lparr>body := map_option (splice offset (bytes_of value)) (body p2)\<rparr>
      in SetHeadSize p3 (of_nat (GetBodySize p3)))"

text \<open>
  \<open>operator>>\<close>: on a body shorter than the value the offset wraps and the copy reads outside
  the body.
\<close>

definition get :: "NetPacket \<Rightarrow> ('a::len word \<times> NetPacket) res" where
  "get p =
     (case GetBodyData p of
        None \<Rightarrow> Inl NullDeref
      | Some b \<Rightarrow>
         (if GetBodySize p < LENGTH('a) div 8 then Inl OutOfBounds
          else let offset = GetBodySize p - LENGTH('a) div 8;
                   value = of_bytes (take (LENGTH('a) div 8) (drop offset b));
                   p1 = ResizeBody p offset
               in Inr (swap_endian value, SetHeadSize p1 (of_nat offset))))"

section \<open>Packet builders\<close>

definition CreatePlayerPacket :: "size_t \<Rightarrow> u64 \<Rightarrow> u64 \<Rightarrow> u8 \<Rightarrow> u8 \<Rightarrow> NetPacket" where
  "CreatePlayerPacket pid x y width height =
     (let packet = SetHeadOpcode NetPacket_default (to_uint16 CreatePlayer)
      in put height (put width (put y (put x (put pid packet)))))"

definition AddPlayerPacket :: "size_t \<Rightarrow> u64 \<Rightarrow> u64 \<Rightarrow> u8 \<Rightarrow> u8 \<Rightarrow> NetPacket" where
  "AddPlayerPacket pid x y width height =
     (let packet = SetHeadOpcode NetPacket_default (to_uint16 AddPlayer)
      in put height (put width (put y (put x (put pid packet)))))"

definition RemovePlayerPacket :: "size_t \<Rightarrow> NetPacket" where
  "RemovePlayerPacket pid =
     (let packet = SetHeadOpcode NetPacket_default (to_uint16 RemovePlayer) in put pid packet)"

definition MovePlayerPacket :: "size_t \<Rightarrow> u64 \<Rightarrow> u64 \<Rightarrow> NetPacket" where
  "MovePlayerPacket pid x y =
     (let packet = SetHeadOpcode NetPacket_default (to_uint16 MovePlayer)
      in put y (put x (put pid packet)))"

section \<open>The server-side envelope\<close>

datatype PacketType = Broadcast | Rpc | RpcOthers

record ServerPacket =
  packet :: NetPacket
  sp_id :: size_t
  sp_type :: PacketType

definition ServerPacket_new :: "NetPacket \<Rightarrow> size_t \<Rightarrow> PacketType \<Rightarrow> ServerPacket" where
  "ServerPacket_new p i t = \<lparr>packet = fst (NetPacket_move p), sp_id = i, sp_type = t\<rparr>"

text \<open>\<open>GetNetPacket\<close> moves the packet out of the envelope.\<close>

definition GetNetPacket :: "ServerPacket \<Rightarrow> NetPacket \<times> ServerPacket" where
  "GetNetPacket s = (let (p, rest) = NetPacket_move (packet s) in (p, s\<lparr>packet := rest\<rparr>))"

definition GetID :: "ServerPacket \<Rightarrow> size_t" where
  "GetID s = sp_id s"

definition GetType :: "ServerPacket \<Rightarrow> PacketType" where
  "GetType s = sp_type s"

section \<open>Bytes: round trips\<close>

lemma length_bytes_of [simp]: "length (bytes_of (w :: 'a::len word)) = LENGTH('a) div 8"
  by (simp add: bytes_of_def)

lemma bit_of_bytes: "bit (of_bytes bs :: 'a::len word) n \<longleftrightarrow>
    n < LENGTH('a) \<and> n div 8 < length bs \<and> bit (bs ! (n div 8)) (n mod 8)"
  using bit_horner_sum_uint_exp_iff[of bs n] by (auto simp: of_bytes_def bit_word_of_int_iff)

lemma bit_bytes_of: "i < LENGTH('a) div 8 \<Longrightarrow>
    bit (bytes_of (w :: 'a::len word) ! i) n \<longleftrightarrow> n < 8 \<and> bit w (8 * i + n)"
  by (auto simp: bytes_of_def bit_simps)

lemma of_bytes_bytes_of [simp]:
  assumes "8 dvd LENGTH('a)"
  shows "of_bytes (bytes_of w) = (w :: 'a::len word)"
proof (rule bit_word_eqI)
  fix n assume n: "n < LENGTH('a)"
  with assms have "n div 8 < LENGTH('a) div 8"
    by (metis dvd_div_mult_self less_mult_imp_div_less)
  with n show "bit (of_bytes (bytes_of w) :: 'a word) n = bit w n"
    by (simp add: bit_of_bytes bit_bytes_of)
qed

lemma bytes_of_of_bytes [simp]:
  assumes "length bs = LENGTH('a) div 8"
  shows "bytes_of (of_bytes bs :: 'a::len word) = bs"
proof (rule nth_equalityI)
  fix i assume "i < length (bytes_of (of_bytes bs :: 'a word))"
  then have i: "i < LENGTH('a) div 8" by simp
  show "bytes_of (of_bytes bs :: 'a word) ! i = bs ! i"
  proof (rule bit_word_eqI)
    fix n assume "n < LENGTH(8)"
    then have n: "n < 8" by simp
    then have "(8 * i + n) div 8 = i" "(8 * i + n) mod 8 = n" by simp_all
    moreover have "8 * i + n < LENGTH('a)" using i n by linarith
    ultimately show "bit (bytes_of (of_bytes bs :: 'a word) ! i) n = bit (bs ! i) n"
      using i n assms by (simp add: bit_bytes_of bit_of_bytes)
  qed
qed (use assms in simp)

lemma swap_endian_bytes: "bytes_of (swap_endian w) = rev (bytes_of w)"
  by (simp add: swap_endian_def)

lemma swap_endian_swap [simp]: "8 dvd LENGTH('a) \<Longrightarrow> swap_endian (swap_endian w) = (w :: 'a::len word)"
  by (simp add: swap_endian_def)

lemma head_bytes_length [simp]: "length (head_bytes h) = sizeof_PacketHead"
  by (simp add: head_bytes_def sizeof_PacketHead_def)

lemma head_of_head_bytes [simp]: "head_of_bytes (head_bytes h) = h"
  by (simp add: head_of_bytes_def head_bytes_def)

lemma head_bytes_of_bytes [simp]:
  "length bs = sizeof_PacketHead \<Longrightarrow> head_bytes (head_of_bytes bs) = bs"
  by (simp add: head_of_bytes_def head_bytes_def sizeof_PacketHead_def)

section \<open>Stream operators\<close>

text \<open>The bytes of a value on the wire: highest byte first.\<close>

definition be :: "'a::len word \<Rightarrow> u8 list" where
  "be v = rev (bytes_of v)"

text \<open>The header size is the body size, as long as that fits 32 bits.\<close>

definition packet_ok :: "NetPacket \<Rightarrow> bool" where
  "packet_ok p \<longleftrightarrow> GetHeadSize p = of_nat (GetBodySize p)"

lemma length_be [simp]: "length (be (v :: 'a::len word)) = LENGTH('a) div 8"
  by (simp add: be_def)

lemma be_inj: "8 dvd LENGTH('a) \<Longrightarrow> be v = be w \<Longrightarrow> v = (w :: 'a::len word)"
  by (metis be_def of_bytes_bytes_of rev_rev_ident)

lemma GetHeadSize_SetHeadSize [simp]: "GetHeadSize (SetHeadSize p n) = n"
  and GetHeadOpcode_SetHeadOpcode [simp]: "GetHeadOpcode (SetHeadOpcode p c) = c"
  and GetHeadOpcode_SetHeadSize [simp]: "GetHeadOpcode (SetHeadSize p n) = GetHeadOpcode p"
  and body_SetHeadSize [simp]: "body (SetHeadSize p n) = body p"
  and body_SetHeadOpcode [simp]: "body (SetHeadOpcode p c) = body p"
  by (simp_all add: GetHeadSize_def SetHeadSize_def GetHeadOpcode_def SetHeadOpcode_def)

lemma ResizeBody_simps [simp]:
  "head (ResizeBody p n) = head p"
  "body (ResizeBody p n) = Some (vec_resize n (case body p of None \<Rightarrow> [] | Some b \<Rightarrow> b))"
  by (simp_all add: ResizeBody_def vec_resize_def split: option.split)

lemma put_body: "body (put v p) = Some ((case body p of None \<Rightarrow> [] | Some b \<Rightarrow> b) @ be v)"
  by (auto simp: put_def Let_def GetBodySize_def vec_resize_def splice_def swap_endian_bytes be_def
      split: option.splits)

lemma put_opcode [simp]: "GetHeadOpcode (put v p) = GetHeadOpcode p"
  by (auto simp: put_def Let_def GetHeadOpcode_def SetHeadSize_def split: option.splits)

lemma put_ok: "packet_ok (put v p)"
  by (simp add: packet_ok_def put_def Let_def GetBodySize_def)

lemma put_GetBodySize: "GetBodySize (put (v :: 'a::len word) p) = GetBodySize p + LENGTH('a) div 8"
  by (simp add: GetBodySize_def put_body split: option.split)

lemma swap_endian_inj [simp]:
  "8 dvd LENGTH('a) \<Longrightarrow> swap_endian v = swap_endian w \<longleftrightarrow> v = (w :: 'a::len word)"
  by (metis swap_endian_swap)

lemma packet_eqI:
  assumes "GetHeadOpcode p = GetHeadOpcode q" "GetHeadSize p = GetHeadSize q" "body p = body q"
  shows "p = (q :: NetPacket)"
proof -
  have "head p = head q"
    using assms(1,2) by (intro PacketHead.equality) (simp_all add: GetHeadOpcode_def GetHeadSize_def)
  with assms(3) show ?thesis by (intro NetPacket.equality) simp_all
qed

lemma ResizeBody_head [simp]:
  "GetHeadOpcode (ResizeBody p n) = GetHeadOpcode p" "GetHeadSize (ResizeBody p n) = GetHeadSize p"
  by (simp_all add: GetHeadOpcode_def GetHeadSize_def)



section \<open>Fixed-width codecs\<close>

text \<open>
  What a reader of a packet body relies on: a value has a fixed number of bytes and comes back
  from them. The four widths of the protocol are instances.
\<close>

definition of_be :: "u8 list \<Rightarrow> 'a::len word" where
  "of_be bs = of_bytes (rev bs)"

locale wire_codec =
  fixes enc :: "'v \<Rightarrow> u8 list" and dec :: "u8 list \<Rightarrow> 'v" and width :: nat
  assumes dec_enc: "dec (enc v) = v"
    and enc_length: "length (enc v) = width"
begin

lemma dec_prefix: "dec (take width (enc v @ rest)) = v"
  by (simp add: dec_enc enc_length)

lemma drop_prefix: "drop width (enc v @ rest) = rest"
  by (simp add: enc_length)

lemma enc_append_inj: "enc v @ xs = enc w @ ys \<longleftrightarrow> v = w \<and> xs = ys"
  by (metis dec_prefix drop_prefix)

end

interpretation c8: wire_codec "be :: u8 \<Rightarrow> u8 list" of_be 1
  by unfold_locales (simp_all add: be_def of_be_def)

interpretation c16: wire_codec "be :: u16 \<Rightarrow> u8 list" of_be 2
  by unfold_locales (simp_all add: be_def of_be_def)

interpretation c32: wire_codec "be :: u32 \<Rightarrow> u8 list" of_be 4
  by unfold_locales (simp_all add: be_def of_be_def)

interpretation c64: wire_codec "be :: u64 \<Rightarrow> u8 list" of_be 8
  by unfold_locales (simp_all add: be_def of_be_def)

lemmas wire_inj = c8.enc_append_inj c16.enc_append_inj c32.enc_append_inj c64.enc_append_inj

lemma head_bytes_be: "head_bytes (head p) = be (GetHeadOpcode p) @ be (GetHeadSize p)"
  by (simp add: head_bytes_def be_def GetHeadOpcode_def GetHeadSize_def swap_endian_bytes)

lemma to_uint16_to_opcode [simp]: "to_uint16 (to_opcode w) = w"
  by (simp add: to_opcode_def)

lemma MakeBuffer_layout:
  "body p = Some b \<Longrightarrow> MakeBuffer p = be (GetHeadOpcode p) @ be (GetHeadSize p) @ b"
  by (simp add: MakeBuffer_def head_bytes_be)

lemma body_default [simp]: "body NetPacket_default = None"
  by (simp add: NetPacket_default_def)

section \<open>What the builders put on the wire\<close>

lemma builder_bodies:
  "body (CreatePlayerPacket i x y w h) = Some (be i @ be x @ be y @ be w @ be h)"
  "body (AddPlayerPacket i x y w h) = Some (be i @ be x @ be y @ be w @ be h)"
  "body (RemovePlayerPacket i) = Some (be i)"
  "body (MovePlayerPacket i x y) = Some (be i @ be x @ be y)"
  by (simp_all add: CreatePlayerPacket_def AddPlayerPacket_def RemovePlayerPacket_def
      MovePlayerPacket_def put_body)

lemma builder_opcodes:
  "GetHeadOpcode (CreatePlayerPacket i x y w h) = to_uint16 CreatePlayer"
  "GetHeadOpcode (AddPlayerPacket i x y w h) = to_uint16 AddPlayer"
  "GetHeadOpcode (RemovePlayerPacket i) = to_uint16 RemovePlayer"
  "GetHeadOpcode (MovePlayerPacket i x y) = to_uint16 MovePlayer"
  by (simp_all add: CreatePlayerPacket_def AddPlayerPacket_def RemovePlayerPacket_def
      MovePlayerPacket_def)

lemma builder_ok:
  "packet_ok (CreatePlayerPacket i x y w h)" "packet_ok (AddPlayerPacket i x y w h)"
  "packet_ok (RemovePlayerPacket i)" "packet_ok (MovePlayerPacket i x y)"
  by (simp_all add: CreatePlayerPacket_def AddPlayerPacket_def RemovePlayerPacket_def
      MovePlayerPacket_def put_ok)

lemma IsValidHeader_iff: "IsValidHeader p \<longleftrightarrow> GetHeadOpcode p < kMaxOpcode \<and> GetHeadSize p < kMaxPayloadSize"
  by (simp add: IsValidHeader_def GetHeadOpcode_def GetHeadSize_def)

end
