(* ===== verification/TsQueue.thy ===== *)
theory TsQueue
  imports Prelude
begin

text \<open>
  The thread-safe queue \<open>TSQueue\<close> (\<open>src/shared/utils/ts_queue.hpp\<close>). Every member
  function runs under the queue's mutex, so a call is one atomic step on the data; the
  condition variable only delays a \<open>WaitAndPop\<close> until the queue is not empty. The locale
  \<open>fifo\<close> is the contract the clients (world loop, sender loop, session) use.
\<close>

section \<open>The queue\<close>

record 'a TSQueue =
  qdata :: "'a list"

definition TSQueue_new :: "'a TSQueue" where
  "TSQueue_new = \<lparr>qdata = []\<rparr>"

text \<open>\<open>TSSwap(lhs, rhs)\<close>; \<open>same\<close> says whether both references name one object.\<close>

definition TSSwap :: "bool \<Rightarrow> 'a TSQueue \<Rightarrow> 'a TSQueue \<Rightarrow> 'a TSQueue \<times> 'a TSQueue" where
  "TSSwap same lhs rhs =
     (if same then (lhs, rhs)
      else let tmp = qdata lhs;
               lhs' = lhs\<lparr>qdata := qdata rhs\<rparr>;
               rhs' = rhs\<lparr>qdata := tmp\<rparr>
           in (lhs', rhs'))"

definition TryPop :: "'a TSQueue \<Rightarrow> 'a option \<times> 'a TSQueue" where
  "TryPop q = (case qdata q of [] \<Rightarrow> (None, q) | x # xs \<Rightarrow> (Some x, q\<lparr>qdata := xs\<rparr>))"

text \<open>\<open>None\<close>: the caller stays blocked on the condition variable.\<close>

definition WaitAndPop :: "'a TSQueue \<Rightarrow> ('a \<times> 'a TSQueue) option" where
  "WaitAndPop q = (case qdata q of [] \<Rightarrow> None | x # xs \<Rightarrow> Some (x, q\<lparr>qdata := xs\<rparr>))"

definition Push :: "'a TSQueue \<Rightarrow> 'a \<Rightarrow> 'a TSQueue" where
  "Push q v = q\<lparr>qdata := qdata q @ [v]\<rparr>"

definition Empty :: "'a TSQueue \<Rightarrow> bool" where
  "Empty q \<longleftrightarrow> qdata q = []"

definition Size :: "'a TSQueue \<Rightarrow> nat" where
  "Size q = length (qdata q)"

section \<open>Several threads on one queue\<close>

text \<open>
  One event per completed call. Any interleaving of producers and consumers is a path of this
  relation; a blocked \<open>WaitAndPop\<close> is the absence of a step.
\<close>

datatype 'a qevent = EvPush 'a | EvTryPop "'a option" | EvWaitAndPop 'a

inductive queue_step :: "'a TSQueue \<Rightarrow> 'a qevent \<Rightarrow> 'a TSQueue \<Rightarrow> bool" where
  push: "queue_step q (EvPush v) (Push q v)"
| try_pop: "TryPop q = (r, q') \<Longrightarrow> queue_step q (EvTryPop r) q'"
| wait_pop: "WaitAndPop q = Some (v, q') \<Longrightarrow> queue_step q (EvWaitAndPop v) q'"

inductive queue_path :: "'a TSQueue \<Rightarrow> 'a qevent list \<Rightarrow> 'a TSQueue \<Rightarrow> bool" where
  path_nil: "queue_path q [] q"
| path_cons: "queue_step q e q' \<Longrightarrow> queue_path q' es q'' \<Longrightarrow> queue_path q (e # es) q''"

fun pushed :: "'a qevent list \<Rightarrow> 'a list" where
  "pushed [] = []"
| "pushed (EvPush v # es) = v # pushed es"
| "pushed (_ # es) = pushed es"

fun popped :: "'a qevent list \<Rightarrow> 'a list" where
  "popped [] = []"
| "popped (EvTryPop (Some v) # es) = v # popped es"
| "popped (EvWaitAndPop v # es) = v # popped es"
| "popped (_ # es) = popped es"

section \<open>The queue contract\<close>

locale fifo =
  fixes contents :: "'q \<Rightarrow> 'a list"
    and new :: 'q
    and enq :: "'q \<Rightarrow> 'a \<Rightarrow> 'q"
    and deq :: "'q \<Rightarrow> 'a option \<times> 'q"
    and isempty :: "'q \<Rightarrow> bool"
  assumes contents_new: "contents new = []"
    and contents_enq: "contents (enq q v) = contents q @ [v]"
    and deq_nil: "contents q = [] \<Longrightarrow> deq q = (None, q)"
    and deq_cons: "contents q = x # xs \<Longrightarrow> \<exists>q'. deq q = (Some x, q') \<and> contents q' = xs"
    and isempty_iff: "isempty q \<longleftrightarrow> contents q = []"
begin

lemma enq_not_empty: "\<not> isempty (enq q v)"
  by (simp add: isempty_iff contents_enq)

lemma enq_all: "contents (foldl enq q vs) = contents q @ vs"
  by (induction vs arbitrary: q) (simp_all add: contents_enq)

lemma deq_None_iff: "fst (deq q) = None \<longleftrightarrow> isempty q"
  using deq_nil[of q] deq_cons[of q] by (cases "contents q") (force simp: isempty_iff)+

lemma deq_Some: "deq q = (Some x, q') \<Longrightarrow> contents q = x # contents q'"
  using deq_nil[of q] deq_cons[of q] by (cases "contents q") force+

lemma deq_shrinks: "\<not> isempty q \<Longrightarrow> length (contents (snd (deq q))) < length (contents q)"
  using deq_cons[of q] by (cases "contents q") (force simp: isempty_iff)+

end

interpretation tsq: fifo qdata TSQueue_new Push TryPop Empty
  by unfold_locales (auto simp: TSQueue_new_def Push_def TryPop_def Empty_def)

lemma TryPop_shrinks: "(Some x, q') = TryPop q \<Longrightarrow> length (qdata q) = Suc (length (qdata q'))"
  using tsq.deq_Some[of q x q'] by simp

lemma TryPop_Cons: "qdata q = x # xs \<Longrightarrow> TryPop q = (Some x, \<lparr>qdata = xs\<rparr>)"
  by (cases q) (simp add: TryPop_def)

lemma TryPop_none: "(None, q') = TryPop q \<Longrightarrow> Empty q"
  using tsq.deq_None_iff[of q] by (metis fst_conv)

lemma WaitAndPop_TryPop: "WaitAndPop q = (case TryPop q of (None, _) \<Rightarrow> None | (Some v, q') \<Rightarrow> Some (v, q'))"
  by (simp add: WaitAndPop_def TryPop_def split: list.splits)

lemma queue_step_data: "queue_step q e q' \<Longrightarrow> popped [e] @ qdata q' = qdata q @ pushed [e]"
proof (induction rule: queue_step.induct)
  case (try_pop q r q')
  then show ?case using tsq.deq_Some[of q _ q'] tsq.deq_nil[of q] tsq.deq_None_iff[of q]
    by (cases r) (auto simp: tsq.isempty_iff)
next
  case (wait_pop q v q')
  then show ?case by (auto simp: WaitAndPop_def split: list.splits)
qed (simp add: tsq.contents_enq)

lemma popped_Cons: "popped (e # es) = popped [e] @ popped es"
  by (cases e) (auto split: option.splits, metis option.exhaust append_Cons append_Nil popped.simps)

lemma pushed_Cons: "pushed (e # es) = pushed [e] @ pushed es"
  by (cases e) auto

text \<open>
  C30. Whatever the interleaving of \<open>Push\<close>, \<open>TryPop\<close> and \<open>WaitAndPop\<close> calls of any number of
  threads, the values handed out, followed by what is still queued, are the initial contents
  followed by the pushed values in push order: nothing is lost, duplicated or reordered.
\<close>

theorem queue_fifo: "queue_path q es q' \<Longrightarrow> popped es @ qdata q' = qdata q @ pushed es"
proof (induction rule: queue_path.induct)
  case (path_cons q e q' es q'')
  from queue_step_data[OF path_cons.hyps(1)] path_cons.IH show ?case
    by (metis append.assoc popped_Cons pushed_Cons)
qed simp

theorem queue_fifo_witness:
  "queue_path \<lparr>qdata = [1]\<rparr> [EvPush (2::nat), EvWaitAndPop 1] \<lparr>qdata = [2]\<rparr> \<and>
   popped [EvPush (2::nat), EvWaitAndPop 1] @ [2] = [1] @ pushed [EvPush 2, EvWaitAndPop (1::nat)]"
proof -
  have "queue_path \<lparr>qdata = [1]\<rparr> [EvPush (2::nat), EvWaitAndPop 1] \<lparr>qdata = [2]\<rparr>"
    using queue_step.push[of "\<lparr>qdata = [1]\<rparr>" "2::nat"]
    by (auto intro!: queue_path.intros queue_step.wait_pop elim: path_cons simp: Push_def WaitAndPop_def)
  with queue_fifo[OF this] show ?thesis by simp
qed

end
