(* ===== verification/World.thy ===== *)
theory World
  imports Collision Config Protocol TsQueue
begin

text \<open>
  The game world (\<open>src/game/world/world.cpp\<close>) and the two subsystems whose queues connect it to
  the network (\<open>src/shared/subsystems\<close>). The world is a record; every operation takes it and
  returns the new one, or a fault. Operations are polymorphic in record extensions, so that the
  server, which shares the subsystems, extends the same record.
\<close>

section \<open>State\<close>

record NetworkSubsystem =
  net_in_queue :: "ServerPacket TSQueue"
  net_out_queue :: "ServerPacket TSQueue"

record GameSubsystem =
  game_in_queue :: "ServerPacket TSQueue"
  game_out_queue :: "ServerPacket TSQueue"

text \<open>An entry \<open>None\<close> of \<open>players\<close> is a null \<open>shared_ptr\<close>.\<close>

record World =
  net_subsystem :: NetworkSubsystem
  game_subsystem :: GameSubsystem
  world_config :: GameConfig
  players :: "(size_t, Player option) umap"
  tile_map :: "Tile list"

section \<open>Construction\<close>

definition build_cell :: "GameConfig \<Rightarrow> nat \<Rightarrow> nat \<Rightarrow> Tile list \<Rightarrow> Tile list res" where
  "build_cell cfg y x tiles =
     (let index = y * unat (grid_x cfg) + x in
      rbind (vec_at (map_data cfg) index) (\<lambda>v.
        if v \<noteq> 0
        then if index < length tiles
             then Inr (tiles[index := Tile_new (f64_mul (f64_of_int (int x)) (f64_of_u8 (tile_size cfg)))
                         (f64_mul (f64_of_int (int y)) (f64_of_u8 (tile_size cfg)))
                         (tile_size cfg) (tile_size cfg) Solid])
             else Inl OutOfBounds
        else Inr tiles))"

definition build_map :: "GameConfig \<Rightarrow> Tile list res" where
  "build_map cfg =
     rbind (cell_count (grid_x cfg) (grid_y cfg)) (\<lambda>n.
       rfold (\<lambda>y. rfold (build_cell cfg y) [0..<unat (grid_x cfg)]) [0..<unat (grid_y cfg)]
         (replicate n Tile_default))"

definition World_new :: "NetworkSubsystem \<Rightarrow> GameSubsystem \<Rightarrow> GameConfig \<Rightarrow> World res" where
  "World_new net game cfg =
     rbind (build_map cfg) (\<lambda>tiles.
       Inr \<lparr>net_subsystem = net, game_subsystem = game, world_config = cfg, players = [], tile_map = tiles\<rparr>)"

section \<open>Players\<close>

definition push_out :: "ServerPacket \<Rightarrow> 'a World_scheme \<Rightarrow> 'a World_scheme" where
  "push_out p w = w\<lparr>game_subsystem := (game_subsystem w)\<lparr>game_out_queue := Push (game_out_queue (game_subsystem w)) p\<rparr>\<rparr>"

text \<open>One entry of the packet that tells a new player about the others.\<close>

definition put_player :: "Player \<Rightarrow> NetPacket \<Rightarrow> NetPacket" where
  "put_player p np =
     put (GetHeight p) (put (GetWidth p) (put (GetY p) (put (GetX p) (put (player_id p) np))))"

definition spawn_packet :: "size_t \<Rightarrow> (size_t, Player option) umap \<Rightarrow> NetPacket res" where
  "spawn_packet i ps =
     rfold (\<lambda>(k, e) np.
        if k \<noteq> i then (case e of None \<Rightarrow> Inl NullDeref | Some p \<Rightarrow> Inr (put_player p np)) else Inr np)
       ps (put (of_nat (length ps) - 1 :: size_t) (SetHeadOpcode NetPacket_default (to_uint16 SpawnPlayers)))"

definition World_AddPlayer :: "Player \<Rightarrow> 'a World_scheme \<Rightarrow> 'a World_scheme res" where
  "World_AddPlayer player w =
     (let i = player_id player;
          w1 = w\<lparr>players := AList.update i (Some player) (players w)\<rparr>;
          w2 = push_out (ServerPacket_new
                 (CreatePlayerPacket i (GetX player) (GetY player) (GetWidth player) (GetHeight player)) i Rpc) w1
      in rbind (spawn_packet i (players w2)) (\<lambda>spawn.
         let w3 = push_out (ServerPacket_new spawn i Rpc) w2;
             w4 = push_out (ServerPacket_new
                 (AddPlayerPacket i (GetX player) (GetY player) (GetWidth player) (GetHeight player)) i RpcOthers) w3
         in Inr w4))"

definition World_RemovePlayer :: "size_t \<Rightarrow> 'a World_scheme \<Rightarrow> 'a World_scheme" where
  "World_RemovePlayer i w =
     push_out (ServerPacket_new (RemovePlayerPacket i) i Broadcast) (w\<lparr>players := AList.delete i (players w)\<rparr>)"

definition PlayerNumbers :: "'a World_scheme \<Rightarrow> nat" where
  "PlayerNumbers w = length (players w)"

section \<open>Input\<close>

definition start_coord :: "GameConfig \<Rightarrow> u16 \<Rightarrow> f64" where
  "start_coord cfg cell_index =
     f64_of_int (uint cell_index * uint (tile_size cfg) + uint (player_offset (player_config cfg)))"

definition new_player :: "GameConfig \<Rightarrow> size_t \<Rightarrow> Player" where
  "new_player cfg i =
     Player_new i (start_coord cfg (player_start_x (player_config cfg)))
       (start_coord cfg (player_start_y (player_config cfg))) f64_zero f64_zero
       (pc_width (player_config cfg)) (pc_height (player_config cfg))"

definition with_player :: "size_t \<Rightarrow> (Player \<Rightarrow> Player) \<Rightarrow> 'a World_scheme \<Rightarrow> 'a World_scheme res" where
  "with_player i f w = (case map_of (players w) i of
       Some (Some p) \<Rightarrow> Inr (w\<lparr>players := AList.update i (Some (f p)) (players w)\<rparr>)
     | _ \<Rightarrow> Inl NullDeref)"

definition ProcessInput :: "ServerPacket \<Rightarrow> f64 \<Rightarrow> 'a World_scheme \<Rightarrow> 'a World_scheme res" where
  "ProcessInput sp dt w =
     (let i = GetID sp;
          w1 = w\<lparr>players := um_touch None i (players w)\<rparr>;
          net_packet = fst (GetNetPacket sp);
          opcode = GetHeadOpcode net_packet;
          speed = f64_mul (f64_lit 100) dt;
          jump_force = f64_mul (f64_lit 400) dt
      in case to_opcode opcode of
           CreatePlayer \<Rightarrow> World_AddPlayer (new_player (world_config w) i) w1
         | RemovePlayer \<Rightarrow> Inr (World_RemovePlayer i w1)
         | MoveLeft \<Rightarrow> with_player i (\<lambda>p. SetVel (f64_minus speed) (GetVelY p) p) w1
         | MoveRight \<Rightarrow> with_player i (\<lambda>p. SetVel speed (GetVelY p) p) w1
         | Jump \<Rightarrow> with_player i (\<lambda>p.
              if OnGround p then SetOnGround False (SetVel (GetVelX p) (f64_minus jump_force) p) else p) w1
         | _ \<Rightarrow> Inr w1)"

section \<open>Physics\<close>

definition swept_axis :: "'a World_scheme \<Rightarrow> Player \<Rightarrow> f64 \<Rightarrow> f64 \<Rightarrow> SweptData res" where
  "swept_axis w p vel_x vel_y =
     SweptAxis p (tile_size (world_config w)) (grid_x (world_config w)) (ucast (grid_y (world_config w)))
       (tile_map w) vel_x vel_y"

definition move_x :: "'a World_scheme \<Rightarrow> Player \<Rightarrow> f64 \<Rightarrow> f64 \<Rightarrow> (f64 \<times> Player) res" where
  "move_x w p vel_x vel_y =
     (if \<not> f64_eq vel_x f64_zero
      then rbind (swept_axis w p vel_x f64_zero) (\<lambda>swept.
        let vel_x' = f64_mul vel_x (entry_time swept);
            p1 = Move vel_x' f64_zero p;
            p2 = (if hit swept then SetVel f64_zero vel_y p1 else p1)
        in Inr (vel_x', p2))
      else Inr (vel_x, p))"

definition move_y :: "'a World_scheme \<Rightarrow> Player \<Rightarrow> f64 \<Rightarrow> f64 \<Rightarrow> Player res" where
  "move_y w p vel_x vel_y =
     (if \<not> f64_eq vel_y f64_zero
      then rbind (swept_axis w p f64_zero vel_y) (\<lambda>swept.
        let vel_y' = f64_mul vel_y (entry_time swept);
            p1 = SetOnGround False (Move f64_zero vel_y' p)
        in Inr (if hit swept
                then SetVel vel_x f64_zero (if f64_le f64_zero vel_y' then SetOnGround True p1 else p1)
                else p1))
      else Inr p)"

definition World_MovePlayer :: "'a World_scheme \<Rightarrow> Player \<Rightarrow> Player res" where
  "World_MovePlayer w player =
     (let vel_x = GetVelX player; vel_y = GetVelY player in
      rbind (move_x w player vel_x vel_y) (\<lambda>(vel_x', p). move_y w p vel_x' vel_y))"

text \<open>\<open>Update\<close> changes the player it is given and queues the packet with its new position.\<close>

definition gravity :: f64 where
  "gravity = f64_lit (98 / 10)"

definition Update :: "Player \<Rightarrow> f64 \<Rightarrow> 'a World_scheme \<Rightarrow> (Player \<times> 'a World_scheme) res" where
  "Update player dt w =
     (let vel_y = f64_add (GetVelY player) (f64_mul gravity dt) in
      rbind (World_MovePlayer w (SetVel (GetVelX player) vel_y player)) (\<lambda>p.
        Inr (p, push_out (ServerPacket_new (MovePlayerPacket (player_id p) (GetX p) (GetY p)) (player_id p) Broadcast) w)))"

section \<open>A tick\<close>

definition swap_in_queues :: "'a World_scheme \<Rightarrow> 'a World_scheme" where
  "swap_in_queues w =
     (let (g, n) = TSSwap False (game_in_queue (game_subsystem w)) (net_in_queue (net_subsystem w))
      in w\<lparr>game_subsystem := (game_subsystem w)\<lparr>game_in_queue := g\<rparr>,
           net_subsystem := (net_subsystem w)\<lparr>net_in_queue := n\<rparr>\<rparr>)"

text \<open>The loop that stops the horizontal movement of every player.\<close>

definition stop_players :: "'a World_scheme \<Rightarrow> 'a World_scheme res" where
  "stop_players w =
     rfold (\<lambda>(i, e) w. with_player i (\<lambda>p. SetVel f64_zero (GetVelY p) p) w) (players w) w"

definition set_game_in :: "ServerPacket TSQueue \<Rightarrow> 'a World_scheme \<Rightarrow> 'a World_scheme" where
  "set_game_in q w = w\<lparr>game_subsystem := (game_subsystem w)\<lparr>game_in_queue := q\<rparr>\<rparr>"

abbreviation game_in :: "'a World_scheme \<Rightarrow> ServerPacket TSQueue" where
  "game_in w \<equiv> game_in_queue (game_subsystem w)"

abbreviation game_out :: "'a World_scheme \<Rightarrow> ServerPacket TSQueue" where
  "game_out w \<equiv> game_out_queue (game_subsystem w)"

abbreviation net_in :: "'a World_scheme \<Rightarrow> ServerPacket TSQueue" where
  "net_in w \<equiv> net_in_queue (net_subsystem w)"

abbreviation net_out :: "'a World_scheme \<Rightarrow> ServerPacket TSQueue" where
  "net_out w \<equiv> net_out_queue (net_subsystem w)"

lemma push_out_simps [simp]:
  "game_in (push_out p w) = game_in w" "net_subsystem (push_out p w) = net_subsystem w"
  "players (push_out p w) = players w" "world_config (push_out p w) = world_config w"
  "tile_map (push_out p w) = tile_map w" "qdata (game_out (push_out p w)) = qdata (game_out w) @ [p]"
  by (simp_all add: push_out_def Push_def)

lemma set_game_in_simps [simp]:
  "game_in (set_game_in q w) = q" "game_out (set_game_in q w) = game_out w"
  "net_subsystem (set_game_in q w) = net_subsystem w" "players (set_game_in q w) = players w"
  "world_config (set_game_in q w) = world_config w" "tile_map (set_game_in q w) = tile_map w"
  by (simp_all add: set_game_in_def)

lemma ProcessInput_game_in: "ProcessInput p dt w = Inr w' \<Longrightarrow> game_in w' = game_in w"
  by (auto simp: ProcessInput_def World_AddPlayer_def World_RemovePlayer_def with_player_def Let_def
      split: Opcodes.splits option.splits)

text \<open>The input loop: it ends because handling a packet queues no further input.\<close>

function process_inputs :: "f64 \<Rightarrow> 'a World_scheme \<Rightarrow> 'a World_scheme res" where
  "process_inputs dt w =
     (if Empty (game_in w) then Inr w
      else case TryPop (game_in w) of
             (None, q) \<Rightarrow> process_inputs dt (set_game_in q w)
           | (Some p, q) \<Rightarrow> rbind (ProcessInput p dt (set_game_in q w)) (process_inputs dt))"
  by pat_completeness auto
termination
  by (relation "measure (\<lambda>(dt, w). length (qdata (game_in w)))")
    (auto dest!: ProcessInput_game_in dest: TryPop_shrinks TryPop_none)

declare process_inputs.simps [simp del]

definition update_players :: "f64 \<Rightarrow> 'a World_scheme \<Rightarrow> 'a World_scheme res" where
  "update_players dt w =
     rfold (\<lambda>(i, e) w. case e of
          None \<Rightarrow> Inl NullDeref
        | Some p \<Rightarrow> rbind (Update p dt w) (\<lambda>(p', w').
            Inr (w'\<lparr>players := AList.update i (Some p') (players w')\<rparr>)))
       (players w) w"

definition set_out_queues :: "ServerPacket TSQueue \<Rightarrow> ServerPacket TSQueue \<Rightarrow> 'a World_scheme \<Rightarrow> 'a World_scheme" where
  "set_out_queues g n w =
     w\<lparr>game_subsystem := (game_subsystem w)\<lparr>game_out_queue := g\<rparr>,
       net_subsystem := (net_subsystem w)\<lparr>net_out_queue := n\<rparr>\<rparr>"

text \<open>Handing the packets of the tick to the network: \<open>packet.value()\<close> throws on an empty optional.\<close>

function flush_out :: "'a World_scheme \<Rightarrow> 'a World_scheme res" where
  "flush_out w =
     (if Empty (game_out w) then Inr w
      else case TryPop (game_out w) of
             (None, q) \<Rightarrow> Inl Thrown
           | (Some p, q) \<Rightarrow> flush_out (set_out_queues q (Push (net_out w) p) w))"
  by pat_completeness auto
termination
  by (relation "measure (\<lambda>w. length (qdata (game_out w)))")
    (auto simp: set_out_queues_def dest: TryPop_shrinks)

declare flush_out.simps [simp del]

definition Tick :: "f64 \<Rightarrow> 'a World_scheme \<Rightarrow> 'a World_scheme res" where
  "Tick dt w =
     rbind (stop_players (swap_in_queues w)) (\<lambda>w1.
     rbind (process_inputs dt w1) (\<lambda>w2.
     rbind (update_players dt w2) flush_out))"

text \<open>\<open>GameLoop\<close> is a tick per clock interval, here for a list of measured intervals.\<close>

definition GameLoop :: "f64 list \<Rightarrow> 'a World_scheme \<Rightarrow> 'a World_scheme res" where
  "GameLoop dts w = rfold Tick dts w"

end
