(* ===== verification/WorldLogic.thy ===== *)
theory WorldLogic
  imports World
begin

text \<open>
  The world's bookkeeping: the tile map that the constructor builds, the input phase of a tick
  as a refinement of the set of live players, the packets that announce a player, and what a
  tick hands to the network.
\<close>

section \<open>The map of the world\<close>

definition cell_tile :: "GameConfig \<Rightarrow> nat \<Rightarrow> Tile" where
  "cell_tile cfg k = (if map_data cfg ! k \<noteq> 0
     then grid_tile (tile_size cfg) (k mod unat (grid_x cfg)) (k div unat (grid_x cfg)) else Tile_default)"

text \<open>The tiles after the first \<open>k\<close> cells have been handled.\<close>

definition built :: "GameConfig \<Rightarrow> nat \<Rightarrow> nat \<Rightarrow> Tile list" where
  "built cfg n k = map (\<lambda>j. if j < k then cell_tile cfg j else Tile_default) [0..<n]"

lemma built_update: "k < n \<Longrightarrow> (built cfg n k)[k := cell_tile cfg k] = built cfg n (Suc k)"
  by (intro nth_equalityI) (auto simp: built_def nth_list_update less_Suc_eq)

lemma built_skip: "map_data cfg ! k = 0 \<Longrightarrow> built cfg n (Suc k) = built cfg n k"
  by (auto simp: built_def cell_tile_def less_Suc_eq)

lemma tile_coord: "x < 2 ^ 16 \<Longrightarrow> f64_mul (f64_of_int (int x)) (f64_of_u8 tile) = f64_of_int (int x * uint tile)"
proof -
  assume x: "x < 2 ^ 16"
  have "int x * uint tile \<le> 2 ^ 16 * 2 ^ 8" using x uint_u8[of tile] by (intro mult_mono) simp_all
  then show ?thesis using x uint_u8[of tile] unfolding f64_of_u8_def by (intro f64_int_mul) simp_all
qed

lemma build_row:
  assumes "y < unat (grid_y cfg)" "n = unat (grid_x cfg) * unat (grid_y cfg)" "n \<le> length (map_data cfg)" "m \<le> unat (grid_x cfg)"
  shows "rfold (build_cell cfg y) [0..<m] (built cfg n (y * unat (grid_x cfg))) =
     Inr (built cfg n (y * unat (grid_x cfg) + m))"
  using assms(4)
proof (induction m)
  case (Suc m)
  let ?k = "y * unat (grid_x cfg) + m"
  have k: "?k < n" using Suc.prems assms(1,2) by (metis Suc_le_lessD cell_in_grid)
  have b: "m < 2 ^ 16" "y < 2 ^ 16"
    using Suc.prems assms(1) unsigned_less[of "grid_x cfg", where 'a = nat] unsigned_less[of "grid_y cfg", where 'a = nat] by simp_all
  have c: "map_data cfg ! ?k \<noteq> 0 \<Longrightarrow> cell_tile cfg ?k = Tile_new (f64_mul (f64_of_int (int m)) (f64_of_u8 (tile_size cfg)))
      (f64_mul (f64_of_int (int y)) (f64_of_u8 (tile_size cfg))) (tile_size cfg) (tile_size cfg) Solid"
    using Suc.prems b by (simp add: cell_tile_def grid_tile_def tile_coord)
  show ?case using Suc k assms(3) built_skip[of cfg ?k n]
    by (auto simp: rfold_append build_cell_def vec_at_def Let_def built_update simp flip: c) (simp_all add: built_def)
qed simp


lemma build_rows:
  assumes "n = unat (grid_x cfg) * unat (grid_y cfg)" "n \<le> length (map_data cfg)" "j \<le> unat (grid_y cfg)"
  shows "rfold (\<lambda>y. rfold (build_cell cfg y) [0..<unat (grid_x cfg)]) [0..<j] (built cfg n 0) = Inr (built cfg n (j * unat (grid_x cfg)))"
  using assms(3)
proof (induction j)
  case (Suc j)
  then show ?case
    using build_row[OF _ assms(1,2) order_refl, of j] by (simp add: rfold_append add.commute)
qed simp

lemma build_map_eq:
  assumes "cell_count (grid_x cfg) (grid_y cfg) = Inr n" "n \<le> length (map_data cfg)"
  shows "build_map cfg = Inr (map (cell_tile cfg) [0..<n])"
proof -
  have n: "n = unat (grid_x cfg) * unat (grid_y cfg)"
    using assms(1) by (auto simp: cell_count_def nat_mult_distrib unat_eq_nat_uint[symmetric] split: if_splits)
  have "replicate n Tile_default = built cfg n 0" by (simp add: built_def map_replicate_trivial)
  moreover have "built cfg n n = map (cell_tile cfg) [0..<n]" by (simp add: built_def)
  ultimately show ?thesis
    using build_rows[OF n assms(2) order_refl] assms(1) by (simp add: build_map_def n mult.commute)
qed

lemma cell_tile_grid:
  assumes "i < unat (grid_x cfg)"
  shows "cell_tile cfg (j * unat (grid_x cfg) + i) =
    (if map_data cfg ! (j * unat (grid_x cfg) + i) \<noteq> 0 then grid_tile (tile_size cfg) i j else Tile_default)"
  using assms by (simp add: cell_tile_def)

text \<open>
  The world built from a configuration whose map covers its grid is exactly the map of the
  file: tile \<open>(i, j)\<close> is solid when its cell is not 0 and then stands at \<open>(i * tile, j * tile)\<close>
  with the tile size as its sides, computed without rounding; all other tiles are empty. The
  world starts without players and with the queues it was given.
\<close>

lemma World_new_map:
  assumes "cell_count (grid_x cfg) (grid_y cfg) = Inr n" "n \<le> length (map_data cfg)"
  shows "\<exists>w. World_new net game cfg = Inr w \<and>
    grid_map (tile_size cfg) (unat (grid_x cfg)) (unat (grid_y cfg)) (tile_map w) \<and>
    (\<forall>k<n. tile_type (tile_map w ! k) = (if map_data cfg ! k \<noteq> 0 then Solid else Empty_tile)) \<and>
    players w = [] \<and> net_subsystem w = net \<and> game_subsystem w = game \<and> world_config w = cfg"
proof -
  have n: "n = unat (grid_x cfg) * unat (grid_y cfg)"
    using assms(1) by (auto simp: cell_count_def nat_mult_distrib unat_eq_nat_uint[symmetric] split: if_splits)
  have "grid_map (tile_size cfg) (unat (grid_x cfg)) (unat (grid_y cfg)) (map (cell_tile cfg) [0..<n])"
    unfolding grid_map_def using cell_in_grid
    by (auto simp: n cell_tile_grid Tile_default_def split: if_splits)
  moreover have "tile_type (cell_tile cfg k) = (if map_data cfg ! k \<noteq> 0 then Solid else Empty_tile)" for k
    by (simp add: cell_tile_def grid_tile_def Tile_new_def Tile_default_def)
  ultimately show ?thesis using build_map_eq[OF assms] by (simp add: World_new_def)
qed

section \<open>Live players\<close>

definition live :: "'a World_scheme \<Rightarrow> size_t set" where
  "live w = dom (map_of (players w))"

definition world_ok :: "'a World_scheme \<Rightarrow> bool" where
  "world_ok w \<longleftrightarrow> um_wf (players w) \<and>
     (\<forall>(i, e) \<in> set (players w). case e of None \<Rightarrow> False | Some p \<Rightarrow> player_id p = i)"

lemma world_ok_iff: "world_ok w \<longleftrightarrow> um_wf (players w) \<and>
    (\<forall>i e. map_of (players w) i = Some e \<longrightarrow> (\<exists>p. e = Some p \<and> player_id p = i))"
proof (cases "um_wf (players w)")
  case True
  then have "(i, e) \<in> set (players w) \<longleftrightarrow> map_of (players w) i = Some e" for i e
    using um.entry_iff[of "players w"] by simp
  then have "(\<forall>(i, e) \<in> set (players w). case e of None \<Rightarrow> False | Some p \<Rightarrow> player_id p = i) \<longleftrightarrow>
      (\<forall>i e. map_of (players w) i = Some e \<longrightarrow> (case e of None \<Rightarrow> False | Some p \<Rightarrow> player_id p = i))"
    unfolding Ball_def split_paired_All by simp
  moreover have "(case e of None \<Rightarrow> False | Some p \<Rightarrow> player_id p = i) \<longleftrightarrow> (\<exists>p. e = Some p \<and> player_id p = i)"
    for e :: "Player option" and i
    by (cases e) auto
  ultimately show ?thesis by (simp add: world_ok_def)
qed (simp add: world_ok_def)

text \<open>The abstract effect of one packet on the set of live players; \<open>None\<close> is a crash.\<close>

definition live_after :: "size_t set \<Rightarrow> ServerPacket \<Rightarrow> size_t set option" where
  "live_after L sp = (case to_opcode (GetHeadOpcode (packet sp)) of
       CreatePlayer \<Rightarrow> Some (insert (sp_id sp) L)
     | RemovePlayer \<Rightarrow> Some (L - {sp_id sp})
     | _ \<Rightarrow> if sp_id sp \<in> L then Some L else None)"

fun lives :: "size_t set \<Rightarrow> ServerPacket list \<Rightarrow> size_t set option" where
  "lives L [] = Some L"
| "lives L (sp # sps) = (case live_after L sp of None \<Rightarrow> None | Some L' \<Rightarrow> lives L' sps)"

definition same_frame :: "'a World_scheme \<Rightarrow> 'a World_scheme \<Rightarrow> bool" where
  "same_frame w w' \<longleftrightarrow> net_subsystem w' = net_subsystem w \<and> world_config w' = world_config w \<and>
     tile_map w' = tile_map w \<and> game_in w' = game_in w"

lemma spawn_packet_total:
  "(\<And>k e. (k, e) \<in> set ps \<Longrightarrow> k \<noteq> i \<Longrightarrow> e \<noteq> None) \<Longrightarrow> \<exists>np. spawn_packet i ps = Inr np"
  unfolding spawn_packet_def
  using rfold_total[of "\<lambda>_. True" _ ps "\<lambda>(k, e) np. if k \<noteq> i then (case e of None \<Rightarrow> Inl NullDeref | Some p \<Rightarrow> Inr (put_player p np)) else Inr np"]
  by (auto split: option.splits prod.splits) fastforce

lemma World_AddPlayer_ok:
  assumes "um_wf (players w)" and "\<And>k e. map_of (players w) k = Some e \<Longrightarrow> k \<noteq> player_id p \<Longrightarrow> \<exists>q. e = Some q \<and> player_id q = k"
  shows "\<exists>w'. World_AddPlayer p w = Inr w' \<and> world_ok w' \<and> live w' = insert (player_id p) (live w) \<and> same_frame w w'"
proof -
  define ps where "ps = AList.update (player_id p) (Some p) (players w)"
  have wf: "um_wf ps" using assms(1) by (simp add: ps_def um.invar_store)
  have lk: "map_of ps = (map_of (players w))(player_id p \<mapsto> Some p)" by (simp add: ps_def update_conv')
  have "\<exists>np. spawn_packet (player_id p) ps = Inr np"
    using assms(2) um.entry_iff[OF wf] lk by (intro spawn_packet_total) fastforce
  then obtain np where np: "spawn_packet (player_id p) ps = Inr np" by blast
  show ?thesis using assms wf lk np
    by (auto simp: World_AddPlayer_def Let_def world_ok_iff live_def same_frame_def simp flip: ps_def)
qed

lemma with_player_ok:
  assumes "world_ok w" "i \<in> live w" "\<And>p. player_id (f p) = player_id p"
  shows "\<exists>w'. with_player i f w = Inr w' \<and> world_ok w' \<and> live w' = live w \<and> same_frame w w'"
proof -
  obtain p where p: "map_of (players w) i = Some (Some p)" "player_id p = i"
    using assms(1,2) by (auto simp: world_ok_iff live_def)
  then show ?thesis using assms
    by (auto simp: with_player_def world_ok_iff live_def same_frame_def update_conv' um.invar_store)
qed

lemma player_id_simps [simp]: "player_id (SetVel a b p) = player_id p" "player_id (SetOnGround g p) = player_id p"
  "player_id (Move a b p) = player_id p" "player_id (new_player cfg i) = i"
  by (simp_all add: SetVel_def SetOnGround_def Move_def new_player_def Player_new_def)

lemma touch_live: "i \<in> live w \<Longrightarrow> w\<lparr>players := um_touch None i (players w)\<rparr> = w"
  by (auto simp: live_def um_touch_def)

lemma same_frame_trans: "same_frame u v \<Longrightarrow> same_frame v w \<Longrightarrow> same_frame u w"
  by (simp add: same_frame_def)

lemma ProcessInput_refines:
  assumes ok: "world_ok w" and after: "live_after (live w) sp = Some L"
  shows "\<exists>w'. ProcessInput sp dt w = Inr w' \<and> world_ok w' \<and> live w' = L \<and> same_frame w w'"
proof -
  define i where "i = sp_id sp"
  define w1 where "w1 = w\<lparr>players := um_touch None i (players w)\<rparr>"
  have op: "GetHeadOpcode (fst (GetNetPacket sp)) = GetHeadOpcode (packet sp)" "GetID sp = i"
    by (simp_all add: GetNetPacket_def NetPacket_move_def GetHeadOpcode_def GetID_def i_def)
  have wf1: "um_wf (players w1)" and lk1: "\<And>k. k \<noteq> i \<Longrightarrow> map_of (players w1) k = map_of (players w) k"
    and dom1: "dom (map_of (players w1)) = insert i (dom (map_of (players w)))" and fr: "same_frame w w1"
    using ok by (auto simp: w1_def world_ok_iff um_wf_touch map_of_um_touch same_frame_def split: if_splits)
  note P = ProcessInput_def[of sp dt w, folded i_def, unfolded op Let_def, folded w1_def]
  consider (create) "to_opcode (GetHeadOpcode (packet sp)) = CreatePlayer"
    | (remove) "to_opcode (GetHeadOpcode (packet sp)) = RemovePlayer"
    | (other) "i \<in> live w" "L = live w" "to_opcode (GetHeadOpcode (packet sp)) \<notin> {CreatePlayer, RemovePlayer}"
    using after by (auto simp: live_after_def i_def split: Opcodes.splits if_splits)
  then show ?thesis
  proof cases
    case create
    have "\<exists>w'. World_AddPlayer (new_player (world_config w) i) w1 = Inr w' \<and> world_ok w' \<and> live w' = insert i (live w1) \<and> same_frame w1 w'"
      using World_AddPlayer_ok[of w1 "new_player (world_config w) i"] wf1 lk1 ok by (auto simp: world_ok_iff)
    with create after dom1 fr show ?thesis
      by (auto simp: P live_after_def live_def i_def[symmetric] insert_absorb dest: same_frame_trans)
  next
    case remove
    have "world_ok (World_RemovePlayer i w1)" "live (World_RemovePlayer i w1) = live w - {i}" "same_frame w (World_RemovePlayer i w1)"
      using ok wf1 lk1 dom1 fr
      by (auto simp: World_RemovePlayer_def world_ok_iff live_def same_frame_def delete_conv' um.invar_erase split: if_splits)
    with remove after show ?thesis by (simp add: P live_after_def i_def[symmetric])
  next
    case other
    then have "w1 = w" by (simp add: w1_def touch_live)
    with other ok show ?thesis
      using with_player_ok[OF ok other(1)] by (auto simp: P same_frame_def split: Opcodes.splits)
  qed
qed

lemma ProcessInput_dead:
  assumes "sp_id sp \<notin> live w" "to_opcode (GetHeadOpcode (packet sp)) \<in> {MoveLeft, MoveRight, Jump}"
  shows "ProcessInput sp dt w = Inl NullDeref"
proof -
  have "map_of (players w) (sp_id sp) = None" using assms(1) by (auto simp: live_def)
  with assms(2) show ?thesis
    by (auto simp: ProcessInput_def GetNetPacket_def NetPacket_move_def GetHeadOpcode_def GetID_def with_player_def
        map_of_um_touch Let_def)
qed


lemma process_inputs_Cons:
  "qdata (game_in w) = sp # sps \<Longrightarrow>
   process_inputs dt w = rbind (ProcessInput sp dt (set_game_in \<lparr>qdata = sps\<rparr> w)) (process_inputs dt)"
  by (subst process_inputs.simps) (simp add: Empty_def TryPop_Cons)

lemma process_inputs_Nil: "qdata (game_in w) = [] \<Longrightarrow> process_inputs dt w = Inr w"
  by (subst process_inputs.simps) (simp add: Empty_def)

lemma set_game_in_ok [simp]: "world_ok (set_game_in q w) = world_ok w" "live (set_game_in q w) = live w"
  by (simp_all add: world_ok_def live_def)

lemma process_inputs_refines:
  assumes "world_ok w" "lives (live w) (qdata (game_in w)) = Some L"
  shows "\<exists>w'. process_inputs dt w = Inr w' \<and> world_ok w' \<and> live w' = L \<and> qdata (game_in w') = [] \<and>
    net_subsystem w' = net_subsystem w \<and> world_config w' = world_config w \<and> tile_map w' = tile_map w"
  using assms
proof (induction "qdata (game_in w)" arbitrary: w)
  case Nil
  then show ?case by (simp add: process_inputs_Nil)
next
  case (Cons sp sps)
  let ?v = "set_game_in \<lparr>qdata = sps\<rparr> w"
  from Cons.prems Cons.hyps(2)[symmetric] obtain L' where L': "live_after (live ?v) sp = Some L'" "lives L' sps = Some L"
    by (auto split: option.splits)
  have "world_ok ?v" using Cons.prems by simp
  from ProcessInput_refines[OF this L'(1), of dt] obtain w1 where
    w1: "ProcessInput sp dt ?v = Inr w1" "world_ok w1" "live w1 = L'" "same_frame ?v w1" by blast
  then have "sps = qdata (game_in w1)" by (simp add: same_frame_def)
  from Cons.hyps(1)[OF this w1(2)] L' w1 this obtain w2 where "process_inputs dt w1 = Inr w2" "world_ok w2" "live w2 = L"
    "qdata (game_in w2) = []" "net_subsystem w2 = net_subsystem w1" "world_config w2 = world_config w1" "tile_map w2 = tile_map w1" by auto
  with w1 process_inputs_Cons[OF Cons.hyps(2)[symmetric], of dt] show ?case by (auto simp: same_frame_def)
qed

text \<open>
  The player table as the input loop sees it: which ids have an entry, and whether it holds a
  player (\<open>True\<close>) or a null pointer (\<open>False\<close>). \<open>None\<close> is a null dereference: creating a player reads
  the entries of all others, a move reads the player's own.
\<close>

definition shape :: "'a World_scheme \<Rightarrow> size_t \<rightharpoonup> bool" where
  "shape w i = map_option (\<lambda>e. e \<noteq> None) (map_of (players w) i)"

definition shape_after :: "(size_t \<rightharpoonup> bool) \<Rightarrow> ServerPacket \<Rightarrow> (size_t \<rightharpoonup> bool) option" where
  "shape_after S sp = (let i = sp_id sp in
     case to_opcode (GetHeadOpcode (packet sp)) of
       CreatePlayer \<Rightarrow> if \<exists>k. k \<noteq> i \<and> S k = Some False then None else Some (S(i \<mapsto> True))
     | RemovePlayer \<Rightarrow> Some (S(i := None))
     | MoveLeft \<Rightarrow> if S i = Some True then Some S else None
     | MoveRight \<Rightarrow> if S i = Some True then Some S else None
     | Jump \<Rightarrow> if S i = Some True then Some S else None
     | _ \<Rightarrow> Some (S(i \<mapsto> (S i = Some True))))"

fun shapes :: "(size_t \<rightharpoonup> bool) \<Rightarrow> ServerPacket list \<Rightarrow> (size_t \<rightharpoonup> bool) option" where
  "shapes S [] = Some S"
| "shapes S (sp # sps) = (case shape_after S sp of None \<Rightarrow> None | Some S' \<Rightarrow> shapes S' sps)"

lemma spawn_packet_null: "(k, None) \<in> set ps \<Longrightarrow> k \<noteq> i \<Longrightarrow> spawn_packet i ps = Inl NullDeref"
proof -
  have "(k, None) \<in> set xs \<Longrightarrow> k \<noteq> i \<Longrightarrow>
      rfold (\<lambda>(k, e) np. if k \<noteq> i then (case e of None \<Rightarrow> Inl NullDeref | Some p \<Rightarrow> Inr (put_player p np)) else Inr np) xs np = Inl NullDeref" for xs np
    by (induction xs arbitrary: np) (auto split: option.splits)
  then show "(k, None) \<in> set ps \<Longrightarrow> k \<noteq> i \<Longrightarrow> spawn_packet i ps = Inl NullDeref" by (simp add: spawn_packet_def)
qed

lemma AddPlayer_shape:
  assumes "um_wf (players w)"
  shows "if \<exists>k. k \<noteq> player_id p \<and> shape w k = Some False then World_AddPlayer p w = Inl NullDeref
    else \<exists>w'. World_AddPlayer p w = Inr w' \<and> um_wf (players w') \<and> shape w' = (shape w)(player_id p \<mapsto> True)"
proof -
  let ?i = "player_id p" and ?ps = "AList.update (player_id p) (Some p) (players w)"
  have wf: "um_wf ?ps" using assms by (simp add: um.invar_store)
  have lk: "map_of ?ps = (map_of (players w))(?i \<mapsto> Some p)" by (simp add: update_conv')
  have entry: "(k, e) \<in> set ?ps \<longleftrightarrow> map_of ?ps k = Some e" for k e using um.entry_iff[OF wf] by simp
  show ?thesis
  proof (cases "\<exists>k. k \<noteq> ?i \<and> shape w k = Some False")
    case True
    then obtain k where k: "k \<noteq> ?i" "map_of (players w) k = Some None" by (auto simp: shape_def)
    then have "(k, None) \<in> set ?ps" using entry lk by simp
    from spawn_packet_null[OF this k(1)] True show ?thesis by (simp add: World_AddPlayer_def)
  next
    case False
    then have nn: "map_of (players w) k \<noteq> Some None" if "k \<noteq> ?i" for k using that by (auto simp: shape_def)
    have "e \<noteq> None" if "(k, e) \<in> set ?ps" "k \<noteq> ?i" for k e
      using that nn[OF that(2)] entry[of k e] lk by auto
    then obtain np where "spawn_packet ?i ?ps = Inr np" using spawn_packet_total[of ?ps ?i] by blast
    with False wf show ?thesis by (auto simp: World_AddPlayer_def Let_def shape_def fun_eq_iff update_conv')
  qed
qed

lemma with_player_shape:
  assumes "um_wf (players w)"
  shows "if shape w i = Some True then \<exists>w'. with_player i f w = Inr w' \<and> um_wf (players w') \<and> shape w' = shape w
    else with_player i f w = Inl NullDeref"
  using assms
  by (auto simp: with_player_def shape_def fun_eq_iff update_conv' um.invar_store split: option.splits)

lemma shape_touch:
  assumes "um_wf (players w)"
  shows "um_wf (players (w\<lparr>players := um_touch None i (players w)\<rparr>))"
    "shape (w\<lparr>players := um_touch None i (players w)\<rparr>) = (shape w)(i \<mapsto> (shape w i = Some True))"
proof -
  show "um_wf (players (w\<lparr>players := um_touch None i (players w)\<rparr>))" using assms by (simp add: um_wf_touch)
  show "shape (w\<lparr>players := um_touch None i (players w)\<rparr>) = (shape w)(i \<mapsto> (shape w i = Some True))"
    by (auto simp: shape_def fun_eq_iff map_of_um_touch split: option.splits)
qed

lemma ProcessInput_shape:
  assumes "um_wf (players w)"
  shows "case shape_after (shape w) sp of None \<Rightarrow> ProcessInput sp dt w = Inl NullDeref
    | Some S \<Rightarrow> \<exists>w'. ProcessInput sp dt w = Inr w' \<and> um_wf (players w') \<and> shape w' = S"
proof -
  let ?i = "sp_id sp"
  let ?w = "w\<lparr>players := um_touch None ?i (players w)\<rparr>"
  have op: "GetHeadOpcode (fst (GetNetPacket sp)) = GetHeadOpcode (packet sp)" "GetID sp = ?i"
    by (simp_all add: GetNetPacket_def NetPacket_move_def GetHeadOpcode_def GetID_def)
  note P = ProcessInput_def[of sp dt w, unfolded op Let_def]
  note t = shape_touch[OF assms, where i = "sp_id sp"]
  have same: "shape w ?i = Some True \<Longrightarrow> (shape w)(?i \<mapsto> True) = shape w" by (auto simp: fun_eq_iff)
  show ?thesis
  proof (cases "to_opcode (GetHeadOpcode (packet sp))")
    case CreatePlayer
    have e: "(\<exists>k. k \<noteq> ?i \<and> shape ?w k = Some False) \<longleftrightarrow> (\<exists>k. k \<noteq> ?i \<and> shape w k = Some False)" using t(2) by auto
    from AddPlayer_shape[OF t(1), of "new_player (world_config w) ?i"] CreatePlayer t(2) e show ?thesis
      by (auto simp: P shape_after_def Let_def split: if_splits)
  next
    case RemovePlayer
    have "um_wf (players (World_RemovePlayer ?i ?w))" "shape (World_RemovePlayer ?i ?w) = (shape w)(?i := None)"
      using t(1) by (auto simp: World_RemovePlayer_def um.invar_erase shape_def fun_eq_iff delete_conv' map_of_um_touch)
    with RemovePlayer show ?thesis by (simp add: P shape_after_def)
  next
    case MoveLeft
    with with_player_shape[OF t(1), where i = "sp_id sp"] t(2) same show ?thesis by (auto simp: P shape_after_def Let_def split: if_splits)
  next
    case MoveRight
    with with_player_shape[OF t(1), where i = "sp_id sp"] t(2) same show ?thesis by (auto simp: P shape_after_def Let_def split: if_splits)
  next
    case Jump
    with with_player_shape[OF t(1), where i = "sp_id sp"] t(2) same show ?thesis by (auto simp: P shape_after_def Let_def split: if_splits)
  qed (use t in \<open>simp_all add: P shape_after_def Let_def\<close>)
qed

lemma process_inputs_shape:
  "um_wf (players w) \<Longrightarrow> case shapes (shape w) (qdata (game_in w)) of
     None \<Rightarrow> process_inputs dt w = Inl NullDeref
   | Some S \<Rightarrow> \<exists>w'. process_inputs dt w = Inr w' \<and> um_wf (players w') \<and> shape w' = S \<and> Empty (game_in w')"
proof (induction "qdata (game_in w)" arbitrary: w)
  case Nil
  then show ?case by (simp add: process_inputs_Nil Empty_def)
next
  case (Cons sp sps)
  let ?v = "set_game_in \<lparr>qdata = sps\<rparr> w"
  note q = Cons.hyps(2)[symmetric]
  have v: "um_wf (players ?v)" "shape ?v = shape w" using Cons.prems by (simp_all add: shape_def fun_eq_iff)
  note step = ProcessInput_shape[OF v(1), of sp dt, unfolded v(2)]
  show ?case
  proof (cases "shape_after (shape w) sp")
    case None
    with step show ?thesis by (simp add: process_inputs_Cons[OF q] q)
  next
    case (Some S)
    with step obtain w1 where w1: "ProcessInput sp dt ?v = Inr w1" "um_wf (players w1)" "shape w1 = S" by auto
    have g: "sps = qdata (game_in w1)" using ProcessInput_game_in[OF w1(1)] by simp
    have "process_inputs dt w = process_inputs dt w1" using process_inputs_Cons[OF q, of dt] w1(1) by simp
    with Cons.hyps(1)[OF g w1(2)] w1(3) Some show ?thesis by (cases "shapes S sps") (simp_all add: q flip: g)
  qed
qed

text \<open>
  C8. The input phase of a tick, for every queue of packets. It refines an abstract loop over the
  shape of the player table, which says for each id whether there is an entry and whether it is
  null: where the abstract loop gets stuck, at a move for an id without a player or at a
  creation beside a null entry, the input loop dereferences a null pointer; otherwise every
  packet is handled, the queue is emptied, and the entries that remain are those the packets
  prescribe. In particular, when no packet addresses a player that is not live at that point of
  the queue, no null entry is left, each entry carries its own id, and the live players are
  those that the sequence of create and remove packets prescribes.
\<close>

theorem inputs_refine_live_set:
  assumes "um_wf (players w)"
  shows "(case shapes (shape w) (qdata (game_in w)) of
      None \<Rightarrow> process_inputs dt w = Inl NullDeref
    | Some S \<Rightarrow> \<exists>w'. process_inputs dt w = Inr w' \<and> um_wf (players w') \<and> shape w' = S \<and> Empty (game_in w')) \<and>
    (\<forall>L. world_ok w \<longrightarrow> lives (live w) (qdata (game_in w)) = Some L \<longrightarrow>
       (\<exists>w'. process_inputs dt w = Inr w' \<and> world_ok w' \<and> live w' = L \<and> Empty (game_in w')))"
  using process_inputs_shape[OF assms, of dt] process_inputs_refines[of w _ dt] by (auto simp: Empty_def)

text \<open>
  C23. A client can stop the server: the opcode of a client packet is not checked against its
  sender's rights, so a client that sends \<open>RemovePlayer\<close> and then a move removes its own player
  and makes the input loop dereference a null pointer, in every state of the world.
\<close>

theorem client_can_crash_world:
  assumes "world_ok w" "qdata (game_in w) = ServerPacket_new p i t # ServerPacket_new q i u # rest"
    and "GetHeadOpcode p = to_uint16 RemovePlayer"
    and "GetHeadOpcode q \<in> {to_uint16 MoveLeft, to_uint16 MoveRight, to_uint16 Jump}"
  shows "process_inputs dt w = Inl NullDeref"
proof -
  have op: "to_opcode (GetHeadOpcode p) = RemovePlayer" "to_opcode (GetHeadOpcode q) \<in> {MoveLeft, MoveRight, Jump}"
    using assms(3,4) by (auto simp: to_opcode_def)
  let ?v = "set_game_in \<lparr>qdata = ServerPacket_new q i u # rest\<rparr> w"
  have sp: "packet (ServerPacket_new r i t') = r" "sp_id (ServerPacket_new r i t') = i" for r t'
    by (simp_all add: ServerPacket_new_def NetPacket_move_def)
  have "live_after (live ?v) (ServerPacket_new p i t) = Some (live w - {i})" by (simp add: live_after_def op sp)
  from ProcessInput_refines[OF _ this, of dt] assms(1) obtain w1 where
    w1: "ProcessInput (ServerPacket_new p i t) dt ?v = Inr w1" "live w1 = live w - {i}" "same_frame ?v w1" by auto
  then have "qdata (game_in w1) = ServerPacket_new q i u # rest" by (simp add: same_frame_def)
  from process_inputs_Cons[OF this] process_inputs_Cons[OF assms(2)] w1 show ?thesis
    using ProcessInput_dead[of "ServerPacket_new q i u" "set_game_in \<lparr>qdata = rest\<rparr> w1" dt] op by (simp add: sp)
qed

section \<open>Announcing a player\<close>

definition player_bytes :: "Player \<Rightarrow> u8 list" where
  "player_bytes p = be (player_id p) @ be (GetX p) @ be (GetY p) @ be (GetWidth p) @ be (GetHeight p)"

definition others :: "size_t \<Rightarrow> (size_t, Player option) umap \<Rightarrow> Player list" where
  "others i ps = concat (map (\<lambda>(k, e). case e of Some p \<Rightarrow> if k \<noteq> i then [p] else [] | None \<Rightarrow> []) ps)"

lemma put_player_body:
  "body np = Some b \<Longrightarrow> body (put_player p np) = Some (b @ player_bytes p)"
  "GetHeadOpcode (put_player p np) = GetHeadOpcode np" "packet_ok (put_player p np)"
  by (simp_all add: put_player_def put_body player_bytes_def put_ok)

lemma spawn_fold:
  "rfold (\<lambda>(k, e) np. if k \<noteq> i then (case e of None \<Rightarrow> Inl NullDeref | Some p \<Rightarrow> Inr (put_player p np)) else Inr np) ps np0 = Inr np \<Longrightarrow>
   body np0 = Some b \<Longrightarrow> packet_ok np0 \<Longrightarrow>
   body np = Some (b @ concat (map player_bytes (others i ps))) \<and> GetHeadOpcode np = GetHeadOpcode np0 \<and> packet_ok np"
proof (induction ps arbitrary: np0 b)
  case (Cons x ps)
  obtain k e where x: "x = (k, e)" by force
  show ?case
  proof (cases "k = i")
    case True
    with Cons x show ?thesis by (auto simp: others_def split: option.splits)
  next
    case False
    with Cons.prems x obtain p where e: "e = Some p" by (auto split: option.splits)
    with Cons.prems x False have "rfold (\<lambda>(k, e) np. if k \<noteq> i then (case e of None \<Rightarrow> Inl NullDeref | Some p \<Rightarrow> Inr (put_player p np)) else Inr np) ps (put_player p np0) = Inr np" by simp
    from Cons.IH[OF this put_player_body(1)[OF Cons.prems(2)] put_player_body(3)] False e x show ?thesis
      by (simp add: others_def put_player_body)
  qed
qed (simp add: others_def)

lemma spawn_packet_layout:
  assumes "spawn_packet i ps = Inr np"
  shows "body np = Some (be (of_nat (length ps) - 1 :: size_t) @ concat (map player_bytes (others i ps)))"
    "GetHeadOpcode np = to_uint16 SpawnPlayers" "packet_ok np"
  using spawn_fold[OF assms[unfolded spawn_packet_def], of "be (of_nat (length ps) - 1 :: size_t)"]
  by (simp_all add: put_body put_ok)

text \<open>
  C33. Adding a player sends, in this order, its own record to it, the records of all other
  players to it, and its record to all others. The second packet starts with the number of the
  other players, and its body is their records in table order, none missing and none twice.
\<close>

theorem AddPlayer_announces:
  assumes "um_wf (players w)" "World_AddPlayer p w = Inr w'"
  shows "\<exists>spawn. qdata (game_out w') = qdata (game_out w) @
      [ServerPacket_new (CreatePlayerPacket (player_id p) (GetX p) (GetY p) (GetWidth p) (GetHeight p)) (player_id p) Rpc,
       ServerPacket_new spawn (player_id p) Rpc,
       ServerPacket_new (AddPlayerPacket (player_id p) (GetX p) (GetY p) (GetWidth p) (GetHeight p)) (player_id p) RpcOthers] \<and>
    GetHeadOpcode spawn = to_uint16 SpawnPlayers \<and> packet_ok spawn \<and>
    body spawn = Some (be (of_nat (card (live w - {player_id p})) :: size_t) @
      concat (map player_bytes (others (player_id p) (players w')))) \<and>
    map_of (players w') = (map_of (players w))(player_id p \<mapsto> Some p)"
proof -
  define ps where "ps = AList.update (player_id p) (Some p) (players w)"
  obtain np where np: "spawn_packet (player_id p) ps = Inr np" "players w' = ps"
    "qdata (game_out w') = qdata (game_out w) @
      [ServerPacket_new (CreatePlayerPacket (player_id p) (GetX p) (GetY p) (GetWidth p) (GetHeight p)) (player_id p) Rpc,
       ServerPacket_new np (player_id p) Rpc,
       ServerPacket_new (AddPlayerPacket (player_id p) (GetX p) (GetY p) (GetWidth p) (GetHeight p)) (player_id p) RpcOthers]"
    using assms(2) by (auto simp: World_AddPlayer_def Let_def ps_def)
  have lk: "map_of ps = (map_of (players w))(player_id p \<mapsto> Some p)" by (simp add: ps_def update_conv')
  have wf: "um_wf ps" using assms(1) by (simp add: ps_def um.invar_store)
  have "length ps = card (insert (player_id p) (live w))" using um.size_card[OF wf] lk by (simp add: live_def)
  also have "\<dots> = Suc (card (live w - {player_id p}))"
    by (subst card.insert_remove) (simp_all add: live_def finite_dom_map_of)
  finally have "(of_nat (length ps) - 1 :: size_t) = of_nat (card (live w - {player_id p}))" by simp
  with np lk spawn_packet_layout[OF np(1)] show ?thesis by auto
qed

section \<open>Output of a tick\<close>

lemma flush_out_eq:
  "flush_out w = Inr (set_out_queues \<lparr>qdata = []\<rparr> \<lparr>qdata = qdata (net_out w) @ qdata (game_out w)\<rparr> w)"
proof (induction "qdata (game_out w)" arbitrary: w)
  case Nil
  then have "game_out w = \<lparr>qdata = []\<rparr>" by (cases "game_out w") simp
  with Nil show ?case by (subst flush_out.simps) (simp add: Empty_def set_out_queues_def)
next
  case (Cons p ps)
  let ?w = "set_out_queues \<lparr>qdata = ps\<rparr> (Push (net_out w) p) w"
  have "flush_out w = flush_out ?w"
    using Cons.hyps(2)[symmetric] by (subst flush_out.simps) (simp add: Empty_def TryPop_Cons)
  moreover have "qdata (game_out ?w) = ps" by (simp add: set_out_queues_def)
  ultimately show ?case using Cons.hyps(1)[of ?w] Cons.hyps(2)[symmetric] by (simp add: set_out_queues_def Push_def)
qed

definition fallen :: "f64 \<Rightarrow> Player \<Rightarrow> Player" where
  "fallen dt p = SetVel (GetVelX p) (f64_add (GetVelY p) (f64_mul gravity dt)) p"

definition move_packet :: "Player \<Rightarrow> ServerPacket" where
  "move_packet p = ServerPacket_new (MovePlayerPacket (player_id p) (GetX p) (GetY p)) (player_id p) Broadcast"

lemma Update_eq: "Update p dt w = rbind (World_MovePlayer w (fallen dt p)) (\<lambda>p'. Inr (p', push_out (move_packet p') w))"
  by (simp add: Update_def fallen_def move_packet_def)

lemma MovePlayer_frame: "world_config w' = world_config w \<Longrightarrow> tile_map w' = tile_map w \<Longrightarrow> World_MovePlayer w' = World_MovePlayer w"
proof -
  assume "world_config w' = world_config w" "tile_map w' = tile_map w"
  then have "swept_axis w' = swept_axis w" by (intro ext) (simp add: swept_axis_def)
  then show ?thesis by (intro ext) (simp only: World_MovePlayer_def move_x_def move_y_def)
qed

lemma update_in_place: "i \<notin> fst ` set xs \<Longrightarrow> AList.update i v (xs @ (i, e) # ys) = xs @ (i, v) # ys"
  by (induction xs) auto

lemma MovePlayer_id: "World_MovePlayer w p = Inr p' \<Longrightarrow> player_id p' = player_id p"
  by (auto simp: World_MovePlayer_def move_x_def move_y_def Let_def split: if_splits)


text \<open>The physics phase, player by player in table order.\<close>

definition update_step :: "f64 \<Rightarrow> size_t \<times> Player option \<Rightarrow> 'a World_scheme \<Rightarrow> 'a World_scheme res" where
  "update_step dt x w = (case snd x of
       None \<Rightarrow> Inl NullDeref
     | Some p \<Rightarrow> rbind (World_MovePlayer w (fallen dt p)) (\<lambda>p'.
         Inr (push_out (move_packet p') (w\<lparr>players := AList.update (fst x) (Some p') (players w)\<rparr>))))"

lemma update_players_steps: "update_players dt w = rfold (update_step dt) (players w) w"
proof -
  have "push_out q (u\<lparr>players := ps\<rparr>) = (push_out q u)\<lparr>players := ps\<rparr>" for q ps and u :: "'a World_scheme"
    by (simp add: push_out_def)
  then have "(\<lambda>(i, e) w. case e of None \<Rightarrow> Inl NullDeref | Some p \<Rightarrow> rbind (Update p dt w) (\<lambda>(p', w').
            Inr (w'\<lparr>players := AList.update i (Some p') (players w')\<rparr>))) = (update_step dt :: _ \<Rightarrow> 'a World_scheme \<Rightarrow> _)"
    by (intro ext) (auto simp: update_step_def Update_eq split: option.splits intro!: rbind_cong)
  then show ?thesis by (simp only: update_players_def)
qed

definition moved_to :: "'a World_scheme \<Rightarrow> f64 \<Rightarrow> size_t \<times> Player option \<Rightarrow> size_t \<times> Player option \<Rightarrow> bool" where
  "moved_to w dt x y \<longleftrightarrow> fst y = fst x \<and>
     (\<exists>p p'. snd x = Some p \<and> snd y = Some p' \<and> World_MovePlayer w (fallen dt p) = Inr p')"

lemma update_steps:
  "rfold (update_step dt) ys w = Inr w' \<Longrightarrow> players w = xs @ ys \<Longrightarrow> um_wf (players w) \<Longrightarrow>
   \<exists>zs. players w' = xs @ zs \<and> list_all2 (moved_to w dt) ys zs \<and>
     qdata (game_out w') = qdata (game_out w) @ map (\<lambda>z. move_packet (the (snd z))) zs \<and>
     game_in w' = game_in w \<and> net_subsystem w' = net_subsystem w \<and>
     world_config w' = world_config w \<and> tile_map w' = tile_map w"
proof (induction ys arbitrary: w xs)
  case (Cons y ys)
  obtain i e where y: "y = (i, e)" by force
  from Cons.prems(1) obtain p p' where p: "e = Some p" "World_MovePlayer w (fallen dt p) = Inr p'"
    and r: "rfold (update_step dt) ys (push_out (move_packet p') (w\<lparr>players := AList.update i (Some p') (players w)\<rparr>)) = Inr w'"
    by (auto simp: update_step_def[of dt "(i, e)"] y split: option.splits)
  let ?w = "push_out (move_packet p') (w\<lparr>players := AList.update i (Some p') (players w)\<rparr>)"
  have "i \<notin> fst ` set xs" using Cons.prems(2,3) by (auto simp: um_wf_def y)
  then have pl: "players ?w = (xs @ [(i, Some p')]) @ ys" using Cons.prems(2) by (simp add: y update_in_place)
  have "um_wf (players ?w)" using Cons.prems(3) by (simp add: um.invar_store)
  from Cons.IH[OF r pl this] obtain zs where zs: "players w' = (xs @ [(i, Some p')]) @ zs"
    "list_all2 (moved_to ?w dt) ys zs" "qdata (game_out w') = qdata (game_out ?w) @ map (\<lambda>z. move_packet (the (snd z))) zs"
    "game_in w' = game_in ?w" "net_subsystem w' = net_subsystem ?w" "world_config w' = world_config ?w" "tile_map w' = tile_map ?w" by blast
  have "moved_to ?w dt = moved_to w dt" by (intro ext) (simp add: moved_to_def MovePlayer_frame[of ?w w])
  moreover have "qdata (game_out (w\<lparr>players := ps\<rparr>)) = qdata (game_out w)" for ps by simp
  moreover have "moved_to w dt y (i, Some p')" using p by (simp add: moved_to_def y)
  ultimately show ?case using zs by (intro exI[of _ "(i, Some p') # zs"]) simp
qed simp


lemma update_step_frame:
  "update_step dt y w = Inr w' \<Longrightarrow> world_config w' = world_config w \<and> tile_map w' = tile_map w"
  by (auto simp: update_step_def split: option.splits)

lemma update_steps_fault:
  "rfold (update_step dt) ys w = Inl f \<Longrightarrow> (\<And>y. y \<in> set ys \<Longrightarrow> snd y \<noteq> None) \<Longrightarrow> \<exists>p. World_MovePlayer w p = Inl f"
proof (induction ys arbitrary: w)
  case (Cons y ys)
  from Cons.prems(2)[of y] obtain p where p: "snd y = Some p" by auto
  show ?case
  proof (cases "update_step dt y w")
    case (Inl g)
    with Cons.prems(1) p show ?thesis by (auto simp: update_step_def rbind_eq_Inl)
  next
    case (Inr w1)
    with Cons have "\<exists>p. World_MovePlayer w1 p = Inl f" by auto
    with update_step_frame[OF Inr] show ?thesis using MovePlayer_frame[of w1 w] by simp
  qed
qed simp

lemma stop_players_ok:
  assumes "world_ok w"
  shows "\<exists>w'. stop_players w = Inr w' \<and> world_ok w' \<and> live w' = live w \<and> same_frame w w' \<and> game_out w' = game_out w"
proof -
  let ?P = "\<lambda>w'. world_ok w' \<and> live w' = live w \<and> same_frame w w' \<and> game_out w' = game_out w"
  have "\<exists>t. rfold (\<lambda>(i, e). with_player i (\<lambda>p. SetVel f64_zero (GetVelY p) p)) (players w) w = Inr t \<and> ?P t"
  proof (rule rfold_total)
    fix x :: "size_t \<times> Player option" and s :: "'a World_scheme"
    assume x: "x \<in> set (players w)" and s: "?P s"
    obtain i e where ie: "x = (i, e)" by force
    have "i \<in> live s" using x s by (auto simp: ie live_def dom_map_of_conv_image_fst intro: rev_image_eqI)
    from with_player_ok[OF _ this, of "\<lambda>p. SetVel f64_zero (GetVelY p) p"] s obtain t where
      t: "with_player i (\<lambda>p. SetVel f64_zero (GetVelY p) p) s = Inr t" "world_ok t" "live t = live s" "same_frame s t" by auto
    then have "game_out t = game_out s" by (auto simp: with_player_def split: option.splits)
    with t s show "\<exists>t. (case x of (i, e) \<Rightarrow> with_player i (\<lambda>p. SetVel f64_zero (GetVelY p) p)) s = Inr t \<and> ?P t"
      by (auto simp: ie dest: same_frame_trans)
  qed (simp add: assms same_frame_def)
  then show ?thesis by (simp add: stop_players_def)
qed

lemma ProcessInput_appends: "ProcessInput sp dt w = Inr w' \<Longrightarrow> \<exists>ev. qdata (game_out w') = qdata (game_out w) @ ev"
  by (auto simp: ProcessInput_def World_AddPlayer_def World_RemovePlayer_def with_player_def Let_def
      split: Opcodes.splits option.splits)

lemma process_inputs_appends: "process_inputs dt w = Inr w' \<Longrightarrow> \<exists>ev. qdata (game_out w') = qdata (game_out w) @ ev"
proof (induction "qdata (game_in w)" arbitrary: w)
  case Nil
  then show ?case by (simp add: process_inputs_Nil)
next
  case (Cons sp sps)
  let ?v = "set_game_in \<lparr>qdata = sps\<rparr> w"
  from Cons.prems process_inputs_Cons[OF Cons.hyps(2)[symmetric], of dt] obtain w1 where
    w1: "ProcessInput sp dt ?v = Inr w1" "process_inputs dt w1 = Inr w'" by auto
  then have "sps = qdata (game_in w1)" using ProcessInput_game_in[OF w1(1)] by simp
  from Cons.hyps(1)[OF this w1(2)] ProcessInput_appends[OF w1(1)] show ?case by auto
qed

lemma swap_in_queues_simps [simp]:
  "game_in (swap_in_queues w) = \<lparr>qdata = qdata (net_in w)\<rparr>" "net_in (swap_in_queues w) = \<lparr>qdata = qdata (game_in w)\<rparr>"
  "game_out (swap_in_queues w) = game_out w" "net_out (swap_in_queues w) = net_out w"
  "players (swap_in_queues w) = players w" "world_config (swap_in_queues w) = world_config w"
  "tile_map (swap_in_queues w) = tile_map w"
  by (cases "game_in w", cases "net_in w", simp_all add: swap_in_queues_def TSSwap_def Let_def)+

text \<open>The state of a tick before its physics phase.\<close>

lemma tick_inputs:
  assumes "world_ok w" "lives (live w) (qdata (net_in w)) = Some L"
  obtains w2 where "Tick dt w = rbind (update_players dt w2) flush_out" "world_ok w2" "live w2 = L"
    "qdata (game_in w2) = []" "net_in w2 = \<lparr>qdata = qdata (game_in w)\<rparr>" "net_out w2 = net_out w"
    "world_config w2 = world_config w" "tile_map w2 = tile_map w"
    "\<exists>ev. qdata (game_out w2) = qdata (game_out w) @ ev"
proof -
  have "world_ok (swap_in_queues w)" "live (swap_in_queues w) = live w" using assms(1) by (simp_all add: world_ok_def live_def)
  with stop_players_ok[of "swap_in_queues w"] obtain w1 where w1: "stop_players (swap_in_queues w) = Inr w1"
    "world_ok w1" "live w1 = live w" "same_frame (swap_in_queues w) w1" "game_out w1 = game_out w" by auto
  have "lives (live w1) (qdata (game_in w1)) = Some L" using w1 assms(2) by (simp add: same_frame_def)
  from process_inputs_refines[OF w1(2) this, of dt] obtain w2 where w2: "process_inputs dt w1 = Inr w2" "world_ok w2" "live w2 = L"
    "qdata (game_in w2) = []" "net_subsystem w2 = net_subsystem w1" "world_config w2 = world_config w1" "tile_map w2 = tile_map w1" by blast
  show thesis
    using w1 w2 process_inputs_appends[OF w2(1)] by (intro that[of w2]) (simp_all add: Tick_def same_frame_def)
qed

lemma list_all2_source: "list_all2 P xs ys \<Longrightarrow> y \<in> set ys \<Longrightarrow> \<exists>x\<in>set xs. P x y"
  by (induction rule: list_all2_induct) auto

lemma tick_physics:
  assumes "update_players dt w2 = Inr w3" "world_ok w2"
  shows "world_ok w3" "live w3 = live w2" "list_all2 (moved_to w2 dt) (players w2) (players w3)"
    "qdata (game_out w3) = qdata (game_out w2) @ map (\<lambda>z. move_packet (the (snd z))) (players w3)"
    "game_in w3 = game_in w2" "net_subsystem w3 = net_subsystem w2"
proof -
  have wf: "um_wf (players w2)" using assms(2) by (simp add: world_ok_def)
  note u = update_steps[OF assms(1)[unfolded update_players_steps] append_Nil[symmetric] wf]
  then show m: "list_all2 (moved_to w2 dt) (players w2) (players w3)" by (metis append_Nil)
  from u show "qdata (game_out w3) = qdata (game_out w2) @ map (\<lambda>z. move_packet (the (snd z))) (players w3)" by (metis append_Nil)
  from u show "game_in w3 = game_in w2" "net_subsystem w3 = net_subsystem w2" by (metis append_Nil)+
  have k: "map fst (players w3) = map fst (players w2)"
    using m by (induction rule: list_all2_induct) (simp_all add: moved_to_def)
  then show "live w3 = live w2" by (simp only: live_def dom_map_of_conv_image_fst image_set)
  have "case e of None \<Rightarrow> False | Some p \<Rightarrow> player_id p = i" if "(i, e) \<in> set (players w3)" for i e
  proof -
    from list_all2_source[OF m that] obtain x p p' where x: "x \<in> set (players w2)" "fst x = i" "snd x = Some p" "e = Some p'"
      "World_MovePlayer w2 (fallen dt p) = Inr p'" by (auto simp: moved_to_def)
    moreover have "player_id p = i" using x(1-3) assms(2) by (cases x) (auto simp: world_ok_def)
    ultimately show ?thesis using MovePlayer_id[OF x(5)] by (simp add: fallen_def)
  qed
  with k wf show "world_ok w3" by (auto simp: world_ok_def um_wf_def)
qed

lemma tick_result:
  assumes "world_ok w" "lives (live w) (qdata (net_in w)) = Some L" "Empty (game_in w)" "Tick dt w = Inr w'"
  shows "world_ok w' \<and> live w' = L \<and> Empty (net_in w') \<and> Empty (game_in w') \<and> Empty (game_out w') \<and>
    (\<exists>events. qdata (net_out w') = qdata (net_out w) @ qdata (game_out w) @ events @
       map (\<lambda>z. move_packet (the (snd z))) (players w'))"
proof -
  from tick_inputs[OF assms(1,2), of dt] obtain w2 ev where w2: "Tick dt w = rbind (update_players dt w2) flush_out"
    "world_ok w2" "live w2 = L" "qdata (game_in w2) = []" "net_in w2 = \<lparr>qdata = qdata (game_in w)\<rparr>" "net_out w2 = net_out w"
    "qdata (game_out w2) = qdata (game_out w) @ ev" by metis
  with assms(4) obtain w3 where w3: "update_players dt w2 = Inr w3" "flush_out w3 = Inr w'" by auto
  note t = tick_physics[OF w3(1) w2(2)]
  have w': "w' = set_out_queues \<lparr>qdata = []\<rparr> \<lparr>qdata = qdata (net_out w3) @ qdata (game_out w3)\<rparr> w3"
    using w3(2) by (simp add: flush_out_eq)
  have "world_ok w'" "live w' = L" using t(1,2) w2(3) by (simp_all add: w' set_out_queues_def world_ok_def live_def)
  moreover have "Empty (net_in w')" "Empty (game_in w')" "Empty (game_out w')"
    using t(5,6) w2(4,5) assms(3) by (simp_all add: w' set_out_queues_def Empty_def)
  moreover have "qdata (net_out w') = qdata (net_out w) @ qdata (game_out w) @ ev @ map (\<lambda>z. move_packet (the (snd z))) (players w')"
    using t(4,6) w2(6,7) by (simp add: w' set_out_queues_def)
  ultimately show ?thesis by blast
qed

lemma tick_fault_source:
  assumes "world_ok w" "lives (live w) (qdata (net_in w)) = Some L"
  shows "(\<exists>w'. Tick dt w = Inr w') \<or> (\<exists>f p. Tick dt w = Inl f \<and> World_MovePlayer w p = Inl f)"
proof -
  obtain w2 where w2: "Tick dt w = rbind (update_players dt w2) flush_out" "world_ok w2"
    "world_config w2 = world_config w" "tile_map w2 = tile_map w"
    by (rule tick_inputs[OF assms, of dt])
  show ?thesis
  proof (cases "update_players dt w2")
    case (Inl f)
    have "\<And>y. y \<in> set (players w2) \<Longrightarrow> snd y \<noteq> None" using w2(2) by (fastforce simp: world_ok_def split: option.splits)
    with Inl update_steps_fault[of dt "players w2" w2 f] have "\<exists>p. World_MovePlayer w2 p = Inl f"
      by (simp add: update_players_steps)
    with Inl w2 show ?thesis using MovePlayer_frame[of w2 w] by auto
  qed (simp add: w2(1) flush_out_eq)
qed

text \<open>A tick changes nothing of the record that extends the world.\<close>

lemma with_player_more: "with_player i f w = Inr w' \<Longrightarrow> World.more w' = World.more w"
  by (auto simp: with_player_def split: option.splits)

lemma push_out_more [simp]: "World.more (push_out p w) = World.more w"
  by (simp add: push_out_def)

lemma with_player_net: "with_player i f w = Inr w' \<Longrightarrow> net_subsystem w' = net_subsystem w"
  by (auto simp: with_player_def split: option.splits)

lemma ProcessInput_more:
  "ProcessInput sp dt w = Inr w' \<Longrightarrow> World.more w' = World.more w \<and> net_subsystem w' = net_subsystem w"
  by (auto simp: ProcessInput_def World_AddPlayer_def World_RemovePlayer_def Let_def
      split: Opcodes.splits option.splits dest: with_player_more with_player_net)

lemma process_inputs_more:
  "process_inputs dt w = Inr w' \<Longrightarrow> World.more w' = World.more w \<and> net_subsystem w' = net_subsystem w"
proof (induction "qdata (game_in w)" arbitrary: w)
  case Nil
  then show ?case by (simp add: process_inputs_Nil)
next
  case (Cons sp sps)
  from Cons.prems process_inputs_Cons[OF Cons.hyps(2)[symmetric], of dt] obtain w1 where
    w1: "ProcessInput sp dt (set_game_in \<lparr>qdata = sps\<rparr> w) = Inr w1" "process_inputs dt w1 = Inr w'" by auto
  then have "sps = qdata (game_in w1)" using ProcessInput_game_in[OF w1(1)] by simp
  from Cons.hyps(1)[OF this w1(2)] ProcessInput_more[OF w1(1)] show ?case by (simp add: set_game_in_def)
qed

lemma process_inputs_consumes: "process_inputs dt w = Inr w' \<Longrightarrow> qdata (game_in w') = []"
proof (induction "qdata (game_in w)" arbitrary: w)
  case Nil
  then show ?case by (simp add: process_inputs_Nil)
next
  case (Cons sp sps)
  from Cons.prems process_inputs_Cons[OF Cons.hyps(2)[symmetric], of dt] obtain w1 where
    w1: "ProcessInput sp dt (set_game_in \<lparr>qdata = sps\<rparr> w) = Inr w1" "process_inputs dt w1 = Inr w'" by auto
  then have "sps = qdata (game_in w1)" using ProcessInput_game_in[OF w1(1)] by simp
  from Cons.hyps(1)[OF this w1(2)] show ?case .
qed

lemma update_players_more:
  assumes "update_players dt w = Inr w'"
  shows "World.more w' = World.more w \<and> net_subsystem w' = net_subsystem w \<and> (\<exists>ev. qdata (game_out w') = qdata (game_out w) @ ev)"
  by (rule rfold_invariant[OF assms[unfolded update_players_steps]]) (auto simp: update_step_def split: option.splits)

lemma Tick_more: "Tick dt w = Inr w' \<Longrightarrow> World.more w' = World.more w"
proof -
  assume "Tick dt w = Inr w'"
  then obtain w1 w2 w3 where w: "stop_players (swap_in_queues w) = Inr w1" "process_inputs dt w1 = Inr w2"
    "update_players dt w2 = Inr w3" "flush_out w3 = Inr w'"
    by (auto simp: Tick_def)
  have "World.more w1 = World.more (swap_in_queues w)"
    by (rule rfold_invariant[OF w(1)[unfolded stop_players_def]]) (auto dest: with_player_more)
  then show ?thesis using process_inputs_more[OF w(2)] update_players_more[OF w(3)] w(4)
    by (auto simp: flush_out_eq set_out_queues_def swap_in_queues_def TSSwap_def Let_def)
qed

text \<open>
  A tick whose packets address live players cannot fail outside the collision test: it
  completes, or \<open>MovePlayer\<close> faults for some player on the map of this world.
\<close>

lemma Tick_faults:
  assumes "world_ok w" "lives (live w) (qdata (net_in w)) = Some L"
  shows "(\<exists>w'. Tick dt w = Inr w') \<or> (\<exists>f p. Tick dt w = Inl f \<and> World_MovePlayer w p = Inl f)"
  by (rule tick_fault_source[OF assms])

section \<open>Concrete worlds\<close>

definition wit_cfg :: GameConfig where
  "wit_cfg = \<lparr>tick_rate = 60, game_threads = 4, tile_size = 32, grid_x = 2, grid_y = 2, map_data = [1, 0, 0, 1],
     player_config = \<lparr>pc_width = 15, pc_height = 25, player_start_x = 1, player_start_y = 0, player_offset = 5\<rparr>\<rparr>"

definition wit_world :: "ServerPacket list \<Rightarrow> ServerPacket list \<Rightarrow> World" where
  "wit_world ns gs =
     \<lparr>net_subsystem = \<lparr>net_in_queue = \<lparr>qdata = ns\<rparr>, net_out_queue = TSQueue_new\<rparr>,
      game_subsystem = \<lparr>game_in_queue = \<lparr>qdata = gs\<rparr>, game_out_queue = TSQueue_new\<rparr>,
      world_config = wit_cfg, players = [], tile_map = []\<rparr>"

definition wit_packet :: "Opcodes \<Rightarrow> ServerPacket" where
  "wit_packet c = ServerPacket_new (NetPacket_of c) 7 Broadcast"

lemma wit_opcode: "GetHeadOpcode (NetPacket_of c) = to_uint16 c"
  by (simp add: NetPacket_of_def GetHeadOpcode_def)

lemma wit_packet_simps: "packet (wit_packet c) = NetPacket_of c" "sp_id (wit_packet c) = 7"
  by (simp_all add: wit_packet_def ServerPacket_new_def NetPacket_move_def)

lemma wit_ok: "world_ok (wit_world ns gs)" "live (wit_world ns gs) = {}"
  by (simp_all add: world_ok_def live_def wit_world_def um_wf_def)

lemma wit_lives: "lives {} [wit_packet CreatePlayer, wit_packet MoveLeft] = Some {7}"
  by (simp add: live_after_def wit_packet_simps wit_opcode to_opcode_def)

lemma World_new_map_witness:
  "\<exists>w. World_new \<lparr>net_in_queue = TSQueue_new, net_out_queue = TSQueue_new\<rparr>
       \<lparr>game_in_queue = TSQueue_new, game_out_queue = TSQueue_new\<rparr> wit_cfg = Inr w \<and>
     grid_map 32 2 2 (tile_map w) \<and> tile_type (tile_map w ! 3) = Solid"
  using World_new_map[of wit_cfg 4 "\<lparr>net_in_queue = TSQueue_new, net_out_queue = TSQueue_new\<rparr>"
      "\<lparr>game_in_queue = TSQueue_new, game_out_queue = TSQueue_new\<rparr>"]
  by (auto simp: wit_cfg_def cell_count_def)

theorem inputs_refine_live_set_witness:
  "\<exists>w'. process_inputs f64_zero (wit_world [] [wit_packet CreatePlayer, wit_packet MoveLeft]) = Inr w' \<and>
     world_ok w' \<and> live w' = {7} \<and> Empty (game_in w') \<and>
   process_inputs f64_zero (wit_world [] [wit_packet MoveLeft]) = Inl NullDeref"
proof -
  have q: "game_in (wit_world [] gs) = \<lparr>qdata = gs\<rparr>" "um_wf (players (wit_world [] gs))" for gs by (simp_all add: wit_world_def um_wf_def)
  have "shape_after (shape (wit_world [] [wit_packet MoveLeft])) (wit_packet MoveLeft) = None"
    by (simp add: shape_after_def shape_def wit_packet_simps wit_opcode to_opcode_def wit_world_def)
  then have "process_inputs f64_zero (wit_world [] [wit_packet MoveLeft]) = Inl NullDeref"
    using inputs_refine_live_set[OF q(2)[of "[wit_packet MoveLeft]"], of f64_zero] q(1)[of "[wit_packet MoveLeft]"] by simp
  moreover have "lives (live (wit_world [] [wit_packet CreatePlayer, wit_packet MoveLeft])) [wit_packet CreatePlayer, wit_packet MoveLeft] = Some {7}"
    using wit_lives by (simp add: wit_ok del: lives.simps)
  then have "\<exists>w'. process_inputs f64_zero (wit_world [] [wit_packet CreatePlayer, wit_packet MoveLeft]) = Inr w' \<and>
      world_ok w' \<and> live w' = {7} \<and> Empty (game_in w')"
    using inputs_refine_live_set[OF q(2)[of "[wit_packet CreatePlayer, wit_packet MoveLeft]"], of f64_zero, THEN conjunct2, THEN spec[of _ "{7}"]]
      q(1)[of "[wit_packet CreatePlayer, wit_packet MoveLeft]"] wit_ok(1)[of "[]" "[wit_packet CreatePlayer, wit_packet MoveLeft]"] by simp
  ultimately show ?thesis by blast
qed

theorem client_can_crash_world_witness:
  "process_inputs f64_zero (wit_world [] [wit_packet RemovePlayer, wit_packet MoveLeft]) = Inl NullDeref"
  by (rule client_can_crash_world[OF wit_ok(1), of _ _ "NetPacket_of RemovePlayer" 7 Broadcast "NetPacket_of MoveLeft" Broadcast "[]"])
    (simp_all add: wit_world_def wit_packet_def wit_opcode)

theorem AddPlayer_announces_witness:
  "\<exists>w'. World_AddPlayer (new_player wit_cfg 7) (wit_world [] []) = Inr w' \<and> length (qdata (game_out w')) = 3"
proof -
  obtain w' where w: "World_AddPlayer (new_player wit_cfg 7) (wit_world [] []) = Inr w'"
    using World_AddPlayer_ok[of "wit_world [] []" "new_player wit_cfg 7"] by (auto simp: wit_world_def um_wf_def)
  have "um_wf (players (wit_world [] []))" "qdata (game_out (wit_world [] [])) = []"
    by (simp_all add: wit_world_def um_wf_def TSQueue_new_def)
  with AddPlayer_announces[OF _ w] w show ?thesis by auto
qed

text \<open>One player at rest and no input.\<close>

definition wit_rest :: World where
  "wit_rest = (wit_world [] [])\<lparr>players := [(7, Some (new_player wit_cfg 7))]\<rparr>"

lemma wit_rest_ok: "world_ok wit_rest" "live wit_rest = {7}" "qdata (net_in wit_rest) = []" "qdata (game_in wit_rest) = []"
  by (simp_all add: world_ok_def live_def wit_rest_def wit_world_def um_wf_def)

text \<open>A player without velocity does not move in a tick of length 0.\<close>

lemma rest_move:
  assumes "GetVelX p = f64_zero" "GetVelY p = f64_zero"
  shows "World_MovePlayer w (fallen f64_zero p) = Inr (fallen f64_zero p)"
proof -
  have g: "is_fin gravity" "\<not> f64_neg gravity" by code_simp+
  have "\<not> f64_neg f64_zero" "f64_make False 0 = f64_zero" by (simp_all add: f64_neg_def f64_make_def)
  with g have "f64_add f64_zero (f64_mul gravity f64_zero) = f64_zero"
    by (simp add: f64_mul_fin f64_add_fin f64_round_zero)
  moreover have "f64_eq f64_zero f64_zero" by (simp add: f64_eq_def)
  ultimately show ?thesis by (simp add: World_MovePlayer_def move_x_def move_y_def fallen_def assms SetVel_def)
qed

lemma wit_tick: "\<exists>w'. Tick f64_zero wit_rest = Inr w'"
proof -
  define p where "p = SetVel f64_zero f64_zero (new_player wit_cfg 7)"
  have p: "GetVelX p = f64_zero" "GetVelY p = f64_zero" by (simp_all add: p_def SetVel_def)
  have "stop_players (swap_in_queues wit_rest) = Inr ((swap_in_queues wit_rest)\<lparr>players := [(7, Some p)]\<rparr>)"
    by (simp add: stop_players_def with_player_def wit_rest_def p_def) (simp add: new_player_def Player_new_def)
  moreover have "process_inputs f64_zero ((swap_in_queues wit_rest)\<lparr>players := ps\<rparr>) = Inr ((swap_in_queues wit_rest)\<lparr>players := ps\<rparr>)" for ps
    by (rule process_inputs_Nil) (simp add: wit_rest_ok)
  ultimately show ?thesis
    by (simp add: Tick_def update_players_steps update_step_def flush_out_eq rest_move[OF p])
qed

lemma Tick_faults_witness:
  "(\<exists>w'. Tick f64_zero wit_rest = Inr w') \<or>
   (\<exists>f p. Tick f64_zero wit_rest = Inl f \<and> World_MovePlayer wit_rest p = Inl f)"
  by (rule Tick_faults[OF wit_rest_ok(1), of "{7}"]) (simp add: wit_rest_ok)

end
