(* ===== verification/WorldPhysics.thy ===== *)
theory WorldPhysics
  imports Contact WorldLogic
begin

text \<open>
  Moving a player through the world: the step of each axis is the velocity scaled by the entry
  time of the sweep, and stays between rest and the full velocity.
\<close>

section \<open>One axis\<close>


lemma between_bound: "min 0 v \<le> m \<Longrightarrow> m \<le> max 0 v \<Longrightarrow> \<bar>v\<bar> \<le> b \<Longrightarrow> \<bar>m\<bar> \<le> (b :: rat)"
  by (auto simp: min_def max_def split: if_splits)

lemma scaled_step:
  assumes a: "in_field a" and v: "in_field v" and e: "is_fin e" "0 \<le> f64_val e" "f64_val e \<le> 1"
  shows "is_fin (f64_add a (f64_mul v e))"
    "min (f64_val a) (f64_val (f64_add a v)) \<le> f64_val (f64_add a (f64_mul v e))"
    "f64_val (f64_add a (f64_mul v e)) \<le> max (f64_val a) (f64_val (f64_add a v))"
    "in_field (f64_mul v e)"
proof -
  let ?v = "f64_val v" and ?e = "f64_val e" and ?a = "f64_val a"
  have fin: "is_fin a" "is_fin v" using a v by simp_all
  have ve: "min 0 ?v \<le> ?v * ?e" "?v * ?e \<le> max 0 ?v"
    using e(2,3) mult_left_mono[of ?e 1 ?v] mult_left_mono_neg[of ?e 1 ?v] mult_nonneg_nonneg[of ?v ?e] mult_nonpos_nonneg[of ?v ?e]
    by (cases "0 \<le> ?v"; simp add: min_def max_def)+
  then have b: "\<bar>?v * ?e\<bar> \<le> 2 ^ 40" using between_bound[OF ve] v by blast
  then have mm: "moderate (?v * ?e)" by simp
  have m: "f64_val (f64_mul v e) = rv (?v * ?e)" "is_fin (f64_mul v e)"
    using f64_mul_val[OF fin(2) e(1) mm] by simp_all
  have z: "rv 0 = 0" using rv_int[of 0] by simp
  have mb: "min 0 ?v \<le> f64_val (f64_mul v e)" "f64_val (f64_mul v e) \<le> max 0 ?v"
  proof -
    have mv: "moderate ?v" using v by simp
    have mi: "moderate (min 0 ?v)" "moderate (max 0 ?v)" using mv by (auto simp: min_def max_def)
    have r: "rv (min 0 ?v) = min 0 ?v" "rv (max 0 ?v) = max 0 ?v" using z rv_val[OF fin(2)] by (auto simp: min_def max_def)
    show "min 0 ?v \<le> f64_val (f64_mul v e)" unfolding m(1) using rv_mono[OF ve(1) mi(1) mm] r by simp
    show "f64_val (f64_mul v e) \<le> max 0 ?v" unfolding m(1) using rv_mono[OF ve(2) mm mi(2)] r by simp
  qed
  show f: "in_field (f64_mul v e)" using between_bound[OF mb] m(2) v by blast
  have a41: "\<bar>?a\<bar> \<le> 2 ^ 41" using a by simp
  note s = moved_side[OF fin(1) a41 f] and t = moved_side[OF fin(1) a41 v]
  show "is_fin (f64_add a (f64_mul v e))" by (rule s(2))
  have ma: "moderate ?a" using a by simp
  have lo: "min ?a (?a + ?v) \<le> ?a + f64_val (f64_mul v e)" and hi: "?a + f64_val (f64_mul v e) \<le> max ?a (?a + ?v)"
    using mb by (auto simp: min_def max_def)
  have "rv (min ?a (?a + ?v)) = min ?a (rv (?a + ?v))" "rv (max ?a (?a + ?v)) = max ?a (rv (?a + ?v))"
    using rv_mono[OF _ ma t(4)] rv_mono[OF _ t(4) ma] rv_val[OF fin(1)] by (auto simp: min_def max_def)
  moreover have "moderate (min ?a (?a + ?v))" "moderate (max ?a (?a + ?v))" using ma t(4) by (auto simp: min_def max_def)
  ultimately show "min ?a (f64_val (f64_add a v)) \<le> f64_val (f64_add a (f64_mul v e))"
    "f64_val (f64_add a (f64_mul v e)) \<le> max ?a (f64_val (f64_add a v))"
    unfolding s(1) t(1) using rv_mono[OF lo _ s(4)] rv_mono[OF hi s(4)] by simp_all
qed

lemma tile_field: "grid_map tile gx gy tiles \<Longrightarrow> gx \<le> 2 ^ 16 \<Longrightarrow> gy \<le> 2 ^ 16 \<Longrightarrow> 0 < tile \<Longrightarrow> k < length tiles \<Longrightarrow>
    tile_type (tiles ! k) \<noteq> Empty_tile \<Longrightarrow> in_field (GetX (tiles ! k)) \<and> in_field (GetY (tiles ! k))"
proof -
  assume g: "grid_map tile gx gy tiles" "gx \<le> 2 ^ 16" "gy \<le> 2 ^ 16" "0 < tile" "k < length tiles" "tile_type (tiles ! k) \<noteq> Empty_tile"
  define i j where "i = k mod gx" and "j = k div gx"
  have "0 < gx" using g(1,5) by (cases gx) (simp_all add: grid_map_def)
  then have ij: "i < gx" "j < gy" "k = j * gx + i"
    using g(1,5) by (simp_all add: i_def j_def grid_map_def less_mult_imp_div_less mult.commute)
  then have "tiles ! k = grid_tile tile i j" using g(1,6) by (simp add: grid_map_def)
  then show ?thesis
    using tile_atD(1)[OF grid_tile_at[of i tile]] tile_atD(1)[OF grid_tile_at[of j tile]] ij g(2-4)
    by (simp add: grid_tile_def Tile_new_def)
qed

text \<open>The sweep of one axis in a world whose map is a grid map.\<close>

definition world_grid :: "'a World_scheme \<Rightarrow> bool" where
  "world_grid w \<longleftrightarrow> 0 < tile_size (world_config w) \<and> 0 < grid_x (world_config w) \<and> 0 < grid_y (world_config w) \<and>
     unat (grid_y (world_config w)) < 256 \<and>
     grid_map (tile_size (world_config w)) (unat (grid_x (world_config w))) (unat (grid_y (world_config w))) (tile_map w)"

lemma swept_axis_range:
  assumes "world_grid w" "in_field (GetX p)" "in_field (GetY p)" "in_field vx" "in_field vy" "swept_axis w p vx vy = Inr sd"
  shows "is_fin (entry_time sd)" "0 \<le> f64_val (entry_time sd)" "f64_val (entry_time sd) \<le> 1" "hit sd \<or> sd = no_hit"
proof -
  let ?c = "world_config w"
  have "sd = no_hit \<or> (\<exists>k<length (tile_map w). tile_type (tile_map w ! k) \<noteq> Empty_tile \<and> sd = SweptAABB p (tile_map w ! k) vx vy)"
    using sweep_source[of p "tile_map w" vx vy _ sd] assms(6) by (auto simp: swept_axis_def SweptAxis_def)
  then have r: "f64_le f64_zero (entry_time sd) \<and> f64_le (entry_time sd) f64_one \<and> (hit sd \<or> sd = no_hit)"
  proof (elim disjE exE conjE)
    assume "sd = no_hit"
    then show ?thesis using one_facts by (simp add: no_hit_def f64_le_fin)
  next
    fix k assume k: "k < length (tile_map w)" "tile_type (tile_map w ! k) \<noteq> Empty_tile" "sd = SweptAABB p (tile_map w ! k) vx vy"
    have "unat (grid_x ?c) \<le> 2 ^ 16" "unat (grid_y ?c) \<le> 2 ^ 16"
      using unsigned_less[of "grid_x ?c", where 'a = nat] unsigned_less[of "grid_y ?c", where 'a = nat] by simp_all
    moreover have "grid_map (tile_size ?c) (unat (grid_x ?c)) (unat (grid_y ?c)) (tile_map w)" "0 < tile_size ?c"
      using assms(1) by (simp_all add: world_grid_def)
    ultimately have "in_field (GetX (tile_map w ! k)) \<and> in_field (GetY (tile_map w ! k))"
      using tile_field[OF _ _ _ _ k(1,2)] by blast
    then show ?thesis using swept_range[of p "tile_map w ! k" vx vy] assms k(3) by simp
  qed
  then show fin: "is_fin (entry_time sd)"
    using one_facts(1) inf_mag_bounds unfolding f64_le_def is_fin_key by simp
  show "0 \<le> f64_val (entry_time sd)" "f64_val (entry_time sd) \<le> 1" "hit sd \<or> sd = no_hit"
    using r fin one_facts by (simp_all add: f64_le_fin)
qed

lemma swept_axis_ok:
  assumes "world_grid w" "in_field (GetX p)" "in_field (GetY p)" "in_field vx" "in_field vy"
    and "0 \<le> f64_val (GetX p)" "0 \<le> f64_val (GetY p)"
    and "0 \<le> f64_val (f64_add (GetX p) vx)" "0 \<le> f64_val (f64_add (GetY p) vy)"
  shows "\<exists>sd. swept_axis w p vx vy = Inr sd \<and> is_fin (entry_time sd) \<and> 0 \<le> f64_val (entry_time sd) \<and> f64_val (entry_time sd) \<le> 1"
proof -
  let ?c = "world_config w"
  have u: "unat (ucast (grid_y ?c) :: u8) = unat (grid_y ?c)"
    using assms(1) by (simp add: world_grid_def unsigned_ucast_eq take_bit_eq_mod)
  have g: "0 < tile_size ?c" "0 < grid_x ?c" "0 < (ucast (grid_y ?c) :: u8)" "unat (grid_x ?c) * unat (ucast (grid_y ?c) :: u8) \<le> length (tile_map w)"
    using assms(1) u by (simp_all add: world_grid_def grid_map_def word_less_nat_alt)
  obtain sd where "swept_axis w p vx vy = Inr sd" using SweptAxis_returns[OF g assms(2-9)] by (auto simp: swept_axis_def)
  with swept_axis_range[OF assms(1-5) this] show ?thesis by blast
qed


lemma zero_step:
  assumes "in_field a"
  shows "f64_val (f64_add a f64_zero) = f64_val a" "in_field (f64_add a f64_zero)"
  using f64_add_val[of a f64_zero] assms by simp_all

lemma Move_simps [simp]: "GetX (Move dx dy p) = f64_add (GetX p) dx" "GetY (Move dx dy p) = f64_add (GetY p) dy"
  "GetWidth (Move dx dy p) = GetWidth p" "GetHeight (Move dx dy p) = GetHeight p"
  by (simp_all add: Move_def)

lemma SetVel_simps [simp]: "GetX (SetVel a b p) = GetX p" "GetY (SetVel a b p) = GetY p"
  "GetWidth (SetVel a b p) = GetWidth p" "GetHeight (SetVel a b p) = GetHeight p"
  "GetX (SetOnGround g p) = GetX p" "GetY (SetOnGround g p) = GetY p"
  "GetWidth (SetOnGround g p) = GetWidth p" "GetHeight (SetOnGround g p) = GetHeight p"
  by (simp_all add: SetVel_def SetOnGround_def)

text \<open>Where a step of one axis may end.\<close>

definition between_steps :: "f64 \<Rightarrow> f64 \<Rightarrow> f64 \<Rightarrow> bool" where
  "between_steps a v a' \<longleftrightarrow> is_fin a' \<and> min (f64_val a) (f64_val (f64_add a v)) \<le> f64_val a' \<and>
     f64_val a' \<le> max (f64_val a) (f64_val (f64_add a v))"

lemma between_stepsD:
  assumes "between_steps a v a'" "in_field a" "in_field (f64_add a v)" "0 \<le> f64_val a" "0 \<le> f64_val (f64_add a v)"
  shows "in_field a'" "0 \<le> f64_val a'"
  using assms by (auto simp: between_steps_def abs_le_iff min_def max_def split: if_splits)

lemma move_x_ok:
  assumes "world_grid w" "in_field (GetX p)" "in_field (GetY p)" "in_field vx" "0 \<le> f64_val (GetX p)" "0 \<le> f64_val (GetY p)"
    and "0 \<le> f64_val (f64_add (GetX p) vx)"
  shows "\<exists>vx' p'. move_x w p vx vy = Inr (vx', p') \<and> between_steps (GetX p) vx (GetX p') \<and>
    f64_val (GetY p') = f64_val (GetY p) \<and> in_field (GetY p') \<and> GetWidth p' = GetWidth p \<and> GetHeight p' = GetHeight p"
proof (cases "f64_eq vx f64_zero")
  case True
  then show ?thesis using assms by (simp add: move_x_def between_steps_def)
next
  case False
  have "\<exists>sd. swept_axis w p vx f64_zero = Inr sd \<and> is_fin (entry_time sd) \<and> 0 \<le> f64_val (entry_time sd) \<and> f64_val (entry_time sd) \<le> 1"
    using assms zero_step(1)[OF assms(3)] by (intro swept_axis_ok) simp_all
  then obtain sd where sd: "swept_axis w p vx f64_zero = Inr sd" "is_fin (entry_time sd)" "0 \<le> f64_val (entry_time sd)" "f64_val (entry_time sd) \<le> 1" by blast
  with False show ?thesis
    using scaled_step[OF assms(2,4) sd(2-4)] zero_step[OF assms(3)] by (simp add: move_x_def Let_def between_steps_def)
qed

lemma move_y_ok:
  assumes "world_grid w" "in_field (GetX p)" "in_field (GetY p)" "in_field vy" "0 \<le> f64_val (GetX p)" "0 \<le> f64_val (GetY p)"
    and "0 \<le> f64_val (f64_add (GetY p) vy)"
  shows "\<exists>p'. move_y w p vx vy = Inr p' \<and> between_steps (GetY p) vy (GetY p') \<and>
    f64_val (GetX p') = f64_val (GetX p) \<and> is_fin (GetX p') \<and> GetWidth p' = GetWidth p \<and> GetHeight p' = GetHeight p"
proof (cases "f64_eq vy f64_zero")
  case True
  then show ?thesis using assms by (simp add: move_y_def between_steps_def)
next
  case False
  have "\<exists>sd. swept_axis w p f64_zero vy = Inr sd \<and> is_fin (entry_time sd) \<and> 0 \<le> f64_val (entry_time sd) \<and> f64_val (entry_time sd) \<le> 1"
    using assms zero_step(1)[OF assms(2)] by (intro swept_axis_ok) simp_all
  then obtain sd where sd: "swept_axis w p f64_zero vy = Inr sd" "is_fin (entry_time sd)" "0 \<le> f64_val (entry_time sd)" "f64_val (entry_time sd) \<le> 1" by blast
  with False show ?thesis
    using scaled_step[OF assms(3,4) sd(2-4)] zero_step[OF assms(2)] by (simp add: move_y_def Let_def between_steps_def)
qed

text \<open>
  C17. \<open>MovePlayer\<close> is defined on a grid map while the full step stays at non-negative
  coordinates, and it never moves a player against its velocity or farther than its velocity:
  each coordinate ends between the old one and the one the full velocity leads to, rounding
  included. The size and the identity of the player do not change.
\<close>

theorem MovePlayer_bounded:
  assumes "world_grid w" "in_field (GetX p)" "in_field (GetY p)" "in_field (GetVelX p)" "in_field (GetVelY p)"
    and "in_field (f64_add (GetX p) (GetVelX p))"
    and "0 \<le> f64_val (GetX p)" "0 \<le> f64_val (GetY p)"
    and "0 \<le> f64_val (f64_add (GetX p) (GetVelX p))" "0 \<le> f64_val (f64_add (GetY p) (GetVelY p))"
  shows "\<exists>p'. World_MovePlayer w p = Inr p' \<and> player_id p' = player_id p \<and>
    GetWidth p' = GetWidth p \<and> GetHeight p' = GetHeight p \<and>
    min (f64_val (GetX p)) (f64_val (f64_add (GetX p) (GetVelX p))) \<le> f64_val (GetX p') \<and>
    f64_val (GetX p') \<le> max (f64_val (GetX p)) (f64_val (f64_add (GetX p) (GetVelX p))) \<and>
    min (f64_val (GetY p)) (f64_val (f64_add (GetY p) (GetVelY p))) \<le> f64_val (GetY p') \<and>
    f64_val (GetY p') \<le> max (f64_val (GetY p)) (f64_val (f64_add (GetY p) (GetVelY p)))"
proof -
  from move_x_ok[OF assms(1-4,7-9), of "GetVelY p"] obtain vx' p1 where p1: "move_x w p (GetVelX p) (GetVelY p) = Inr (vx', p1)"
    "between_steps (GetX p) (GetVelX p) (GetX p1)" "f64_val (GetY p1) = f64_val (GetY p)" "in_field (GetY p1)"
    "GetWidth p1 = GetWidth p" "GetHeight p1 = GetHeight p" by blast
  note x = between_stepsD[OF p1(2) assms(2,6,7,9)]
  have same: "f64_val (f64_add (GetY p1) (GetVelY p)) = f64_val (f64_add (GetY p) (GetVelY p))"
    using assms(3,5) p1(3,4) moved_side(1)[of "GetY p1" "GetVelY p"] moved_side(1)[of "GetY p" "GetVelY p"] by simp
  from move_y_ok[OF assms(1) x(1) p1(4) assms(5) x(2), of vx'] assms(8,10) p1(3) same obtain p2 where
    p2: "move_y w p1 vx' (GetVelY p) = Inr p2" "between_steps (GetY p1) (GetVelY p) (GetY p2)" "f64_val (GetX p2) = f64_val (GetX p1)"
    "GetWidth p2 = GetWidth p1" "GetHeight p2 = GetHeight p1" by auto
  have "World_MovePlayer w p = Inr p2" using p1(1) p2(1) by (simp add: World_MovePlayer_def Let_def)
  moreover from MovePlayer_id[OF this] have "player_id p2 = player_id p" .
  ultimately show ?thesis using p1(2,3,5,6) p2(2-5) same by (auto simp: between_steps_def)
qed


definition wit_grid_world :: World where
  "wit_grid_world = (wit_world [] [])\<lparr>tile_map := [grid_tile 32 0 0, Tile_default, Tile_default, grid_tile 32 1 1]\<rparr>"

definition wit_runner :: Player where
  "wit_runner = Player_new 7 (f64_of_int 37) (f64_of_int 5) (f64_of_int 1) (f64_of_int 3) 15 25"

theorem MovePlayer_bounded_witness:
  "\<exists>p'. World_MovePlayer wit_grid_world wit_runner = Inr p' \<and> 37 \<le> f64_val (GetX p') \<and> f64_val (GetX p') \<le> 38"
proof -
  have "world_grid wit_grid_world"
    using wit_grid by (simp add: world_grid_def wit_grid_world_def wit_map_def wit_world_def wit_cfg_def)
  from MovePlayer_bounded[OF this, of wit_runner] show ?thesis
    by (auto simp: wit_runner_def Player_new_def wit_small f64_int_add)
qed

end
