(* ===== verification/Walls.thy ===== *)
theory Walls
  imports RoundingError WorldPhysics
begin

text \<open>
  Solid walls hold: a box that the collision test stops at a wall never ends beyond it, rounding
  included, as long as its step is short compared with the coordinates of the wall. Theory
  \<open>FloorRounding\<close> shows that this fails for walls inside the map.
\<close>

section \<open>The scaled step\<close>

declare of_int_uint [simp del]

text \<open>Scaling a velocity by a rounded entry time gives the distance up to two roundings.\<close>

lemma scaled_distance:
  assumes v: "v \<noteq> 0" "\<bar>v\<bar> \<le> 2 powi (j + 1)" "0 \<le> j" "j \<le> 40" and d: "0 \<le> d / v" "d / v \<le> 1"
  shows "\<bar>rv (v * rv (d / v)) - d\<bar> \<le> 2 powi (j - 52)" "0 \<le> rv (d / v)" "rv (d / v) \<le> 1"
proof -
  have m: "moderate (d / v)" using d by simp
  then show r: "0 \<le> rv (d / v)" "rv (d / v) \<le> 1"
    using rv_ge_int[of 0] rv_le_int[of 1] d by simp_all
  have "\<bar>rv (d / v) - d / v\<bar> \<le> 2 powi (-1 - 53)" using d by (intro rv_error) simp_all
  then have "\<bar>v\<bar> * \<bar>rv (d / v) - d / v\<bar> \<le> 2 powi (j + 1) * 2 powi (-54)"
    using v(2) by (intro mult_mono) simp_all
  also have "\<dots> = 2 powi (j - 53)" using powi2_add[of "j + 1" "-54"] by simp
  finally have "\<bar>v * rv (d / v) - d\<bar> \<le> 2 powi (j - 53)" using v(1) by (simp add: abs_mult[symmetric] right_diff_distrib)
  moreover have "\<bar>rv (v * rv (d / v)) - v * rv (d / v)\<bar> \<le> 2 powi (j - 53)"
  proof (rule rv_error)
    have "\<bar>v\<bar> * rv (d / v) \<le> \<bar>v\<bar> * 1" using r by (intro mult_left_mono) simp_all
    then show "\<bar>v * rv (d / v)\<bar> \<le> 2 powi (j + 1)" using v(2) r(1) by (simp add: abs_mult)
  qed (use v in simp_all)
  moreover have "(2 :: rat) powi (j - 52) = 2 powi (j - 53) + 2 powi (j - 53)" using powi2_add[of 1 "j - 53"] by simp
  ultimately show "\<bar>rv (v * rv (d / v)) - d\<bar> \<le> 2 powi (j - 52)" unfolding abs_le_iff by linarith
qed

lemma near_integer:
  assumes "2 ^ k \<le> n" "n \<le> 2 ^ (k + 1)" "k \<le> 40"
  shows "2 ^ k < n \<Longrightarrow> rv (of_int n - 2 powi (int k - 54)) = of_int n"
    "n < 2 ^ (k + 1) \<Longrightarrow> rv (of_int n + 2 powi (int k - 54)) = of_int n"
proof -
  have s: "(2 :: rat) powi (int k - 54) < 2 powi (int k - 53)" by (rule powi2_less) simp
  have u: "(2 :: rat) powi (int k - 54) \<le> 2 powi 0" using assms(3) by (intro powi2_le) simp
  have p: "(2 :: rat) powi int k = of_int (2 ^ k)" "(2 :: rat) powi (int k + 1) = of_int (2 ^ (k + 1))"
    by (simp_all add: powi2_nat nat_add_distrib)
  have b: "of_int (2 ^ k) \<le> rat_of_int n" "rat_of_int n \<le> of_int (2 ^ (k + 1))" using assms(1,2) by (simp_all only: of_int_le_iff)
  show "rv (of_int n - 2 powi (int k - 54)) = of_int n" if "2 ^ k < n"
  proof (rule rv_absorb)
    have "rat_of_int (2 ^ k + 1) \<le> of_int n" using that by (simp only: of_int_le_iff)
    then show "2 powi int k \<le> rat_of_int n - 2 powi (int k - 54)" unfolding p(1) using u by simp
    show "rat_of_int n - 2 powi (int k - 54) \<le> 2 powi (int k + 1)" unfolding p(2)
      using b(2) powi2_pos[of "int k - 54"] by linarith
  qed (use s assms(3) in simp_all)
  show "rv (of_int n + 2 powi (int k - 54)) = of_int n" if "n < 2 ^ (k + 1)"
  proof (rule rv_absorb)
    have "rat_of_int (n + 1) \<le> of_int (2 ^ (k + 1))" using that by (simp only: of_int_le_iff)
    then show "rat_of_int n + 2 powi (int k - 54) \<le> 2 powi (int k + 1)" unfolding p(2) using u by simp
    show "2 powi int k \<le> rat_of_int n + 2 powi (int k - 54)" unfolding p(1)
      using b(1) powi2_pos[of "int k - 54"] by linarith
  qed (use s assms(3) in simp_all)
qed

lemma moderate_near:
  assumes "0 \<le> n" "n \<le> 2 ^ (k + 1)" "k \<le> 40"
  shows "moderate (of_int n - 2 powi (int k - 54))" "moderate (of_int n + 2 powi (int k - 54))"
proof -
  have bound: "\<bar>x - y\<bar> \<le> 2 ^ 52 \<and> \<bar>x + y\<bar> \<le> 2 ^ 52" if "0 \<le> x" "x \<le> 2 ^ 41" "0 < y" "y \<le> 1" for x y :: rat
    using that by (simp add: abs_le_iff)
  have "(2 :: int) ^ (k + 1) \<le> 2 ^ 41" using assms(3) by (intro power_increasing) simp_all
  then have "rat_of_int n \<le> of_int (2 ^ 41)" using assms(2) by (simp only: of_int_le_iff)
  moreover have "(2 :: rat) powi (int k - 54) \<le> 2 powi 0" using assms(3) by (intro powi2_le) simp
  ultimately show "moderate (of_int n - 2 powi (int k - 54))" "moderate (of_int n + 2 powi (int k - 54))"
    using bound[of "of_int n" "2 powi (int k - 54)"] assms(1) by simp_all
qed

section \<open>One axis\<close>

lemma entry_quotient:
  assumes "is_fin d" "is_fin v" "f64_val v \<noteq> 0" "0 \<le> f64_val d / f64_val v" "f64_val d / f64_val v \<le> 1"
  shows "is_fin (f64_div d v)" "f64_val (f64_div d v) = rv (f64_val d / f64_val v)"
proof -
  have "moderate (f64_val d / f64_val v)" using assms(4,5) by simp
  then show "is_fin (f64_div d v)" "f64_val (f64_div d v) = rv (f64_val d / f64_val v)"
    using f64_div_val[OF assms(1-3)] by simp_all
qed

lemma shortened_step:
  assumes a: "in_field a" and v: "in_field v" and e: "is_fin e" "0 \<le> f64_val e" "f64_val e \<le> 1"
  shows "f64_val (f64_add a (f64_mul v e)) = rv (f64_val a + rv (f64_val v * f64_val e))"
    "moderate (f64_val a + rv (f64_val v * f64_val e))" "moderate (f64_val v * f64_val e)"
proof -
  have "\<bar>f64_val v\<bar> * f64_val e \<le> \<bar>f64_val v\<bar> * 1" using e by (intro mult_left_mono) simp_all
  then have "\<bar>f64_val v * f64_val e\<bar> \<le> 2 ^ 40" using v e by (simp add: abs_mult)
  then show m: "moderate (f64_val v * f64_val e)" by simp
  have mv: "f64_val (f64_mul v e) = rv (f64_val v * f64_val e)" using f64_mul_val[OF _ e(1) m] v by simp
  have "\<bar>f64_val a\<bar> \<le> 2 ^ 41" using a by simp
  note s = moved_side[OF conjunct1[OF a] this scaled_step(4)[OF a v e]]
  show "f64_val (f64_add a (f64_mul v e)) = rv (f64_val a + rv (f64_val v * f64_val e))"
    "moderate (f64_val a + rv (f64_val v * f64_val e))" using s(1,4) by (simp_all add: mv)
qed

text \<open>
  A step towards smaller coordinates, at most as long as the entry time of a wall that ends at
  \<open>E\<close> says, does not pass \<open>E\<close>; the same towards larger coordinates and a wall that begins at \<open>E\<close>.
\<close>

lemma stop_low:
  assumes a: "in_field a" and v: "in_field v" "- 8 \<le> f64_val v" "f64_val v < 0" and e: "is_fin e" "0 \<le> f64_val e"
    and E: "2 ^ k < E" "E \<le> 2 ^ (k + 1)" "4 \<le> k" "k \<le> 40"
    and far: "is_fin far" "f64_val far = of_int E" "of_int E \<le> f64_val a" "f64_val a + f64_val v < of_int E"
    and le: "f64_val e \<le> f64_val (f64_div (f64_sub far a) v)"
  shows "of_int E \<le> f64_val (f64_add a (f64_mul v e))"
proof -
  let ?a = "f64_val a" and ?v = "f64_val v" and ?d = "of_int E - f64_val a"
  have Ek: "2 powi int k \<le> rat_of_int E"
  proof -
    have "rat_of_int (2 ^ k) \<le> of_int E" using E(1) by (simp only: of_int_le_iff)
    then show ?thesis by (simp add: powi2_nat)
  qed
  have k8: "(8 :: rat) < 2 powi (int k + 1)" using powi2_less[of 3 "int k + 1"] E(3) by simp
  have "rv ?d = ?d"
  proof (rule rv_on_grid)
    show "on_grid (int k) ?d" using order_trans[OF Ek far(3)] E(4) by (intro on_grid_diff on_grid_int on_grid_val) simp_all
    show "\<bar>?d\<bar> < 2 powi (int k + 1)" using far(3,4) v(2) k8 by (simp add: abs_less_iff)
  qed (use E in simp_all)
  moreover have "moderate ?d" using far(3,4) v(2) by (simp add: abs_le_iff)
  ultimately have d: "f64_val (f64_sub far a) = ?d" "is_fin (f64_sub far a)"
    using f64_sub_val[OF far(1), of a] a far(2) by simp_all
  have q: "0 \<le> ?d / ?v" "?d / ?v \<le> 1" using far(3,4) v(3) by (simp_all add: divide_nonpos_neg divide_le_eq)
  have v0: "?v \<noteq> 0" using v(3) by simp
  have fv: "is_fin v" using v(1) by simp
  have e0: "f64_val e \<le> rv (?d / ?v)"
    using le entry_quotient(2)[OF d(2) fv v0] q by (simp add: d(1))
  have vb: "\<bar>?v\<bar> \<le> 2 powi (2 + 1)" using v(2,3) by simp
  have s: "\<bar>rv (?v * rv (?d / ?v)) - ?d\<bar> \<le> 2 powi (2 - 52)" "0 \<le> rv (?d / ?v)" "rv (?d / ?v) \<le> 1"
    by (rule scaled_distance[OF v0 vb _ _ q]; simp)+
  have e1: "f64_val e \<le> 1" using e0 s(3) by simp
  note st = shortened_step[OF a v(1) e e1]
  have mv: "moderate (?v * rv (?d / ?v))"
  proof -
    have "\<bar>?v\<bar> * rv (?d / ?v) \<le> 8 * 1" using v(2,3) s(2,3) by (intro mult_mono) simp_all
    then show ?thesis using s(2) by (simp add: abs_mult)
  qed
  have "?v * rv (?d / ?v) \<le> ?v * f64_val e" using e0 v(3) by (intro mult_left_mono_neg) simp_all
  then have "rv (?v * rv (?d / ?v)) \<le> rv (?v * f64_val e)" using mv st(3) by (intro rv_mono)
  moreover have "?d - 2 powi (2 - 52) \<le> rv (?v * rv (?d / ?v))" using s(1) unfolding abs_le_iff by linarith
  moreover have "(2 :: rat) powi (2 - 52) \<le> 2 powi (int k - 54)" using E(3) by (intro powi2_le) simp
  ultimately have ge: "of_int E - 2 powi (int k - 54) \<le> ?a + rv (?v * f64_val e)" by linarith
  have "of_int E = rv (of_int E - 2 powi (int k - 54))" using near_integer(1)[of k E] E by simp
  also have "\<dots> \<le> rv (?a + rv (?v * f64_val e))"
    using moderate_near(1)[of E k] E zero_le_power[of "2 :: int" k] by (intro rv_mono[OF ge _ st(2)]) simp
  finally show ?thesis using st(1) by simp
qed

text \<open>Near the far wall the far side of a box is not rounded.\<close>

lemma far_side_exact:
  assumes a: "in_field a" and E: "2 ^ k + uint ext + 32 \<le> E" "E < 2 ^ (k + 1)" "k \<le> 40"
    and near: "of_int (E - uint ext) < f64_val a + 32" "f64_val a + of_int (uint ext) \<le> of_int E"
  shows "f64_val (f64_add a (f64_of_u8 ext)) = f64_val a + of_int (uint ext)" "2 powi int k \<le> f64_val a"
    "rat_of_int E < 2 powi (int k + 1)"
proof -
  have "rat_of_int (2 ^ k + uint ext + 32) \<le> of_int E" using E(1) by (simp only: of_int_le_iff)
  then show Ek: "2 powi int k \<le> f64_val a" using near(1) by (simp add: powi2_nat)
  have "rat_of_int E < of_int (2 ^ (k + 1))" using E(2) by (simp only: of_int_less_iff)
  then show hi: "rat_of_int E < 2 powi (int k + 1)" by (simp add: powi2_nat nat_add_distrib)
  have ext0: "0 \<le> rat_of_int (uint ext)" using uint_u8(1)[of ext] by simp
  have "rv (f64_val a + of_int (uint ext)) = f64_val a + of_int (uint ext)"
  proof (rule rv_on_grid)
    show "on_grid (int k) (f64_val a + of_int (uint ext))"
      using Ek E(3) by (intro on_grid_add on_grid_int on_grid_val) simp_all
    show "\<bar>f64_val a + of_int (uint ext)\<bar> < 2 powi (int k + 1)"
      using Ek powi2_pos[of "int k"] ext0 near(2) hi powi2_pos[of "int k + 1"] unfolding abs_less_iff by linarith
  qed (use E in simp_all)
  then show "f64_val (f64_add a (f64_of_u8 ext)) = f64_val a + of_int (uint ext)" using far_side(1)[OF a, of ext] by simp
qed

lemma stop_high:
  assumes a: "in_field a" and v: "in_field v" "f64_val v \<le> 32" "0 < f64_val v" and e: "is_fin e" "0 \<le> f64_val e"
    and E: "2 ^ k + uint ext + 32 \<le> E" "E < 2 ^ (k + 1)" "6 \<le> k" "k \<le> 40"
    and wall: "is_fin p" "f64_val p = of_int E" "f64_val a + of_int (uint ext) \<le> of_int E"
      "of_int E < f64_val a + of_int (uint ext) + f64_val v"
    and le: "f64_val e \<le> f64_val (f64_div (f64_sub p (f64_add a (f64_of_u8 ext))) v)"
  shows "f64_val (f64_add a (f64_mul v e)) \<le> of_int (E - uint ext)"
proof -
  let ?a = "f64_val a" and ?v = "f64_val v" and ?T = "of_int (E - uint ext) :: rat"
  let ?d = "?T - f64_val a" and ?far = "f64_add a (f64_of_u8 ext)"
  have "of_int (E - uint ext) < ?a + 32" using wall(4) v(2) by simp
  note ex = far_side_exact[OF a E(1,2,4) this wall(3)]
  have ga: "on_grid (int k) ?a" using ex(2) by (intro on_grid_val) simp_all
  have k32: "(32 :: rat) < 2 powi (int k + 1)" using powi2_less[of 5 "int k + 1"] E(3) by simp
  have fv: "f64_val ?far = ?a + of_int (uint ext)" "is_fin ?far" using ex(1) far_side[OF a, of ext] by simp_all
  have "rv ?d = ?d"
  proof (rule rv_on_grid)
    show "on_grid (int k) ?d" using ga E(4) by (intro on_grid_diff on_grid_int) simp_all
    show "\<bar>?d\<bar> < 2 powi (int k + 1)" using wall(3,4) v(2) k32 by (simp add: abs_less_iff)
  qed (use E in simp_all)
  moreover have "moderate ?d" using wall(3,4) v(2) by (simp add: abs_le_iff)
  moreover have "f64_val p - f64_val ?far = ?d" by (simp add: fv wall(2))
  ultimately have d: "f64_val (f64_sub p ?far) = ?d" "is_fin (f64_sub p ?far)"
    using f64_sub_val[OF wall(1) fv(2)] by (simp_all only:)
  have q: "0 \<le> ?d / ?v" "?d / ?v \<le> 1" using wall(3,4) v(3) by (simp_all add: divide_le_eq)
  have v0: "?v \<noteq> 0" and fin: "is_fin v" using v(1,3) by simp_all
  have e0: "f64_val e \<le> rv (?d / ?v)" using le entry_quotient(2)[OF d(2) fin v0] q by (simp only: d(1))
  have vb: "\<bar>?v\<bar> \<le> 2 powi (4 + 1)" using v(2,3) by simp
  have s: "\<bar>rv (?v * rv (?d / ?v)) - ?d\<bar> \<le> 2 powi (4 - 52)" "0 \<le> rv (?d / ?v)" "rv (?d / ?v) \<le> 1"
    by (rule scaled_distance[OF v0 vb _ _ q]; simp)+
  have e1: "f64_val e \<le> 1" using e0 s(3) by simp
  note st = shortened_step[OF a v(1) e e1]
  have mv: "moderate (?v * rv (?d / ?v))"
  proof -
    have "\<bar>?v\<bar> * rv (?d / ?v) \<le> 32 * 1" using v(2,3) s(2,3) by (intro mult_mono) simp_all
    then show ?thesis using s(2) by (simp add: abs_mult)
  qed
  have "?v * f64_val e \<le> ?v * rv (?d / ?v)" using e0 v(3) by (intro mult_left_mono) simp_all
  then have "rv (?v * f64_val e) \<le> rv (?v * rv (?d / ?v))" using mv st(3) by (intro rv_mono)
  moreover have "rv (?v * rv (?d / ?v)) \<le> ?d + 2 powi (4 - 52)" using s(1) unfolding abs_le_iff by linarith
  moreover have "(2 :: rat) powi (4 - 52) \<le> 2 powi (int k - 54)" using E(3) by (intro powi2_le) simp
  ultimately have le: "?a + rv (?v * f64_val e) \<le> ?T + 2 powi (int k - 54)" by linarith
  have T: "2 ^ k \<le> E - uint ext" "E - uint ext < 2 ^ (k + 1)" using E(1,2) uint_u8(1)[of ext] by linarith+
  have "rv (?a + rv (?v * f64_val e)) \<le> rv (?T + 2 powi (int k - 54))"
    using moderate_near(2)[of "E - uint ext" k] T E(4) zero_le_power[of "2 :: int" k] by (intro rv_mono[OF le st(2)]) simp
  also have "\<dots> = ?T" using near_integer(2)[of k "E - uint ext"] T E(4) by simp
  finally show ?thesis using st(1) by simp
qed

section \<open>The entry time of a wall\<close>

lemma inf_max_min_right:
  assumes "\<not> is_nan a"
  shows "f64_fmax a (f64_inf True) = a" "f64_fmin a (f64_inf False) = a"
proof -
  have "\<bar>f64_key a\<bar> \<le> inf_mag" using assms by (simp add: is_nan_key)
  moreover have "f64_key (f64_inf False) = inf_mag" using inf_mag_bounds by (simp add: f64_inf_def f64_make_key)
  ultimately show "f64_fmax a (f64_inf True) = a" "f64_fmin a (f64_inf False) = a"
    using assms neg_inf_facts by (auto simp: f64_fmax_def f64_fmin_def)
qed

lemma rest_on_axis_x:
  assumes "f64_eq vy f64_zero" "\<not> f64_eq vx f64_zero" "SweptAABB b t vx vy = no_hit"
    and "axis_distances (GetY b) (GetHeight b) (GetY t) (GetHeight t) vy = Some d"
    and x: "axis_distances (GetX b) (GetWidth b) (GetX t) (GetWidth t) vx = Some (en, ex)"
    and nn: "\<not> is_nan (axis_time en vx)" "\<not> is_nan (axis_time ex vx)"
    and pass: "\<not> f64_lt (axis_time en vx) f64_zero" "\<not> f64_lt (axis_time ex vx) (axis_time en vx)"
  shows "f64_lt f64_one (axis_time en vx)"
proof -
  have "d = (f64_inf True, f64_inf False)"
    using assms(1,4) by (auto simp: axis_distances_def Let_def f64_eq_def f64_lt_def split: if_splits)
  then have y: "axis_distances (GetY b) (GetHeight b) (GetY t) (GetHeight t) vy = Some (f64_inf True, f64_inf False)"
    "axis_time (f64_inf True) vy = f64_inf True" "axis_time (f64_inf False) vy = f64_inf False"
    using assms(1,4) by (simp_all add: axis_time_def)
  have "f64_lt (axis_time ex vx) (axis_time en vx) \<or> f64_lt (axis_time en vx) f64_zero \<or> f64_lt f64_one (axis_time en vx)"
    using assms(3) by (auto simp: SweptAABB_def assms(2) x y Let_def no_hit_def inf_max_min_right nn split: if_splits)
  with pass show ?thesis by simp
qed

text \<open>A tile ahead of a moving box, within the reach of the step, whose end the step does not just touch.\<close>

definition wall_ahead :: "f64 \<Rightarrow> u8 \<Rightarrow> f64 \<Rightarrow> u8 \<Rightarrow> f64 \<Rightarrow> bool" where
  "wall_ahead a ext p tile v \<longleftrightarrow>
     (let far1 = f64_val (f64_add a (f64_of_u8 ext)); far2 = f64_val (f64_add p (f64_of_u8 tile)) in
      0 < f64_val v \<and> far1 \<le> f64_val p \<and> f64_val p \<le> far1 + f64_val v \<or>
      f64_val v < 0 \<and> far2 \<le> f64_val a \<and> f64_val a + f64_val v \<le> far2 \<and> f64_val (f64_add a v) \<noteq> far2)"

text \<open>A wall ahead is hit at the rounded quotient of distance and velocity.\<close>

lemma wall_entry_y:
  assumes field: "in_field (GetX b)" "in_field (GetY b)" "in_field (GetX t)" "in_field (GetY t)" "in_field vx" "in_field vy"
    and v: "f64_eq vx f64_zero" "\<not> f64_eq vy f64_zero"
    and rest: "axis_distances (GetX b) (GetWidth b) (GetX t) (GetWidth t) vx = Some d"
    and move: "axis_distances (GetY b) (GetHeight b) (GetY t) (GetHeight t) vy = Some (en, ex)"
    and ahead: "wall_ahead (GetY b) (GetHeight b) (GetY t) (GetHeight t) vy"
  shows "entry_time (SweptAABB b t vx vy) = f64_div en vy"
proof (cases rule: SweptAABB_cases[of b t vx vy])
  case miss
  have side: "0 < f64_val vy \<and> f64_val (f64_add (GetY b) (f64_of_u8 (GetHeight b))) \<le> f64_val (GetY t) \<or>
      f64_val vy < 0 \<and> f64_val (f64_add (GetY t) (f64_of_u8 (GetHeight t))) \<le> f64_val (GetY b)"
    using ahead unfolding wall_ahead_def Let_def by blast
  note nn = axis_time_not_nan[OF field(2,4,6) move] and pass = axis_pass[OF field(2,4,6) move side]
  have "f64_lt f64_one (axis_time en vy)" by (rule rest_on_axis[OF v miss rest move nn pass(1,2)])
  from pass(3)[OF this] ahead show ?thesis unfolding wall_ahead_def Let_def by linarith
next
  case (contact xe xx ye yx)
  note r = axis_distances_rest[OF v(1) contact(1)]
  have "f64_fmax (f64_inf True) (axis_time ye vy) = axis_time ye vy" using contact(5) r fmax_neg_inf(2) by simp
  with contact(2,3) move r v(2) show ?thesis by (simp add: axis_time_def)
qed

lemma wall_entry_x:
  assumes field: "in_field (GetX b)" "in_field (GetY b)" "in_field (GetX t)" "in_field (GetY t)" "in_field vx" "in_field vy"
    and v: "f64_eq vy f64_zero" "\<not> f64_eq vx f64_zero"
    and rest: "axis_distances (GetY b) (GetHeight b) (GetY t) (GetHeight t) vy = Some d"
    and move: "axis_distances (GetX b) (GetWidth b) (GetX t) (GetWidth t) vx = Some (en, ex)"
    and ahead: "wall_ahead (GetX b) (GetWidth b) (GetX t) (GetWidth t) vx"
  shows "entry_time (SweptAABB b t vx vy) = f64_div en vx"
proof (cases rule: SweptAABB_cases[of b t vx vy])
  case miss
  have side: "0 < f64_val vx \<and> f64_val (f64_add (GetX b) (f64_of_u8 (GetWidth b))) \<le> f64_val (GetX t) \<or>
      f64_val vx < 0 \<and> f64_val (f64_add (GetX t) (f64_of_u8 (GetWidth t))) \<le> f64_val (GetX b)"
    using ahead unfolding wall_ahead_def Let_def by blast
  note nn = axis_time_not_nan[OF field(1,3,5) move] and pass = axis_pass[OF field(1,3,5) move side]
  have "f64_lt f64_one (axis_time en vx)" by (rule rest_on_axis_x[OF v miss rest move nn pass(1,2)])
  from pass(3)[OF this] ahead show ?thesis unfolding wall_ahead_def Let_def by linarith
next
  case (contact xe xx ye yx)
  note r = axis_distances_rest[OF v(1) contact(2)]
  have "f64_fmax (axis_time xe vx) (f64_inf True) = axis_time xe vx" using contact(5) r fmax_neg_inf(1) by simp
  with contact(1,3) move r v(2) show ?thesis by (simp add: axis_time_def)
qed

end
