(* ===== verification/Enclosure.thy ===== *)
theory Enclosure
  imports Walls
begin

text \<open>
  Closed maps (\<open>game/physics/collision.cpp\<close>, \<open>game/world/world.cpp\<close>): a player between the
  walls of a map with a solid border stays between them. Sweeping meets the wall before it is
  crossed, the step is shortened to the contact, and the rounding of that step is absorbed at the
  wall (\<open>Walls\<close>), for steps of the speeds the game allows.
\<close>

section \<open>Closed maps\<close>

declare of_int_uint [simp del]

text \<open>
  The walls of a map: the tiles of its border. Players live between the side of the first row and
  column, at \<open>tile\<close>, and the side of the last ones, at \<open>wall_x\<close> and \<open>wall_y\<close>.
\<close>

definition wall_x :: "GameConfig \<Rightarrow> int" where
  "wall_x cfg = uint (tile_size cfg) * (uint (grid_x cfg) - 1)"

definition wall_y :: "GameConfig \<Rightarrow> int" where
  "wall_y cfg = uint (tile_size cfg) * (uint (grid_y cfg) - 1)"

text \<open>The far wall and the last place before it lie in one binade, with room for a step.\<close>

definition room :: "int \<Rightarrow> u8 \<Rightarrow> bool" where
  "room E ext \<longleftrightarrow> (\<exists>k\<in>{6..<25}. 2 ^ k + uint ext + 32 \<le> E \<and> E < 2 ^ (k + 1))"

definition between_walls :: "u8 \<Rightarrow> int \<Rightarrow> u8 \<Rightarrow> f64 \<Rightarrow> bool" where
  "between_walls tile E ext a \<longleftrightarrow> is_fin a \<and> of_int (uint tile) \<le> f64_val a \<and> f64_val a \<le> of_int (E - uint ext)"

lemma room_bound: "room E ext \<Longrightarrow> E \<le> 2 ^ 25 \<and> 0 \<le> E - uint ext"
proof -
  assume "room E ext"
  then obtain k :: nat where k: "k < 25" "2 ^ k + uint ext + 32 \<le> E" "E < 2 ^ (k + 1)" unfolding room_def by auto
  have "(2 :: int) ^ (k + 1) \<le> 2 ^ 25" using k(1) by (intro power_increasing) simp_all
  with k zero_le_power[of "2 :: int" k] show ?thesis by linarith
qed

lemma between_field:
  assumes "between_walls tile E ext a" "room E ext"
  shows "in_field a" "0 \<le> f64_val a" "f64_val a \<le> 2 ^ 25"
proof -
  have "E - uint ext \<le> 2 ^ 25" using room_bound[OF assms(2)] uint_u8(1)[of ext] by linarith
  then have "rat_of_int (E - uint ext) \<le> of_int (2 ^ 25)" by (simp only: of_int_le_iff)
  then show le: "f64_val a \<le> 2 ^ 25" using assms(1) by (simp add: between_walls_def)
  have "0 \<le> rat_of_int (uint tile)" using uint_u8(1)[of tile] by simp
  then show ge: "0 \<le> f64_val a" using assms(1) unfolding between_walls_def by linarith
  show "in_field a" using le ge assms(1) by (simp add: between_walls_def abs_le_iff)
qed

text \<open>The cell of a coordinate, as a position in the grid.\<close>

lemma cell_index:
  assumes "between_walls tile (uint tile * (int n - 1)) ext a" "1 \<le> uint tile"
  obtains k where "k < n" "of_int (int k * uint tile) \<le> f64_val a" "f64_val a < of_int ((int k + 1) * uint tile)"
proof
  let ?T = "rat_of_int (uint tile)" and ?c = "\<lfloor>f64_val a / of_int (uint tile)\<rfloor>"
  have T: "0 < ?T" using assms(2) by simp
  have a: "?T \<le> f64_val a" "f64_val a \<le> of_int (uint tile * (int n - 1))"
    using assms(1) uint_u8(1)[of ext] by (auto simp: between_walls_def intro: order_trans)
  have c: "of_int ?c \<le> f64_val a / ?T" "f64_val a / ?T < of_int ?c + 1" by linarith+
  have c0: "0 \<le> ?c" using a(1) T by (simp add: le_floor_iff)
  have "of_int ?c \<le> rat_of_int (int n - 1)"
  proof (rule order_trans[OF c(1)])
    show "f64_val a / ?T \<le> rat_of_int (int n - 1)" using a(2) T by (simp add: divide_le_eq mult.commute)
  qed
  then have "?c \<le> int n - 1" by (simp only: of_int_le_iff)
  then show "nat ?c < n" using c0 by linarith
  show "of_int (int (nat ?c) * uint tile) \<le> f64_val a" "f64_val a < of_int ((int (nat ?c) + 1) * uint tile)"
    using c[unfolded pos_le_divide_eq[OF T] pos_divide_less_eq[OF T]] c0 by simp_all
qed

text \<open>The tile of that cell overlaps the box along this axis.\<close>

lemma overlap_cell:
  assumes "in_field a" "tile_at p tile k" "of_int (k * uint tile) \<le> f64_val a" "f64_val a < of_int ((k + 1) * uint tile)"
    and "0 < ext" "is_fin v" "f64_val v = 0"
  shows "axis_distances a ext p tile v = Some (f64_inf True, f64_inf False)"
proof -
  note T = tile_atD[OF assms(2)] and far = far_side[OF assms(1), of ext]
  have e: "1 \<le> uint ext" using u8_nonzero assms(5) by simp
  have "rat_of_int (k * uint tile + 1) \<le> f64_val (f64_add a (f64_of_u8 ext))"
  proof -
    have "rat_of_int (k * uint tile + 1) \<le> of_int (k * uint tile + uint ext)" using e by (simp only: of_int_le_iff)
    also have "\<dots> \<le> f64_val a + of_int (uint ext)" using assms(3) by simp
    finally have le: "rat_of_int (k * uint tile + 1) \<le> f64_val a + of_int (uint ext)" .
    have "\<bar>k * uint tile + 1\<bar> < 2 ^ 53" using T(5,8) by (simp add: abs_less_iff)
    moreover have "moderate (f64_val a + of_int (uint ext))"
    proof -
      have "rat_of_int (uint ext) \<le> of_int 255" using uint_u8(2)[of ext] by (simp only: of_int_le_iff)
      moreover have "0 \<le> rat_of_int (uint ext)" using e by simp
      moreover have "\<bar>x + y\<bar> \<le> 2 ^ 52" if "\<bar>x\<bar> \<le> 2 ^ 40" "0 \<le> y" "y \<le> of_int 255" for x y :: rat
        using that by (simp add: abs_le_iff)
      ultimately show ?thesis using assms(1) by blast
    qed
    ultimately show ?thesis unfolding far(1) using le by (intro rv_ge_int)
  qed
  then have "of_int (k * uint tile) < f64_val (f64_add a (f64_of_u8 ext))" by simp
  then show ?thesis
    using T(1,2,3,10) far(2) assms by (simp add: axis_distances_def Let_def f64_lt_fin f64_le_fin not_le)
qed

section \<open>One axis\<close>

lemma past_integer:
  assumes "0 \<le> n" "n \<le> 2 ^ 25" "moderate q" "of_int n < rv q"
  shows "of_int n < q"
proof (rule ccontr)
  assume "\<not> of_int n < q"
  moreover have "small_int n" using assms(1,2) by simp
  ultimately have "rv q \<le> of_int n" using assms(3) by (intro rv_le_int) simp_all
  with assms(4) show False by simp
qed

lemma far_exact:
  assumes "in_field a" "room E ext" "f64_val a + of_int (uint ext) \<le> of_int E" "of_int (E - uint ext) < f64_val a + 32"
  shows "f64_val (f64_add a (f64_of_u8 ext)) = f64_val a + of_int (uint ext)"
proof -
  from assms(2) obtain k :: nat where k: "2 ^ k + uint ext + 32 \<le> E" "E < 2 ^ (k + 1)" "k \<le> 40"
    unfolding room_def by auto
  show ?thesis by (rule far_side_exact(1)[OF assms(1) k assms(4,3)])
qed

text \<open>
  The first wall begins at 0 and ends at \<open>tile\<close>, the last one begins at \<open>E\<close>. A box between them
  stays there, whatever other tiles the sweep stops it at, if the time \<open>e\<close> of the sweep is bounded
  by the time of each of the two walls that is ahead.
\<close>

lemma step_between:
  assumes a: "between_walls tile E ext a" "room E ext" "17 \<le> uint tile"
    and v: "in_field v" "- 8 \<le> f64_val v" "f64_val v \<le> 32" and e: "is_fin e" "0 \<le> f64_val e" "f64_val e \<le> 1"
    and p: "tile_at p tile 0" "is_fin q" "f64_val q = of_int E"
    and hits: "\<And>wall en ex. wall = p \<or> wall = q \<Longrightarrow> wall_ahead a ext wall tile v \<Longrightarrow>
      axis_distances a ext wall tile v = Some (en, ex) \<Longrightarrow> f64_val e \<le> f64_val (f64_div en v)"
  shows "between_walls tile E ext (f64_add a (f64_mul v e))"
proof -
  note F = between_field[OF a(1,2)] and T = tile_atD[OF p(1)] and s = scaled_step[OF between_field(1)[OF a(1,2)] v(1) e]
  have A: "of_int (uint tile) \<le> f64_val a" "f64_val a + of_int (uint ext) \<le> of_int E" using a(1) by (simp_all add: between_walls_def)
  have m: "f64_val (f64_add a v) = rv (f64_val a + f64_val v)" "moderate (f64_val a + f64_val v)"
    using moved_side[of a v] F(1) v(1) by simp_all
  have small: "small_int (uint tile)" using uint_u8[of tile] by (simp add: abs_less_iff)
  have "of_int (uint tile) \<le> f64_val (f64_add a (f64_mul v e))"
  proof (cases "f64_val v < 0 \<and> f64_val (f64_add a v) < of_int (uint tile)")
    case True
    have "uint tile \<in> {2 ^ 4 <..2 ^ 5} \<union> {2 ^ 5 <..2 ^ 6} \<union> {2 ^ 6 <..2 ^ 7} \<union> {2 ^ 7 <..2 ^ 8}"
      using a(3) uint_u8(2)[of tile] by auto
    then obtain k :: nat where k: "2 ^ k < uint tile" "uint tile \<le> 2 ^ (k + 1)" "4 \<le> k" "k \<le> 40"
      using that[of 4] that[of 5] that[of 6] that[of 7] by auto
    have lt: "f64_val a + f64_val v < of_int (uint tile)"
      using True rv_ge_int[OF small _ m(2)] m(1) by (metis not_le)
    have "f64_val e \<le> f64_val (f64_div (f64_sub (f64_add p (f64_of_u8 tile)) a) v)"
      by (rule hits[of p _ "f64_sub p (f64_add a (f64_of_u8 ext))"])
        (use True lt A(1) T(2) v(1) in \<open>simp_all add: wall_ahead_def axis_distances_def f64_lt_fin\<close>)
    with stop_low[OF F(1) v(1,2) _ e(1,2) k T(3) _ A(1) lt] True T(2) show ?thesis by simp
  next
    case False
    then have "of_int (uint tile) \<le> min (f64_val a) (f64_val (f64_add a v))"
      using A(1) rv_mono[of "f64_val a" "f64_val a + f64_val v"] F(1) m by (auto simp: not_less)
    with s(2) show ?thesis by linarith
  qed
  moreover have "f64_val (f64_add a (f64_mul v e)) \<le> of_int (E - uint ext)"
  proof (cases "0 < f64_val v \<and> of_int (E - uint ext) < f64_val (f64_add a v)")
    case True
    from a(2) obtain k :: nat where k: "2 ^ k + uint ext + 32 \<le> E" "E < 2 ^ (k + 1)" "6 \<le> k" "k \<le> 40"
      unfolding room_def by auto
    have "E - uint ext \<le> 2 ^ 25" using uint_u8(1)[of ext] room_bound[OF a(2), THEN conjunct1] by linarith
    then have gt: "of_int (E - uint ext) < f64_val a + f64_val v"
      by (intro past_integer[OF _ _ m(2)]) (use room_bound[OF a(2)] True m(1) in simp_all)
    have exact: "f64_val (f64_add a (f64_of_u8 ext)) = f64_val a + of_int (uint ext)"
      by (rule far_exact[OF F(1) a(2) A(2)]) (use gt v(3) in linarith)
    have "f64_val e \<le> f64_val (f64_div (f64_sub q (f64_add a (f64_of_u8 ext))) v)"
      by (rule hits[of q _ "f64_sub (f64_add q (f64_of_u8 tile)) a"])
        (use True gt A(2) exact p(3) v(1) in \<open>simp_all add: wall_ahead_def axis_distances_def f64_lt_fin\<close>)
    with stop_high[OF F(1) v(1,3) _ e(1,2) k p(2,3) A(2)] True gt show ?thesis by simp
  next
    case False
    then have "max (f64_val a) (f64_val (f64_add a v)) \<le> of_int (E - uint ext)"
      using A(2) rv_mono[of "f64_val a + f64_val v" "f64_val a"] F(1) m by (auto simp: not_less)
    with s(3) show ?thesis by linarith
  qed
  ultimately show ?thesis using s(1) by (simp add: between_walls_def)
qed

section \<open>Closed worlds\<close>

text \<open>
  \<open>fitting\<close>: tiles of at least 17 units, players that are not empty, far walls with \<open>room\<close>, and a
  map low enough for the speed a fall can reach.
\<close>

definition fitting :: "GameConfig \<Rightarrow> bool" where
  "fitting cfg \<longleftrightarrow> 17 \<le> uint (tile_size cfg) \<and> uint (grid_y cfg) < 256 \<and>
     0 < pc_width (player_config cfg) \<and> 0 < pc_height (player_config cfg) \<and>
     room (wall_x cfg) (pc_width (player_config cfg)) \<and> room (wall_y cfg) (pc_height (player_config cfg)) \<and> wall_y cfg \<le> 960"

definition on_border :: "nat \<Rightarrow> nat \<Rightarrow> nat \<Rightarrow> nat \<Rightarrow> bool" where
  "on_border gx gy i j \<longleftrightarrow> i < gx \<and> j < gy \<and> (i = 0 \<or> Suc i = gx \<or> j = 0 \<or> Suc j = gy)"

definition enclosed :: "'a World_scheme \<Rightarrow> bool" where
  "enclosed w \<longleftrightarrow> fitting (world_config w) \<and> world_grid w \<and>
     (\<forall>i j. on_border (unat (grid_x (world_config w))) (unat (grid_y (world_config w))) i j \<longrightarrow>
        tile_type (tile_map w ! (j * unat (grid_x (world_config w)) + i)) \<noteq> Empty_tile)"

definition placed :: "GameConfig \<Rightarrow> 'a IBox_scheme \<Rightarrow> bool" where
  "placed cfg b \<longleftrightarrow> GetWidth b = pc_width (player_config cfg) \<and> GetHeight b = pc_height (player_config cfg) \<and>
     between_walls (tile_size cfg) (wall_x cfg) (GetWidth b) (GetX b) \<and>
     between_walls (tile_size cfg) (wall_y cfg) (GetHeight b) (GetY b)"

abbreviation border_tile :: "'a World_scheme \<Rightarrow> nat \<Rightarrow> nat \<Rightarrow> Tile" where
  "border_tile w \<equiv> grid_tile (tile_size (world_config w))"

lemma grid_tile_sides [simp]:
  "GetX (grid_tile tile i j) = f64_of_int (int i * uint tile)" "GetY (grid_tile tile i j) = f64_of_int (int j * uint tile)"
  "GetWidth (grid_tile tile i j) = tile" "GetHeight (grid_tile tile i j) = tile"
  by (simp_all add: grid_tile_def Tile_new_def)

lemma enclosed_tile:
  assumes "enclosed w" "i < unat (grid_x (world_config w))" "j < unat (grid_y (world_config w))"
  shows "tile_at (f64_of_int (int i * uint (tile_size (world_config w)))) (tile_size (world_config w)) (int i)"
    "tile_at (f64_of_int (int j * uint (tile_size (world_config w)))) (tile_size (world_config w)) (int j)"
proof -
  have "i < 2 ^ 16" "j < 2 ^ 16"
    using assms(2,3) unsigned_less[of "grid_x (world_config w)", where 'a = nat] unsigned_less[of "grid_y (world_config w)", where 'a = nat]
    by simp_all
  then show "tile_at (f64_of_int (int i * uint (tile_size (world_config w)))) (tile_size (world_config w)) (int i)"
    "tile_at (f64_of_int (int j * uint (tile_size (world_config w)))) (tile_size (world_config w)) (int j)"
    using grid_tile_at assms(1) by (simp_all add: enclosed_def world_grid_def)
qed

text \<open>A wall bounds the time the sweep of an axis returns.\<close>

lemma swept_by_wall:
  assumes w: "enclosed w" and b: "on_border (unat (grid_x (world_config w))) (unat (grid_y (world_config w))) i j"
    and run: "swept_axis w p vx vy = Inr sd" "is_fin (entry_time sd)"
    and field: "in_field (GetX p)" "in_field (GetY p)" "in_field vx" "in_field vy" and axis: "f64_val vx = 0 \<or> f64_val vy = 0"
    and early: "\<not> (f64_val vx < 0 \<and> f64_val (f64_add (GetX p) vx) = of_int ((int i + 1) * uint (tile_size (world_config w))))"
      "\<not> (f64_val vy < 0 \<and> f64_val (f64_add (GetY p) vy) = of_int ((int j + 1) * uint (tile_size (world_config w))))"
  shows "f64_val (entry_time sd) \<le> f64_val (entry_time (SweptAABB p (border_tile w i j) vx vy))"
proof -
  let ?c = "world_config w" and ?t = "border_tile w i j"
  have ij: "i < unat (grid_x ?c)" "j < unat (grid_y ?c)" using b by (simp_all add: on_border_def)
  have u: "unat (ucast (grid_y ?c) :: u8) = unat (grid_y ?c)"
    using w by (simp add: enclosed_def world_grid_def unsigned_ucast_eq take_bit_eq_mod)
  have g: "0 < tile_size ?c" "grid_map (tile_size ?c) (unat (grid_x ?c)) (unat (ucast (grid_y ?c) :: u8)) (tile_map w)"
    using w u by (simp_all add: enclosed_def world_grid_def)
  have s: "tile_type (tile_map w ! (j * unat (grid_x ?c) + i)) \<noteq> Empty_tile" using w b by (simp add: enclosed_def)
  then have t: "tile_map w ! (j * unat (grid_x ?c) + i) = ?t" using g(2) ij u by (simp add: grid_map_def)
  from early_tile_found[OF run(1)[unfolded swept_axis_def] g field axis ij(1) _ s] ij(2) u early t
  have nl: "\<not> f64_lt (entry_time (SweptAABB p ?t vx vy)) (entry_time sd)" by auto
  note T = enclosed_tile[OF w ij]
  have "in_field (GetX ?t)" "in_field (GetY ?t)" using tile_atD(1)[OF T(1)] tile_atD(1)[OF T(2)] by simp_all
  from swept_range[OF field(1,2) this field(3,4)]
  have "f64_le f64_zero (entry_time (SweptAABB p ?t vx vy)) \<and> f64_le (entry_time (SweptAABB p ?t vx vy)) f64_one" by blast
  then have "is_fin (entry_time (SweptAABB p ?t vx vy))"
    using one_facts(1) inf_mag_bounds unfolding f64_le_def is_fin_key by simp
  then show ?thesis using nl run(2) by (simp add: f64_lt_fin)
qed

lemma enclosed_facts:
  assumes "enclosed w"
  shows "0 < tile_size (world_config w)" "17 \<le> uint (tile_size (world_config w))"
    "0 < unat (grid_x (world_config w))" "0 < unat (grid_y (world_config w))"
    "wall_x (world_config w) = uint (tile_size (world_config w)) * (int (unat (grid_x (world_config w))) - 1)"
    "wall_y (world_config w) = uint (tile_size (world_config w)) * (int (unat (grid_y (world_config w))) - 1)"
    "room (wall_x (world_config w)) (pc_width (player_config (world_config w)))"
    "room (wall_y (world_config w)) (pc_height (player_config (world_config w)))"
    "0 < pc_width (player_config (world_config w))" "0 < pc_height (player_config (world_config w))"
  using assms by (simp_all add: enclosed_def fitting_def world_grid_def wall_x_def wall_y_def word_less_nat_alt)

lemma placed_facts:
  assumes "enclosed w" "placed (world_config w) p"
  shows "GetWidth p = pc_width (player_config (world_config w))" "GetHeight p = pc_height (player_config (world_config w))"
    "in_field (GetX p)" "in_field (GetY p)"
    "between_walls (tile_size (world_config w)) (wall_x (world_config w)) (GetWidth p) (GetX p)"
    "between_walls (tile_size (world_config w)) (wall_y (world_config w)) (GetHeight p) (GetY p)"
    "room (wall_x (world_config w)) (GetWidth p)" "room (wall_y (world_config w)) (GetHeight p)"
proof -
  show s: "GetWidth p = pc_width (player_config (world_config w))" "GetHeight p = pc_height (player_config (world_config w))"
    and b: "between_walls (tile_size (world_config w)) (wall_x (world_config w)) (GetWidth p) (GetX p)"
    "between_walls (tile_size (world_config w)) (wall_y (world_config w)) (GetHeight p) (GetY p)"
    using assms(2) unfolding placed_def by blast+
  show r: "room (wall_x (world_config w)) (GetWidth p)" "room (wall_y (world_config w)) (GetHeight p)"
    using enclosed_facts(7,8)[OF assms(1)] s by simp_all
  show "in_field (GetX p)" "in_field (GetY p)" by (rule between_field(1)[OF b(1) r(1)] between_field(1)[OF b(2) r(2)])+
qed

text \<open>The tile of the border in the row or column of a placed box.\<close>

lemma hit_by_wall_x:
  assumes w: "enclosed w" and b: "placed (world_config w) p"
    and v: "in_field vx" "\<not> f64_eq vx f64_zero" and run: "swept_axis w p vx f64_zero = Inr sd" "is_fin (entry_time sd)"
    and i: "i = 0 \<or> Suc i = unat (grid_x (world_config w))" and a: "a = f64_of_int (int i * uint (tile_size (world_config w)))"
    and ahead: "wall_ahead (GetX p) (GetWidth p) a (tile_size (world_config w)) vx"
    and d: "axis_distances (GetX p) (GetWidth p) a (tile_size (world_config w)) vx = Some (en, ex)"
  shows "f64_val (entry_time sd) \<le> f64_val (f64_div en vx)"
proof -
  let ?c = "world_config w"
  note E = enclosed_facts[OF w] and P = placed_facts[OF w b]
  obtain j where j: "j < unat (grid_y ?c)" "of_int (int j * uint (tile_size ?c)) \<le> f64_val (GetY p)"
    "f64_val (GetY p) < of_int ((int j + 1) * uint (tile_size ?c))" using cell_index[OF P(6)[unfolded E(6)]] E(2) by auto
  have i': "i < unat (grid_x ?c)" using i E(3) by auto
  let ?t = "border_tile w i j"
  note T = enclosed_tile[OF w i' j(1)]
  have "axis_distances (GetY p) (GetHeight p) (GetY ?t) (GetHeight ?t) f64_zero = Some (f64_inf True, f64_inf False)"
    using overlap_cell[OF P(4) T(2) j(2,3), of "GetHeight p" f64_zero] E(10) P(2) by simp
  from wall_entry_x[OF P(3,4) _ _ v(1) _ _ v(2) this] d ahead tile_atD(1)[OF T(1)] tile_atD(1)[OF T(2)]
  have "entry_time (SweptAABB p ?t vx f64_zero) = f64_div en vx" by (simp add: a f64_eq_fin)
  moreover have "on_border (unat (grid_x ?c)) (unat (grid_y ?c)) i j" using i i' j(1) by (auto simp: on_border_def)
  from swept_by_wall[OF w this run P(3,4) v(1)] ahead tile_atD(2)[OF T(1)]
  have "f64_val (entry_time sd) \<le> f64_val (entry_time (SweptAABB p ?t vx f64_zero))" by (auto simp: wall_ahead_def Let_def a)
  ultimately show ?thesis by simp
qed

lemma hit_by_wall_y:
  assumes w: "enclosed w" and b: "placed (world_config w) p"
    and v: "in_field vy" "\<not> f64_eq vy f64_zero" and run: "swept_axis w p f64_zero vy = Inr sd" "is_fin (entry_time sd)"
    and j: "j = 0 \<or> Suc j = unat (grid_y (world_config w))" and a: "a = f64_of_int (int j * uint (tile_size (world_config w)))"
    and ahead: "wall_ahead (GetY p) (GetHeight p) a (tile_size (world_config w)) vy"
    and d: "axis_distances (GetY p) (GetHeight p) a (tile_size (world_config w)) vy = Some (en, ex)"
  shows "f64_val (entry_time sd) \<le> f64_val (f64_div en vy)"
proof -
  let ?c = "world_config w"
  note E = enclosed_facts[OF w] and P = placed_facts[OF w b]
  obtain i where i: "i < unat (grid_x ?c)" "of_int (int i * uint (tile_size ?c)) \<le> f64_val (GetX p)"
    "f64_val (GetX p) < of_int ((int i + 1) * uint (tile_size ?c))" using cell_index[OF P(5)[unfolded E(5)]] E(2) by auto
  have j': "j < unat (grid_y ?c)" using j E(4) by auto
  let ?t = "border_tile w i j"
  note T = enclosed_tile[OF w i(1) j']
  have "axis_distances (GetX p) (GetWidth p) (GetX ?t) (GetWidth ?t) f64_zero = Some (f64_inf True, f64_inf False)"
    using overlap_cell[OF P(3) T(1) i(2,3), of "GetWidth p" f64_zero] E(9) P(1) by simp
  from wall_entry_y[OF P(3,4) _ _ _ v(1) _ v(2) this] d ahead tile_atD(1)[OF T(1)] tile_atD(1)[OF T(2)]
  have "entry_time (SweptAABB p ?t f64_zero vy) = f64_div en vy" by (simp add: a f64_eq_fin)
  moreover have "on_border (unat (grid_x ?c)) (unat (grid_y ?c)) i j" using j j' i(1) by (auto simp: on_border_def)
  from swept_by_wall[OF w this run P(3,4) _ v(1)] ahead tile_atD(2)[OF T(2)]
  have "f64_val (entry_time sd) \<le> f64_val (entry_time (SweptAABB p ?t f64_zero vy))" by (auto simp: wall_ahead_def Let_def a)
  ultimately show ?thesis by simp
qed

lemma grid_side:
  assumes "tile_at p tile (int n)" "int n = int m - 1"
  shows "is_fin p" "f64_val p = of_int (uint tile * (int m - 1))"
  using assms tile_atD(1,10)[OF assms(1)] by (simp_all add: mult.commute)

lemma sweep_x_between:
  assumes w: "enclosed w" and b: "placed (world_config w) p"
    and v: "in_field vx" "- 8 \<le> f64_val vx" "f64_val vx \<le> 32" "\<not> f64_eq vx f64_zero"
    and run: "swept_axis w p vx f64_zero = Inr sd" "is_fin (entry_time sd)" "0 \<le> f64_val (entry_time sd)" "f64_val (entry_time sd) \<le> 1"
  shows "between_walls (tile_size (world_config w)) (wall_x (world_config w)) (GetWidth p) (f64_add (GetX p) (f64_mul vx (entry_time sd)))"
proof -
  let ?gx = "unat (grid_x (world_config w))"
  note E = enclosed_facts[OF w] and P = placed_facts[OF w b]
  have last: "int (?gx - 1) = int ?gx - 1" using E(3) by simp
  note t0 = enclosed_tile(1)[OF w E(3,4)] and tl = enclosed_tile(1)[OF w _ E(4), of "?gx - 1"]
  show ?thesis
  proof (rule step_between[OF P(5,7) E(2) v(1-3) run(2-4) t0[simplified] grid_side[OF tl last, folded E(5)]])
    fix wall en ex
    assume "wall = f64_of_int 0 \<or> wall = f64_of_int (int (?gx - 1) * uint (tile_size (world_config w)))"
      and h: "wall_ahead (GetX p) (GetWidth p) wall (tile_size (world_config w)) vx"
        "axis_distances (GetX p) (GetWidth p) wall (tile_size (world_config w)) vx = Some (en, ex)"
    then show "f64_val (entry_time sd) \<le> f64_val (f64_div en vx)"
      using hit_by_wall_x[OF w b v(1,4) run(1,2) _ _ h, of 0] hit_by_wall_x[OF w b v(1,4) run(1,2) _ _ h, of "?gx - 1"] E(3) by auto
  qed (use E(3) in simp_all)
qed

lemma sweep_y_between:
  assumes w: "enclosed w" and b: "placed (world_config w) p"
    and v: "in_field vy" "- 8 \<le> f64_val vy" "f64_val vy \<le> 32" "\<not> f64_eq vy f64_zero"
    and run: "swept_axis w p f64_zero vy = Inr sd" "is_fin (entry_time sd)" "0 \<le> f64_val (entry_time sd)" "f64_val (entry_time sd) \<le> 1"
  shows "between_walls (tile_size (world_config w)) (wall_y (world_config w)) (GetHeight p) (f64_add (GetY p) (f64_mul vy (entry_time sd)))"
proof -
  let ?gy = "unat (grid_y (world_config w))"
  note E = enclosed_facts[OF w] and P = placed_facts[OF w b]
  have last: "int (?gy - 1) = int ?gy - 1" using E(4) by simp
  note t0 = enclosed_tile(2)[OF w E(3,4)] and tl = enclosed_tile(2)[OF w E(3), of "?gy - 1"]
  show ?thesis
  proof (rule step_between[OF P(6,8) E(2) v(1-3) run(2-4) t0[simplified] grid_side[OF tl last, folded E(6)]])
    fix wall en ex
    assume "wall = f64_of_int 0 \<or> wall = f64_of_int (int (?gy - 1) * uint (tile_size (world_config w)))"
      and h: "wall_ahead (GetY p) (GetHeight p) wall (tile_size (world_config w)) vy"
        "axis_distances (GetY p) (GetHeight p) wall (tile_size (world_config w)) vy = Some (en, ex)"
    then show "f64_val (entry_time sd) \<le> f64_val (f64_div en vy)"
      using hit_by_wall_y[OF w b v(1,4) run(1,2) _ _ h, of 0] hit_by_wall_y[OF w b v(1,4) run(1,2) _ _ h, of "?gy - 1"] E(4) by auto
  qed (use E(4) in simp_all)
qed

section \<open>Moving a player\<close>

text \<open>A horizontal speed a client can cause in a tick of at most 20 ms.\<close>

definition slow :: "f64 \<Rightarrow> bool" where
  "slow v \<longleftrightarrow> is_fin v \<and> \<bar>f64_val v\<bar> \<le> 2"

text \<open>The vertical speed is bounded by the height of the fall, up to a head start \<open>h\<close>.\<close>

definition falling :: "GameConfig \<Rightarrow> rat \<Rightarrow> f64 \<Rightarrow> f64 \<Rightarrow> bool" where
  "falling cfg h y v \<longleftrightarrow> is_fin v \<and> - 8 \<le> f64_val v \<and> f64_val v \<le> h + (f64_val y - of_int (uint (tile_size cfg))) / 64"

definition inside :: "GameConfig \<Rightarrow> Player \<Rightarrow> bool" where
  "inside cfg p \<longleftrightarrow> placed cfg p \<and> slow (GetVelX p) \<and> falling cfg 16 (GetY p) (GetVelY p)"

lemma slow_zero [simp]: "slow f64_zero"
  by (simp add: slow_def)

lemma placed_sum:
  assumes "enclosed w" "placed (world_config w) p" "in_field v" "- 8 \<le> f64_val v"
  shows "0 \<le> f64_val (f64_add (GetX p) v)" "0 \<le> f64_val (f64_add (GetY p) v)" "0 \<le> f64_val (GetX p)" "0 \<le> f64_val (GetY p)"
proof -
  note P = placed_facts[OF assms(1,2)] and T = enclosed_facts(2)[OF assms(1)]
  have "rat_of_int 17 \<le> of_int (uint (tile_size (world_config w)))" using T by (simp only: of_int_le_iff)
  then have g: "17 \<le> f64_val (GetX p)" "17 \<le> f64_val (GetY p)"
    using P(5,6) unfolding between_walls_def by (simp_all only: of_int_numeral) (blast intro: order_trans)+
  then show "0 \<le> f64_val (GetX p)" "0 \<le> f64_val (GetY p)" by simp_all
  have "of_int 0 \<le> rv (f64_val a + f64_val v)" if "in_field a" "17 \<le> f64_val a" for a
    using moved_side(4)[of a v] that assms(3,4) by (intro rv_ge_int) simp_all
  then show "0 \<le> f64_val (f64_add (GetX p) v)" "0 \<le> f64_val (f64_add (GetY p) v)"
    using moved_side(1)[of "GetX p" v] moved_side(1)[of "GetY p" v] P(3,4) g assms(3) by simp_all
qed

lemma slow_field: "slow v \<Longrightarrow> in_field v \<and> - 8 \<le> f64_val v \<and> f64_val v \<le> 32"
  by (auto simp: slow_def abs_le_iff)

lemma slow_scaled:
  assumes "slow v" "is_fin e" "0 \<le> f64_val e" "f64_val e \<le> 1"
  shows "slow (f64_mul v e)"
proof -
  have b: "\<bar>f64_val v * f64_val e\<bar> \<le> 2"
    using assms mult_mono[of "\<bar>f64_val v\<bar>" 2 "f64_val e" 1] by (simp add: slow_def abs_mult)
  then have m: "moderate (f64_val v * f64_val e)" by simp
  have "\<bar>rv (f64_val v * f64_val e)\<bar> \<le> 2"
    using b rv_le_int[OF _ _ m, of 2] rv_ge_int[OF _ _ m, of "-2"] by (simp add: abs_le_iff)
  then show ?thesis using f64_mul_val[OF _ assms(2) m] assms(1) by (simp add: slow_def)
qed

lemma placed_simps [simp]:
  "placed cfg (SetVel a b p) = placed cfg p" "placed cfg (SetOnGround g p) = placed cfg p"
  by (simp_all add: placed_def)

lemma between_walls_cong: "f64_val b = f64_val a \<Longrightarrow> is_fin b \<Longrightarrow> between_walls tile E ext a \<Longrightarrow> between_walls tile E ext b"
  by (simp add: between_walls_def)

lemma placed_Move:
  assumes "placed cfg p"
  shows "between_walls (tile_size cfg) (wall_x cfg) (GetWidth p) (f64_add (GetX p) dx) \<Longrightarrow>
      between_walls (tile_size cfg) (wall_y cfg) (GetHeight p) (f64_add (GetY p) dy) \<Longrightarrow> placed cfg (Move dx dy p)"
  using assms unfolding placed_def Move_simps by blast

lemma vel_simps [simp]:
  "GetVelX (SetVel a b p) = a" "GetVelY (SetVel a b p) = b" "GetVelX (SetOnGround g p) = GetVelX p" "GetVelY (SetOnGround g p) = GetVelY p"
  "GetVelX (Move dx dy p) = GetVelX p" "GetVelY (Move dx dy p) = GetVelY p"
  by (simp_all add: SetVel_def SetOnGround_def Move_def)

lemma move_x_inside:
  assumes w: "enclosed w" and b: "placed (world_config w) p" and v: "slow vx" "slow (GetVelX p)"
  shows "\<exists>vx' p'. move_x w p vx vy = Inr (vx', p') \<and> slow vx' \<and> slow (GetVelX p') \<and> placed (world_config w) p' \<and>
    f64_val (GetY p') = f64_val (GetY p) \<and> (GetVelY p' = vy \<or> GetVelY p' = GetVelY p)"
proof (cases "f64_eq vx f64_zero")
  case True
  then show ?thesis using assms by (simp add: move_x_def)
next
  case False
  note P = placed_facts[OF w b] and V = slow_field[OF v(1)]
  have g: "world_grid w" using w by (simp add: enclosed_def)
  note z = zero_step[OF P(4)]
  obtain sd where run: "swept_axis w p vx f64_zero = Inr sd"
    using swept_axis_ok[OF g P(3,4), of vx f64_zero] placed_sum[OF w b, of vx] V z by auto
  note r = swept_axis_range[OF g P(3,4) conjunct1[OF V] _ run, simplified]
  let ?v = "f64_mul vx (entry_time sd)" and ?p = "Move (f64_mul vx (entry_time sd)) f64_zero p"
  have "between_walls (tile_size (world_config w)) (wall_x (world_config w)) (GetWidth p) (f64_add (GetX p) ?v)"
    using sweep_x_between[OF w b _ _ _ False run r(1-3)] V by simp
  then have pl: "placed (world_config w) ?p"
    by (rule placed_Move[OF b _ between_walls_cong[OF z(1) conjunct1[OF z(2)] P(6)]])
  have "move_x w p vx vy = Inr (?v, if hit sd then SetVel f64_zero vy ?p else ?p)"
    using False run by (simp add: move_x_def Let_def)
  then show ?thesis using pl v(2) slow_scaled[OF v(1) r(1-3)] z(1)
    by (intro exI[of _ ?v] exI[of _ "if hit sd then SetVel f64_zero vy ?p else ?p"]) simp
qed

lemma rv_floor:
  assumes "\<bar>q\<bar> \<le> 2 ^ 50" shows "q - 1 \<le> rv q"
proof -
  have q: "q \<le> of_int (2 ^ 50)" "of_int (- (2 ^ 50)) \<le> q" using assms by (simp_all add: abs_le_iff)
  have "\<lfloor>q\<rfloor> \<le> 2 ^ 50" "- (2 ^ 50) \<le> \<lfloor>q\<rfloor>" using floor_mono[OF q(1)] floor_mono[OF q(2)] by (simp_all only: floor_of_int)
  moreover have "small_int n" if "n \<le> 2 ^ 50" "- (2 ^ 50) \<le> n" for n using that by simp
  ultimately have "small_int \<lfloor>q\<rfloor>" by blast
  moreover have "moderate q" using assms by simp
  ultimately have "of_int \<lfloor>q\<rfloor> \<le> rv q" by (intro rv_ge_int) simp_all
  then show ?thesis by linarith
qed

lemma fall_bounds:
  assumes w: "enclosed w" and b: "placed (world_config w) p" and v: "falling (world_config w) h (GetY p) v" "h \<le> 17"
  shows "in_field v" "- 8 \<le> f64_val v" "f64_val v \<le> 32" "of_int (uint (tile_size (world_config w))) \<le> f64_val (GetY p)"
    "f64_val (GetY p) \<le> 960"
proof -
  note P = placed_facts[OF w b]
  have "wall_y (world_config w) \<le> 960" using w by (simp add: enclosed_def fitting_def)
  then have "wall_y (world_config w) - uint (GetHeight p) \<le> 960" using uint_u8(1)[of "GetHeight p"] by linarith
  then have "rat_of_int (wall_y (world_config w) - uint (GetHeight p)) \<le> of_int 960" by (simp only: of_int_le_iff)
  then show y: "f64_val (GetY p) \<le> 960" using P(6) unfolding between_walls_def of_int_numeral by linarith
  show "of_int (uint (tile_size (world_config w))) \<le> f64_val (GetY p)" using P(6) by (simp add: between_walls_def)
  have "0 \<le> rat_of_int (uint (tile_size (world_config w)))" using uint_u8(1)[of "tile_size (world_config w)"] by simp
  moreover have "a \<le> 32" if "a \<le> h + (b - t) / 64" "h \<le> 17" "b \<le> 960" "0 \<le> t" for a b t :: rat
    using that by (simp add: diff_divide_distrib)
  ultimately show hi: "f64_val v \<le> 32" using v y unfolding falling_def by blast
  show lo: "- 8 \<le> f64_val v" using v by (simp add: falling_def)
  show "in_field v" using hi lo v by (simp add: falling_def abs_le_iff)
qed

lemma move_y_inside:
  assumes w: "enclosed w" and b: "placed (world_config w) p" and vx: "slow vx" "slow (GetVelX p)"
    and v: "GetVelY p = vy" "falling (world_config w) (16 + 14 / 64) (GetY p) vy"
  shows "\<exists>p'. move_y w p vx vy = Inr p' \<and> inside (world_config w) p'"
proof (cases "f64_eq vy f64_zero")
  case True
  have "in_field vy" "of_int (uint (tile_size (world_config w))) \<le> f64_val (GetY p)"
    using fall_bounds[OF w b v(2)] by simp_all
  then have "falling (world_config w) 16 (GetY p) vy" using True by (simp add: falling_def f64_eq_fin)
  then show ?thesis using True b vx v by (simp add: move_y_def inside_def)
next
  case False
  have "16 + 14 / 64 \<le> (17 :: rat)" by simp
  note P = placed_facts[OF w b] and F = fall_bounds[OF w b v(2) this]
  have g: "world_grid w" using w by (simp add: enclosed_def)
  note z = zero_step[OF P(3)]
  obtain sd where run: "swept_axis w p f64_zero vy = Inr sd"
    using swept_axis_ok[OF g P(3,4), of f64_zero vy] placed_sum[OF w b, of vy] F(1,2) z by auto
  have fz: "in_field f64_zero" by simp
  note r = swept_axis_range[OF g P(3,4) fz F(1) run]
  let ?v = "f64_mul vy (entry_time sd)" and ?p = "SetOnGround False (Move f64_zero (f64_mul vy (entry_time sd)) p)"
  have Y: "between_walls (tile_size (world_config w)) (wall_y (world_config w)) (GetHeight p) (f64_add (GetY p) ?v)"
    using sweep_y_between[OF w b F(1-3) False run r(1-3)] .
  then have pl: "placed (world_config w) ?p"
    using placed_Move[OF b between_walls_cong[OF z(1) conjunct1[OF z(2)] P(5)], of ?v] by simp
  have T: "of_int (uint (tile_size (world_config w))) \<le> f64_val (f64_add (GetY p) ?v)" using Y by (simp add: between_walls_def)
  show ?thesis
  proof (cases "hit sd")
    case True
    then have "move_y w p vx vy = Inr (SetVel vx f64_zero (if f64_le f64_zero ?v then SetOnGround True ?p else ?p))"
      using False run by (simp add: move_y_def Let_def)
    moreover have "falling (world_config w) 16 (f64_add (GetY p) ?v) f64_zero" using T by (simp add: falling_def)
    ultimately show ?thesis using pl vx(1) by (simp add: inside_def)
  next
    case miss: False
    then have e: "entry_time sd = f64_one" using r(4) by (simp add: no_hit_def)
    have "moderate (f64_val vy * f64_val f64_one)" using F(1) one_facts by simp
    from f64_mul_val[OF _ one_facts(1) this] have one: "f64_val ?v = f64_val vy" "is_fin ?v"
      using F(1) one_facts e by simp_all
    have "in_field ?v" using one F(1) by simp
    then have y': "f64_val (f64_add (GetY p) ?v) = rv (f64_val (GetY p) + f64_val vy)"
      using moved_side(1)[of "GetY p" ?v] P(4) one by simp
    have "f64_val vy \<le> 16 + (f64_val (f64_add (GetY p) ?v) - of_int (uint (tile_size (world_config w)))) / 64"
    proof (cases "f64_val vy \<le> 16")
      case True
      then show ?thesis using T by (simp add: field_simps)
    next
      case f: False
      have "f64_val (GetY p) + f64_val vy - 1 \<le> f64_val (f64_add (GetY p) ?v)"
        unfolding y' using F P(4) by (intro rv_floor) (simp add: abs_le_iff)
      with f v(2) show ?thesis by (simp add: falling_def field_simps)
    qed
    then have "falling (world_config w) 16 (f64_add (GetY p) ?v) vy" using F by (simp add: falling_def)
    moreover have "move_y w p vx vy = Inr ?p" using False run miss by (simp add: move_y_def Let_def)
    ultimately show ?thesis using pl vx(2) v(1) by (simp add: inside_def)
  qed
qed

lemma MovePlayer_inside:
  assumes w: "enclosed w" and b: "placed (world_config w) p" and v: "slow (GetVelX p)"
    and f: "falling (world_config w) (16 + 14 / 64) (GetY p) (GetVelY p)"
  shows "\<exists>p'. World_MovePlayer w p = Inr p' \<and> inside (world_config w) p'"
proof -
  obtain vx' p1 where p1: "move_x w p (GetVelX p) (GetVelY p) = Inr (vx', p1)" "slow vx'" "slow (GetVelX p1)"
    "placed (world_config w) p1" "f64_val (GetY p1) = f64_val (GetY p)" "GetVelY p1 = GetVelY p"
    using move_x_inside[OF w b v v, of "GetVelY p"] by auto
  have "falling (world_config w) (16 + 14 / 64) (GetY p1) (GetVelY p)" using f p1(5) by (simp add: falling_def)
  from move_y_inside[OF w p1(4,2,3,6) this] p1(1) show ?thesis by (simp add: World_MovePlayer_def Let_def)
qed

section \<open>One update\<close>

text \<open>The measured length of a tick: at most 20 ms, which the rate of 60 Hz leaves room for.\<close>

definition short :: "f64 \<Rightarrow> bool" where
  "short dt \<longleftrightarrow> is_fin dt \<and> 0 \<le> f64_val dt \<and> f64_val dt \<le> 1 / 50"

lemma short_product:
  assumes "short dt" "is_fin c" "0 \<le> f64_val c" "is_fin b" "f64_val c / 50 \<le> f64_val b" "f64_val c \<le> 1000"
  shows "is_fin (f64_mul c dt)" "0 \<le> f64_val (f64_mul c dt)" "f64_val (f64_mul c dt) \<le> f64_val b"
proof -
  have p: "0 \<le> f64_val c * f64_val dt" "f64_val c * f64_val dt \<le> f64_val c / 50"
    using assms(1,3) mult_left_mono[of "f64_val dt" "1 / 50" "f64_val c"] by (simp_all add: short_def)
  then have m: "moderate (f64_val c * f64_val dt)" using assms(6) by (simp add: abs_le_iff)
  have dt: "is_fin dt" using assms(1) by (simp add: short_def)
  show "is_fin (f64_mul c dt)" "0 \<le> f64_val (f64_mul c dt)" "f64_val (f64_mul c dt) \<le> f64_val b"
    using f64_mul_val[OF assms(2) dt m] rv_ge_int[OF _ _ m, of 0] rv_le[OF assms(4) _ m] p assms(5) by simp_all
qed

lemma constant_values:
  "is_fin (f64_lit 100)" "f64_val (f64_lit 100) = 100" "is_fin (f64_lit 400)" "f64_val (f64_lit 400) = 400"
  using f64_of_int_exact[of 100] f64_of_int_exact[of 400] by (simp_all add: f64_lit_def f64_of_int_def)

lemma speed_slow:
  assumes "short dt"
  shows "slow (f64_mul (f64_lit 100) dt)" "slow (f64_minus (f64_mul (f64_lit 100) dt))"
  using short_product[OF assms constant_values(1), of "f64_of_int 2"] f64_of_int_exact[of 2]
  by (simp_all add: slow_def constant_values)

lemma jump_falling:
  assumes "short dt" "of_int (uint (tile_size cfg)) \<le> f64_val y"
  shows "falling cfg 16 y (f64_minus (f64_mul (f64_lit 400) dt))"
proof -
  note j = short_product[OF assms(1) constant_values(3), of "f64_of_int 8"]
  have "0 \<le> (f64_val y - of_int (uint (tile_size cfg))) / 64" using assms(2) by simp
  moreover have "0 \<le> f64_val (f64_mul (f64_lit 400) dt)" "f64_val (f64_mul (f64_lit 400) dt) \<le> 8" "is_fin (f64_mul (f64_lit 400) dt)"
    using j f64_of_int_exact[of 8] by (simp_all add: constant_values)
  ultimately show ?thesis unfolding falling_def f64_minus_simps by (intro conjI; linarith?)
qed

definition gravity_bound :: f64 where
  "gravity_bound = f64_lit (13 / 64)"

lemma gravity_values: "is_fin gravity" "0 \<le> f64_val gravity" "f64_val gravity / 50 \<le> f64_val gravity_bound" "f64_val gravity \<le> 1000"
  "is_fin gravity_bound" "f64_val gravity_bound = 13 / 64"
  by code_simp+

lemma gravity_falling:
  assumes w: "enclosed w" and p: "inside (world_config w) p" and dt: "short dt"
  shows "falling (world_config w) (16 + 14 / 64) (GetY p) (f64_add (GetVelY p) (f64_mul gravity dt))"
proof -
  note g = short_product[OF dt gravity_values(1,2,5,3,4)]
  have f: "falling (world_config w) 16 (GetY p) (GetVelY p)" "placed (world_config w) p" using p by (simp_all add: inside_def)
  have "(16 :: rat) \<le> 17" by simp
  note F = fall_bounds[OF w f(2,1) this]
  have q: "- 8 \<le> f64_val (GetVelY p) + f64_val (f64_mul gravity dt)" "f64_val (GetVelY p) + f64_val (f64_mul gravity dt) \<le> 64"
    using F(2,3) g(2,3) gravity_values(6) by simp_all
  then have b: "\<bar>f64_val (GetVelY p) + f64_val (f64_mul gravity dt)\<bar> \<le> 2 powi (5 + 1)" by (simp add: abs_le_iff)
  then have m: "moderate (f64_val (GetVelY p) + f64_val (f64_mul gravity dt))" by simp
  note a = f64_add_val[OF _ g(1) m]
  have "- 8 \<le> rv (f64_val (GetVelY p) + f64_val (f64_mul gravity dt))" using rv_ge_int[OF _ _ m, of "- 8"] q(1) by simp
  moreover have "rv (f64_val (GetVelY p) + f64_val (f64_mul gravity dt)) \<le> f64_val (GetVelY p) + f64_val (f64_mul gravity dt) + 1 / 64"
  proof -
    have "(2 :: rat) powi (5 - 53) \<le> 1 / 64" by simp
    then show ?thesis using rv_error[OF b] unfolding abs_le_iff by linarith
  qed
  ultimately show ?thesis using a F(1) f(1) g(3) gravity_values(6) by (simp add: falling_def)
qed

text \<open>One update: the player of a closed world stays inside, and the update does not fault.\<close>

lemma update_inside:
  assumes "enclosed w" "inside (world_config w) p" "short dt"
  shows "\<exists>p'. World_MovePlayer w (fallen dt p) = Inr p' \<and> inside (world_config w) p'"
proof -
  have "placed (world_config w) p" "slow (GetVelX p)" using assms(2) by (simp_all add: inside_def)
  with MovePlayer_inside[OF assms(1), of "fallen dt p"] gravity_falling[OF assms] show ?thesis by (simp add: fallen_def)
qed

text \<open>
  C10. One update of a player on a closed map. If the border of the map is solid and the player's
  box lies between the walls, with a horizontal speed of at most 2 and a fall no faster than its
  height allows, then \<open>Update\<close> with a time step of at most 20 ms returns, and the same holds
  after it: the collision test stops the player in front of every wall, rounding included.
\<close>

theorem update_keeps_inside:
  assumes "enclosed w" "inside (world_config w) p" "short dt"
  shows "\<exists>p' w'. Update p dt w = Inr (p', w') \<and> inside (world_config w) p'"
  using update_inside[OF assms] by (auto simp: Update_eq)

end
