(* ===== verification/PacketHandler.thy ===== *)
theory PacketHandler
  imports Protocol
begin

text \<open>
  Assembling packets from a byte stream (\<open>src/net/session/packet_handler.hpp\<close>, \<open>.cpp\<close>). The
  socket writes the bytes it received through the pointers \<open>HeadCurrentData\<close> and
  \<open>BodyCurrentData\<close>, at most as many as \<open>HeadSizeLeft\<close> and \<open>BodySizeLeft\<close> say, and then the
  counters are advanced. Counters are \<open>size_t\<close>, their arithmetic wraps.
\<close>

section \<open>State and operations\<close>

record PacketHandler =
  head_already_read :: size_t
  body_already_read :: size_t
  ph_packet :: NetPacket

definition PacketHandler_new :: PacketHandler where
  "PacketHandler_new = \<lparr>head_already_read = 0, body_already_read = 0, ph_packet = NetPacket_default\<rparr>"

definition HeadSizeLeft :: "PacketHandler \<Rightarrow> size_t" where
  "HeadSizeLeft h = of_nat sizeof_PacketHead - head_already_read h"

definition BodySizeLeft :: "PacketHandler \<Rightarrow> size_t" where
  "BodySizeLeft h = of_nat (GetBodySize (ph_packet h)) - body_already_read h"

text \<open>Bytes written through \<open>HeadCurrentData()\<close>.\<close>

definition HeadCurrentData_write :: "PacketHandler \<Rightarrow> u8 list \<Rightarrow> PacketHandler res" where
  "HeadCurrentData_write h bs =
     (let off = unat (head_already_read h); mem = head_bytes (head (ph_packet h)) in
      if off + length bs \<le> length mem
      then Inr (h\<lparr>ph_packet := (ph_packet h)\<lparr>head := head_of_bytes (splice off bs mem)\<rparr>\<rparr>)
      else Inl OutOfBounds)"

text \<open>Bytes written through \<open>BodyCurrentData()\<close>, which is null while there is no body.\<close>

definition BodyCurrentData_write :: "PacketHandler \<Rightarrow> u8 list \<Rightarrow> PacketHandler res" where
  "BodyCurrentData_write h bs =
     (case GetBodyData (ph_packet h) of
        None \<Rightarrow> Inl NullDeref
      | Some b \<Rightarrow>
         (let off = unat (body_already_read h) in
          if off + length bs \<le> length b
          then Inr (h\<lparr>ph_packet := (ph_packet h)\<lparr>body := Some (splice off bs b)\<rparr>\<rparr>)
          else Inl OutOfBounds))"

definition ExtractPacket :: "PacketHandler \<Rightarrow> NetPacket \<times> PacketHandler" where
  "ExtractPacket h =
     (let (p, rest) = NetPacket_move (ph_packet h)
      in (p, h\<lparr>head_already_read := 0, body_already_read := 0, ph_packet := rest\<rparr>))"

definition UpdateHeadSize :: "PacketHandler \<Rightarrow> size_t \<Rightarrow> bool \<times> PacketHandler" where
  "UpdateHeadSize h sz =
     (let h1 = h\<lparr>head_already_read := head_already_read h + sz\<rparr> in
      if head_already_read h1 < of_nat sizeof_PacketHead then (False, h1)
      else if \<not> IsValidHeader (ph_packet h1) then (False, h1\<lparr>head_already_read := 0\<rparr>)
      else (True, h1\<lparr>ph_packet := ResizeBody (ph_packet h1) (unat (GetHeadSize (ph_packet h1)))\<rparr>))"

definition UpdateBodySize :: "PacketHandler \<Rightarrow> size_t \<Rightarrow> bool \<times> PacketHandler" where
  "UpdateBodySize h sz =
     (let h1 = h\<lparr>body_already_read := body_already_read h + sz\<rparr> in
      if body_already_read h1 < ucast (GetHeadSize (ph_packet h1)) then (False, h1)
      else (True, h1\<lparr>head_already_read := 0, body_already_read := 0\<rparr>))"

section \<open>The read loop\<close>

text \<open>
  \<open>Session::ReadPacketHead\<close> and \<open>Session::ReadPacketBody\<close> chain reads: \<open>InHead\<close> and \<open>InBody\<close>
  say which of the two has its read outstanding. A completed read delivers a chunk; the handler
  decides which read follows and whether a packet is handed to the server.
\<close>

datatype read_phase = InHead | InBody

record reader =
  phase :: read_phase
  handler :: PacketHandler

definition reader_new :: reader where
  "reader_new = \<lparr>phase = InHead, handler = PacketHandler_new\<rparr>"

definition read_limit :: "reader \<Rightarrow> size_t" where
  "read_limit r = (case phase r of InHead \<Rightarrow> HeadSizeLeft (handler r) | InBody \<Rightarrow> BodySizeLeft (handler r))"

definition OnReadHead :: "PacketHandler \<Rightarrow> u8 list \<Rightarrow> (reader \<times> NetPacket option) res" where
  "OnReadHead h chunk =
     rbind (HeadCurrentData_write h chunk) (\<lambda>h0.
       (case UpdateHeadSize h0 (of_nat (length chunk)) of
          (False, h1) \<Rightarrow> Inr (\<lparr>phase = InHead, handler = h1\<rparr>, None)
        | (True, h1) \<Rightarrow>
            (if BodySizeLeft h1 \<noteq> 0 then Inr (\<lparr>phase = InBody, handler = h1\<rparr>, None)
             else (case ExtractPacket h1 of (p, h2) \<Rightarrow> Inr (\<lparr>phase = InHead, handler = h2\<rparr>, Some p)))))"

definition OnReadBody :: "PacketHandler \<Rightarrow> u8 list \<Rightarrow> (reader \<times> NetPacket option) res" where
  "OnReadBody h chunk =
     rbind (BodyCurrentData_write h chunk) (\<lambda>h0.
       (case UpdateBodySize h0 (of_nat (length chunk)) of
          (False, h1) \<Rightarrow> Inr (\<lparr>phase = InBody, handler = h1\<rparr>, None)
        | (True, h1) \<Rightarrow>
            (case ExtractPacket h1 of (p, h2) \<Rightarrow> Inr (\<lparr>phase = InHead, handler = h2\<rparr>, Some p))))"

definition OnRead :: "reader \<Rightarrow> u8 list \<Rightarrow> (reader \<times> NetPacket option) res" where
  "OnRead r chunk = (case phase r of InHead \<Rightarrow> OnReadHead (handler r) chunk | InBody \<Rightarrow> OnReadBody (handler r) chunk)"

definition emitted :: "NetPacket option \<Rightarrow> NetPacket list" where
  "emitted o1 = (case o1 of None \<Rightarrow> [] | Some p \<Rightarrow> [p])"

text \<open>
  A run of the loop over the chunks the socket delivers, each no longer than the limit asked
  for: what it hands out and where it stands after them.
\<close>

inductive reads :: "reader \<Rightarrow> u8 list list \<Rightarrow> NetPacket list \<Rightarrow> reader \<Rightarrow> bool" where
  reads_nil: "reads r [] [] r"
| reads_cons: "length c \<le> unat (read_limit r) \<Longrightarrow> OnRead r c = Inr (r', o1) \<Longrightarrow>
     reads r' cs ps r'' \<Longrightarrow> reads r (c # cs) (emitted o1 @ ps) r''"

text \<open>The same run as a function, \<open>None\<close> where a chunk exceeds the limit or a handler faults.\<close>

fun read_all :: "reader \<Rightarrow> u8 list list \<Rightarrow> (NetPacket list \<times> reader) option" where
  "read_all r [] = Some ([], r)"
| "read_all r (c # cs) =
     (if length c \<le> unat (read_limit r)
      then (case OnRead r c of
              Inl _ \<Rightarrow> None
            | Inr (r', o1) \<Rightarrow> map_option (\<lambda>(ps, r''). (emitted o1 @ ps, r'')) (read_all r' cs))
      else None)"

lemma read_all_reads: "read_all r cs = Some (ps, r') \<Longrightarrow> reads r cs ps r'"
  by (induction cs arbitrary: r ps r') (auto intro: reads.intros split: if_splits sum.splits)

section \<open>Reference: splitting a whole stream\<close>

text \<open>
  The framing rule without buffers and counters: six header bytes; an invalid header is
  skipped; a valid one is followed by as many body bytes as it says.
\<close>

function frames :: "u8 list \<Rightarrow> NetPacket list" where
  "frames bs =
     (if length bs < 6 then []
      else let h = head_of_bytes (take 6 bs); p = \<lparr>head = h, body = None\<rparr>; n = unat (GetHeadSize p)
           in if \<not> IsValidHeader p then frames (drop 6 bs)
              else if length bs < 6 + n then []
              else p\<lparr>body := Some (take n (drop 6 bs))\<rparr> # frames (drop (6 + n) bs))"
  by pat_completeness auto
termination
  by (relation "measure length") auto

declare frames.simps [simp del]

section \<open>Framing does not depend on how the stream is cut\<close>

definition head_packet :: "u8 list \<Rightarrow> NetPacket" where
  "head_packet hb = \<lparr>head = head_of_bytes hb, body = None\<rparr>"

lemma frames_short: "length bs < 6 \<Longrightarrow> frames bs = []"
  by (simp add: frames.simps)

lemma frames_invalid:
  "length hb = 6 \<Longrightarrow> \<not> IsValidHeader (head_packet hb) \<Longrightarrow> frames (hb @ rest) = frames rest"
  by (subst frames.simps) (simp add: head_packet_def Let_def)

lemma frames_partial:
  "length hb = 6 \<Longrightarrow> IsValidHeader (head_packet hb) \<Longrightarrow>
   length rest < unat (GetHeadSize (head_packet hb)) \<Longrightarrow> frames (hb @ rest) = []"
  by (subst frames.simps) (simp add: head_packet_def Let_def)

lemma frames_valid:
  "length hb = 6 \<Longrightarrow> IsValidHeader (head_packet hb) \<Longrightarrow>
   length b = unat (GetHeadSize (head_packet hb)) \<Longrightarrow>
   frames (hb @ b @ rest) = (head_packet hb)\<lparr>body := Some b\<rparr> # frames rest"
  by (subst frames.simps) (simp add: head_packet_def Let_def)

text \<open>The invariant of the loop, and the bytes of the packet under assembly.\<close>

definition reader_inv :: "reader \<Rightarrow> bool" where
  "reader_inv r = (let h = handler r; p = ph_packet h in
     (case phase r of
        InHead \<Rightarrow> unat (head_already_read h) < 6 \<and> body_already_read h = 0 \<and> body p = None
      | InBody \<Rightarrow> IsValidHeader p \<and>
          (case body p of None \<Rightarrow> False
           | Some b \<Rightarrow> length b = unat (GetHeadSize p) \<and> unat (body_already_read h) < length b)))"

definition pending :: "reader \<Rightarrow> u8 list" where
  "pending r = (let h = handler r; p = ph_packet h in
     (case phase r of
        InHead \<Rightarrow> take (unat (head_already_read h)) (head_bytes (head p))
      | InBody \<Rightarrow> head_bytes (head p) @
          take (unat (body_already_read h)) (case body p of None \<Rightarrow> [] | Some b \<Rightarrow> b)))"

lemma reader_inv_new: "reader_inv reader_new" and pending_new: "pending reader_new = []"
  by (simp_all add: reader_inv_def pending_def reader_new_def PacketHandler_new_def NetPacket_default_def)

lemma frames_pending: "reader_inv r \<Longrightarrow> frames (pending r) = []"
proof (cases "phase r")
  case InHead
  assume "reader_inv r"
  with InHead show ?thesis by (intro frames_short) (auto simp: reader_inv_def pending_def Let_def)
next
  case InBody
  assume inv: "reader_inv r"
  let ?p = "ph_packet (handler r)"
  have "head_packet (head_bytes (head ?p)) = ?p\<lparr>body := None\<rparr>"
    by (simp add: head_packet_def)
  with inv InBody show ?thesis
    by (auto simp: reader_inv_def pending_def Let_def sizeof_PacketHead_def IsValidHeader_def
        GetHeadSize_def split: option.splits intro!: frames_partial)
qed

lemma unat_of_nat_small: "n < 2 ^ 32 \<Longrightarrow> unat (of_nat n :: size_t) = n"
  by (simp add: unat_of_nat)

lemma unat_add_small: "unat a + n < 2 ^ 32 \<Longrightarrow> unat (a + of_nat n :: size_t) = unat a + n"
  using unat_of_nat_small[of n] by (subst unat_add_lem[THEN iffD1]) simp_all

lemma HeadSizeLeft_unat: "unat (head_already_read h) \<le> 6 \<Longrightarrow> unat (HeadSizeLeft h) = 6 - unat (head_already_read h)"
  by (simp add: HeadSizeLeft_def sizeof_PacketHead_def unat_sub word_le_nat_alt)

lemma BodySizeLeft_unat:
  assumes "GetBodySize (ph_packet h) < 2 ^ 32" "unat (body_already_read h) \<le> GetBodySize (ph_packet h)"
  shows "unat (BodySizeLeft h) = GetBodySize (ph_packet h) - unat (body_already_read h)"
proof -
  have "body_already_read h \<le> of_nat (GetBodySize (ph_packet h))"
    using assms by (simp add: word_le_nat_alt unat_of_nat_small)
  then show ?thesis using assms by (simp add: BodySizeLeft_def unat_sub unat_of_nat_small)
qed

lemma head_size_small: "unat (GetHeadSize p) < 2 ^ 32"
  using unsigned_less[of "GetHeadSize p"] by simp

lemma take_splice: "off \<le> length mem \<Longrightarrow> take (off + length bs) (splice off bs mem) = take off mem @ bs"
  by (simp add: splice_def)

lemma length_splice: "off + length bs \<le> length mem \<Longrightarrow> length (splice off bs mem) = length mem"
  by (simp add: splice_def)

text \<open>What one step of the loop must achieve.\<close>

definition reads_well :: "reader \<Rightarrow> u8 list \<Rightarrow> bool" where
  "reads_well r c \<longleftrightarrow> (\<exists>r' o1. OnRead r c = Inr (r', o1) \<and> reader_inv r' \<and>
     (\<forall>rest. frames (pending r @ c @ rest) = emitted o1 @ frames (pending r' @ rest)))"

lemma reads_wellI:
  assumes "OnRead r c = Inr (r', o1)" "reader_inv r'"
    and "\<And>rest. frames ((pending r @ c) @ rest) = emitted o1 @ frames (pending r' @ rest)"
  shows "reads_well r c"
  using assms by (auto simp: reads_well_def)

abbreviation in_head :: "PacketHandler \<Rightarrow> reader" where
  "in_head h \<equiv> \<lparr>phase = InHead, handler = h\<rparr>"

abbreviation in_body :: "PacketHandler \<Rightarrow> reader" where
  "in_body h \<equiv> \<lparr>phase = InBody, handler = h\<rparr>"

definition head_after :: "PacketHandler \<Rightarrow> u8 list \<Rightarrow> u8 list" where
  "head_after h c = splice (unat (head_already_read h)) c (head_bytes (head (ph_packet h)))"

lemma head_filled:
  assumes "reader_inv (in_head h)" "unat (head_already_read h) + length c \<le> 6"
  shows "length (head_after h c) = 6"
    and "take (unat (head_already_read h) + length c) (head_after h c) = pending (in_head h) @ c"
    and "HeadCurrentData_write h c = Inr (h\<lparr>ph_packet := head_packet (head_after h c)\<rparr>)"
    and "unat (head_already_read h + of_nat (length c)) = unat (head_already_read h) + length c"
  using assms
  by (simp_all add: head_after_def length_splice take_splice sizeof_PacketHead_def pending_def
      HeadCurrentData_write_def head_packet_def reader_inv_def unat_add_small Let_def)

lemmas head_step_defs = OnRead_def OnReadHead_def UpdateHeadSize_def Let_def

lemma OnReadHead_more:
  assumes inv: "reader_inv (in_head h)" and len: "unat (head_already_read h) + length c < 6"
  shows "reads_well (in_head h) c"
proof -
  define h1 where "h1 = h\<lparr>ph_packet := head_packet (head_after h c),
    head_already_read := head_already_read h + of_nat (length c)\<rparr>"
  note f = head_filled[OF inv less_imp_le[OF len]]
  show ?thesis
  proof (rule reads_wellI)
    show "OnRead (in_head h) c = Inr (in_head h1, None)"
      using f len by (simp add: head_step_defs h1_def word_less_nat_alt sizeof_PacketHead_def)
    show "reader_inv (in_head h1)"
      using f len inv by (simp add: reader_inv_def h1_def head_packet_def)
    show "frames ((pending (in_head h) @ c) @ rest) = emitted None @ frames (pending (in_head h1) @ rest)" for rest
      unfolding f(2)[symmetric] using f
      by (simp add: pending_def h1_def head_packet_def emitted_def sizeof_PacketHead_def)
  qed
qed

lemma OnReadHead_bad:
  assumes inv: "reader_inv (in_head h)" and len: "unat (head_already_read h) + length c = 6"
    and bad: "\<not> IsValidHeader (head_packet (head_after h c))"
  shows "reads_well (in_head h) c"
proof -
  define h1 where "h1 = h\<lparr>ph_packet := head_packet (head_after h c), head_already_read := 0\<rparr>"
  note f = head_filled[OF inv eq_imp_le[OF len]]
  show ?thesis
  proof (rule reads_wellI)
    show "OnRead (in_head h) c = Inr (in_head h1, None)"
      using f len bad by (simp add: head_step_defs h1_def word_less_nat_alt sizeof_PacketHead_def)
    show "reader_inv (in_head h1)"
      using inv by (simp add: reader_inv_def h1_def head_packet_def)
    show "frames ((pending (in_head h) @ c) @ rest) = emitted None @ frames (pending (in_head h1) @ rest)" for rest
      unfolding f(2)[symmetric] using f(1) len frames_invalid[OF f(1) bad]
      by (simp add: pending_def h1_def emitted_def)
  qed
qed

lemma OnReadHead_good:
  assumes inv: "reader_inv (in_head h)" and len: "unat (head_already_read h) + length c = 6"
    and good: "IsValidHeader (head_packet (head_after h c))"
  shows "reads_well (in_head h) c"
proof -
  define p where "p = head_packet (head_after h c)"
  define n where "n = unat (GetHeadSize p)"
  define h2 where "h2 = h\<lparr>ph_packet := p\<lparr>body := Some (replicate n 0)\<rparr>,
    head_already_read := head_already_read h + of_nat (length c)\<rparr>"
  define h3 where "h3 = h\<lparr>head_already_read := 0, body_already_read := 0,
    ph_packet := p\<lparr>head := (head p)\<lparr>hd_size := 0\<rparr>, body := None\<rparr>\<rparr>"
  note f = head_filled[OF inv eq_imp_le[OF len]]
  have bar: "body_already_read h = 0" using inv by (simp add: reader_inv_def)
  have pn: "body p = None" "head_bytes (head p) = head_after h c"
    using f(1) by (simp_all add: p_def head_packet_def sizeof_PacketHead_def)
  have up: "UpdateHeadSize (h\<lparr>ph_packet := p\<rparr>) (of_nat (length c)) = (True, h2)"
    using f(4) len good pn
    by (simp add: UpdateHeadSize_def Let_def h2_def n_def p_def[symmetric] ResizeBody_def
        word_less_nat_alt sizeof_PacketHead_def)
  have left: "unat (BodySizeLeft h2) = n"
    using bar head_size_small[of p]
    by (subst BodySizeLeft_unat) (simp_all add: h2_def GetBodySize_def n_def)
  then have zero: "BodySizeLeft h2 = 0 \<longleftrightarrow> n = 0" using unat_eq_zero[of "BodySizeLeft h2"] by simp
  have ext: "ExtractPacket h2 = (p\<lparr>body := Some (replicate n 0)\<rparr>, h3)"
    by (simp add: ExtractPacket_def NetPacket_move_def h2_def h3_def)
  have hb: "(pending (in_head h) @ c) @ rest = head_after h c @ rest" for rest
    unfolding f(2)[symmetric] using f(1) len by simp
  show ?thesis
  proof (cases "n = 0")
    case True
    show ?thesis
    proof (rule reads_wellI)
      show "OnRead (in_head h) c = Inr (in_head h3, Some (p\<lparr>body := Some []\<rparr>))"
        using f(3) up zero ext True by (simp add: OnRead_def OnReadHead_def p_def)
      show "reader_inv (in_head h3)" by (simp add: reader_inv_def h3_def)
      show "frames ((pending (in_head h) @ c) @ rest) =
          emitted (Some (p\<lparr>body := Some []\<rparr>)) @ frames (pending (in_head h3) @ rest)" for rest
        unfolding hb using frames_valid[OF f(1) good, of "[]" rest] True
        by (simp add: emitted_def pending_def h3_def n_def p_def)
    qed
  next
    case False
    show ?thesis
    proof (rule reads_wellI)
      show "OnRead (in_head h) c = Inr (in_body h2, None)"
        using f(3) up zero False by (simp add: OnRead_def OnReadHead_def p_def)
      show "reader_inv (in_body h2)"
        using good False bar
        by (simp add: reader_inv_def h2_def n_def GetHeadSize_def IsValidHeader_def flip: p_def)
      show "frames ((pending (in_head h) @ c) @ rest) = emitted None @ frames (pending (in_body h2) @ rest)" for rest
        unfolding hb using pn bar by (simp add: emitted_def pending_def h2_def)
    qed
  qed
qed

lemma unat_ucast_u32: "unat (ucast (w :: u32) :: size_t) = unat w"
  using unsigned_less[of w, where 'a = nat] by (simp add: unsigned_ucast_eq take_bit_eq_mod)

lemma ucast_size_less: "(a :: size_t) < ucast (w :: u32) \<longleftrightarrow> unat a < unat w"
  by (simp add: word_less_nat_alt unat_ucast_u32)

definition body_after :: "PacketHandler \<Rightarrow> u8 list \<Rightarrow> u8 list" where
  "body_after h c = splice (unat (body_already_read h)) c (the (body (ph_packet h)))"

lemma body_filled:
  assumes inv: "reader_inv (in_body h)" and len: "length c \<le> unat (BodySizeLeft h)"
  shows "length (body_after h c) = unat (GetHeadSize (ph_packet h))"
    and "unat (body_already_read h) + length c \<le> unat (GetHeadSize (ph_packet h))"
    and "pending (in_body h) @ c =
      head_bytes (head (ph_packet h)) @ take (unat (body_already_read h) + length c) (body_after h c)"
    and "BodyCurrentData_write h c = Inr (h\<lparr>ph_packet := (ph_packet h)\<lparr>body := Some (body_after h c)\<rparr>\<rparr>)"
    and "unat (body_already_read h + of_nat (length c)) = unat (body_already_read h) + length c"
    and "IsValidHeader (ph_packet h)"
proof -
  obtain b where b: "body (ph_packet h) = Some b" "length b = unat (GetHeadSize (ph_packet h))"
      "unat (body_already_read h) < length b" and valid: "IsValidHeader (ph_packet h)"
    using inv by (auto simp: reader_inv_def Let_def split: option.splits)
  have sz: "GetBodySize (ph_packet h) = length b" "length b < 2 ^ 32"
    using b head_size_small[of "ph_packet h"] by (simp_all add: GetBodySize_def)
  have kc: "unat (body_already_read h) + length c \<le> length b"
    using len b sz BodySizeLeft_unat[of h] by simp
  with b sz valid show "length (body_after h c) = unat (GetHeadSize (ph_packet h))"
    "unat (body_already_read h) + length c \<le> unat (GetHeadSize (ph_packet h))"
    "BodyCurrentData_write h c = Inr (h\<lparr>ph_packet := (ph_packet h)\<lparr>body := Some (body_after h c)\<rparr>\<rparr>)"
    "unat (body_already_read h + of_nat (length c)) = unat (body_already_read h) + length c"
    "IsValidHeader (ph_packet h)"
    by (simp_all add: body_after_def length_splice BodyCurrentData_write_def GetBodyData_def unat_add_small)
  have "take (unat (body_already_read h) + length c) (body_after h c) = take (unat (body_already_read h)) b @ c"
    using b by (simp add: body_after_def take_splice)
  then show "pending (in_body h) @ c =
      head_bytes (head (ph_packet h)) @ take (unat (body_already_read h) + length c) (body_after h c)"
    using b by (simp add: pending_def)
qed

lemmas body_step_defs = OnRead_def OnReadBody_def UpdateBodySize_def Let_def ucast_size_less GetHeadSize_def

lemma OnReadBody_more:
  assumes inv: "reader_inv (in_body h)" and len: "length c \<le> unat (BodySizeLeft h)"
    and more: "unat (body_already_read h) + length c < unat (GetHeadSize (ph_packet h))"
  shows "reads_well (in_body h) c"
proof -
  define h1 where "h1 = h\<lparr>ph_packet := (ph_packet h)\<lparr>body := Some (body_after h c)\<rparr>,
    body_already_read := body_already_read h + of_nat (length c)\<rparr>"
  note f = body_filled[OF inv len]
  show ?thesis
  proof (rule reads_wellI)
    show "OnRead (in_body h) c = Inr (in_body h1, None)"
      using f more by (simp add: body_step_defs h1_def)
    show "reader_inv (in_body h1)"
      using f more by (simp add: reader_inv_def h1_def GetHeadSize_def IsValidHeader_def)
    show "frames ((pending (in_body h) @ c) @ rest) = emitted None @ frames (pending (in_body h1) @ rest)" for rest
      unfolding f(3) using f(5) by (simp add: emitted_def pending_def h1_def)
  qed
qed

lemma OnReadBody_full:
  assumes inv: "reader_inv (in_body h)" and len: "length c \<le> unat (BodySizeLeft h)"
    and full: "\<not> unat (body_already_read h) + length c < unat (GetHeadSize (ph_packet h))"
  shows "reads_well (in_body h) c"
proof -
  define p where "p = (ph_packet h)\<lparr>body := Some (body_after h c)\<rparr>"
  define h3 where "h3 = h\<lparr>head_already_read := 0, body_already_read := 0,
    ph_packet := p\<lparr>head := (head p)\<lparr>hd_size := 0\<rparr>, body := None\<rparr>\<rparr>"
  note f = body_filled[OF inv len]
  have hp: "head_packet (head_bytes (head (ph_packet h))) = (ph_packet h)\<lparr>body := None\<rparr>"
    by (simp add: head_packet_def)
  have fv: "frames (head_bytes (head (ph_packet h)) @ body_after h c @ rest) = p # frames rest" for rest
    using f by (subst frames_valid)
      (simp_all add: hp p_def sizeof_PacketHead_def GetHeadSize_def IsValidHeader_def)
  show ?thesis
  proof (rule reads_wellI)
    show "OnRead (in_body h) c = Inr (in_head h3, Some p)"
      using f full by (simp add: body_step_defs ExtractPacket_def NetPacket_move_def h3_def p_def)
    show "reader_inv (in_head h3)" by (simp add: reader_inv_def h3_def)
    show "frames ((pending (in_body h) @ c) @ rest) = emitted (Some p) @ frames (pending (in_head h3) @ rest)" for rest
      unfolding f(3) using full f(1) fv[of rest] by (simp add: emitted_def pending_def h3_def)
  qed
qed

lemma OnRead_step:
  assumes inv: "reader_inv r" and len: "length c \<le> unat (read_limit r)"
  shows "reads_well r c"
proof (cases "phase r")
  case InHead
  then have r: "r = in_head (handler r)" by simp
  with inv have inv': "reader_inv (in_head (handler r))" by simp
  then have "unat (head_already_read (handler r)) < 6" by (simp add: reader_inv_def Let_def)
  with InHead len have "unat (head_already_read (handler r)) + length c \<le> 6"
    using HeadSizeLeft_unat[of "handler r"] by (simp add: read_limit_def)
  then show ?thesis
    using OnReadHead_more[OF inv', of c] OnReadHead_bad[OF inv', of c] OnReadHead_good[OF inv', of c] r
    by (metis le_neq_implies_less)
next
  case InBody
  then have r: "r = in_body (handler r)" by simp
  from len InBody have len': "length c \<le> unat (BodySizeLeft (handler r))" by (simp add: read_limit_def)
  from inv r have inv': "reader_inv (in_body (handler r))" by simp
  show ?thesis
    using OnReadBody_more[OF inv' len'] OnReadBody_full[OF inv' len'] r by fastforce
qed

lemma reads_frames:
  "reads r cs ps r' \<Longrightarrow> reader_inv r \<Longrightarrow> frames (pending r @ concat cs) = ps \<and> reader_inv r'"
proof (induction rule: reads.induct)
  case (reads_nil r)
  then show ?case by (simp add: frames_pending)
next
  case (reads_cons c r r' o1 cs ps r'')
  from OnRead_step[OF reads_cons.prems reads_cons.hyps(1)] reads_cons.hyps(2)
  have "reader_inv r'" "frames (pending r @ c @ concat cs) = emitted o1 @ frames (pending r' @ concat cs)"
    by (auto simp: reads_well_def)
  with reads_cons.IH show ?case by simp
qed

text \<open>
  C6. However the socket cuts the incoming byte stream into chunks, the packets the read loop
  hands to the server are exactly the frames of the whole stream, in order: the incremental,
  buffered assembly is equivalent to the framing rule.
\<close>

theorem read_loop_frames: "reads reader_new cs ps r \<Longrightarrow> ps = frames (concat cs)"
  using reads_frames[of reader_new cs ps r] by (simp add: reader_inv_new pending_new)

text \<open>A \<open>MoveLeft\<close> packet with one body byte, cut inside the header, and one byte of the next.\<close>

definition example_chunks :: "u8 list list" where
  "example_chunks = [[0, 0x12], [0, 0, 0, 1], [7], [0]]"

definition example_packet :: NetPacket where
  "example_packet = \<lparr>head = \<lparr>hd_opcode = 0x1200, hd_size = 0x1000000\<rparr>, body = Some [7]\<rparr>"

definition example_reader :: reader where
  "example_reader = \<lparr>phase = InHead, handler =
     \<lparr>head_already_read = 1, body_already_read = 0,
      ph_packet = \<lparr>head = \<lparr>hd_opcode = 0x1200, hd_size = 0\<rparr>, body = None\<rparr>\<rparr>\<rparr>"

lemma example_run: "reads reader_new example_chunks [example_packet] example_reader"
  by (rule read_all_reads) code_simp

theorem read_loop_frames_witness:
  "reads reader_new example_chunks [example_packet] example_reader \<and>
   [example_packet] = frames (concat example_chunks)"
  using read_loop_frames[OF example_run] example_run by simp

lemma reads_total:
  assumes "reader_inv r" "length c \<le> unat (read_limit r)"
  shows "\<exists>r' o1. OnRead r c = Inr (r', o1) \<and> reader_inv r'"
  using OnRead_step[OF assms] by (auto simp: reads_well_def)

lemma read_limit_bounds:
  assumes "reader_inv r"
  shows "0 < unat (read_limit r)" "unat (read_limit r) \<le> 127"
proof (atomize (full), cases "phase r")
  case InHead
  with assms have "unat (head_already_read (handler r)) < 6" by (simp add: reader_inv_def Let_def)
  with InHead HeadSizeLeft_unat[of "handler r"]
  show "0 < unat (read_limit r) \<and> unat (read_limit r) \<le> 127" by (simp add: read_limit_def)
next
  case InBody
  let ?p = "ph_packet (handler r)"
  obtain b where b: "body ?p = Some b" "length b = unat (GetHeadSize ?p)"
      "unat (body_already_read (handler r)) < length b" "IsValidHeader ?p"
    using assms InBody by (auto simp: reader_inv_def Let_def split: option.splits)
  then have "length b < 128" by (simp add: IsValidHeader_iff kMaxPayloadSize_def word_less_nat_alt)
  with b InBody BodySizeLeft_unat[of "handler r"]
  show "0 < unat (read_limit r) \<and> unat (read_limit r) \<le> 127"
    by (simp add: read_limit_def GetBodySize_def)
qed

lemma reads_invariant: "reads r cs ps r' \<Longrightarrow> reader_inv r \<Longrightarrow> reader_inv r'"
  using reads_frames by blast

text \<open>
  C18. The read loop never leaves defined behaviour, whatever the peer sends: in every state it
  can reach it asks for between 1 and 127 bytes, and every chunk within that limit is stored
  inside the header or the allocated body and processed.
\<close>

theorem read_loop_safe:
  assumes "reads reader_new cs ps r"
  shows "0 < unat (read_limit r) \<and> unat (read_limit r) \<le> 127 \<and>
    (length c \<le> unat (read_limit r) \<longrightarrow> (\<exists>r' o1. OnRead r c = Inr (r', o1)))"
  using reads_invariant[OF assms reader_inv_new] read_limit_bounds[of r] reads_total[of r c] by blast

theorem read_loop_safe_witness:
  "unat (read_limit example_reader) = 5 \<and> (\<exists>r' o1. OnRead example_reader [18, 0, 0, 0, 0] = Inr (r', o1))"
proof -
  have "unat (read_limit example_reader) = 5" by code_simp
  with read_loop_safe[OF example_run, of "[18, 0, 0, 0, 0]"] show ?thesis by simp
qed

section \<open>Sending and receiving\<close>

definition sendable :: "NetPacket \<Rightarrow> bool" where
  "sendable p \<longleftrightarrow> body p \<noteq> None \<and> packet_ok p \<and> IsValidHeader p \<and> GetBodySize p < 2 ^ 32"

lemma frames_MakeBuffer:
  assumes "sendable p"
  shows "frames (MakeBuffer p @ rest) = p # frames rest"
proof -
  obtain b where b: "body p = Some b" using assms by (auto simp: sendable_def)
  have hp: "head_packet (head_bytes (head p)) = p\<lparr>body := None\<rparr>" by (simp add: head_packet_def)
  have "length b = unat (GetHeadSize p)"
    using assms b by (simp add: sendable_def packet_ok_def GetBodySize_def unat_of_nat)
  moreover have "IsValidHeader (p\<lparr>body := None\<rparr>)" "GetHeadSize (p\<lparr>body := None\<rparr>) = GetHeadSize p"
    using assms by (simp_all add: sendable_def IsValidHeader_def GetHeadSize_def)
  ultimately show ?thesis
    using frames_valid[of "head_bytes (head p)" b rest] b
    by (simp add: MakeBuffer_def hp sizeof_PacketHead_def)
qed

lemma frames_stream:
  assumes "list_all sendable ps"
  shows "frames (concat (map MakeBuffer ps)) = ps"
  using assms by (induction ps) (simp_all add: frames_MakeBuffer frames_short)

lemma sendableI:
  assumes "body p = Some b" "packet_ok p" "GetHeadOpcode p < kMaxOpcode" "length b < 128"
  shows "sendable p"
proof -
  have "GetHeadSize p < kMaxPayloadSize"
    using assms by (simp add: packet_ok_def GetBodySize_def kMaxPayloadSize_def word_less_nat_alt unat_of_nat)
  with assms show ?thesis by (simp add: sendable_def IsValidHeader_iff GetBodySize_def)
qed

lemma builders_sendable:
  "sendable (CreatePlayerPacket i x y w h)" "sendable (AddPlayerPacket i x y w h)"
  "sendable (RemovePlayerPacket i)" "sendable (MovePlayerPacket i x y)"
  by (rule sendableI, rule builder_bodies, rule builder_ok, simp_all add: builder_opcodes kMaxOpcode_def)+

text \<open>
  Packets written with \<open>MakeBuffer\<close> and sent one after the other come out of the read loop
  unchanged and in order, however the stream is cut, as long as each has a body, a header size
  that matches it and a header the receiver accepts.
\<close>

lemma send_receive:
  assumes "list_all sendable ps" "concat cs = concat (map MakeBuffer ps)"
    and "reads reader_new cs qs r"
  shows "qs = ps"
  using reads_frames[OF assms(3) reader_inv_new] frames_stream[OF assms(1)] assms(2)
  by (simp add: pending_new)

lemma send_receive_witness:
  "\<exists>r. reads reader_new [[0, 0x17, 0], [0, 0, 8], [0, 0, 0, 0, 0, 0, 0, 7]] [RemovePlayerPacket 7] r \<and>
     list_all sendable [RemovePlayerPacket 7]"
proof -
  define cs :: "u8 list list" where "cs = [[0, 0x17, 0], [0, 0, 8], [0, 0, 0, 0, 0, 0, 0, 7]]"
  obtain qs r where run: "read_all reader_new cs = Some (qs, r)"
  proof -
    have "read_all reader_new cs \<noteq> None" unfolding cs_def by code_simp
    then show ?thesis using that by fastforce
  qed
  have ok: "list_all sendable [RemovePlayerPacket 7]" by (simp add: builders_sendable)
  have stream: "concat cs = concat (map MakeBuffer [RemovePlayerPacket 7])" unfolding cs_def by code_simp
  show ?thesis
    using send_receive[OF ok stream read_all_reads[OF run]] read_all_reads[OF run] ok by (auto simp: cs_def)
qed

end
