(* ===== verification/Socket.thy ===== *)
theory Socket
  imports Prelude
begin

text \<open>
  The two socket classes behind \<open>ISocket\<close> (\<open>src/net/socket/ws_socket.cpp\<close>, \<open>wss_socket.cpp\<close>).
  The stream they wrap belongs to Boost: it performs the operations started on it and calls the
  handlers back. The model of a socket is its flag \<open>closed_\<close>, the mode of the stream, whether
  the pending operations were cancelled, and the list of operations that were started and have
  not completed. The locale \<open>isocket\<close> is the contract a session relies on.
\<close>

section \<open>State\<close>

datatype sock_op = OpAccept | OpHandshake | OpRead size_t | OpWrite "u8 list" | OpClose | OpShutdown

record Socket =
  closed_flag :: bool
  binary_mode :: bool
  cancelled :: bool
  sock_ops :: "sock_op list"

definition start_op :: "sock_op \<Rightarrow> Socket \<Rightarrow> Socket" where
  "start_op op s = s\<lparr>sock_ops := sock_ops s @ [op]\<rparr>"

text \<open>An operation completes: the environment takes it off the list before it calls the handler.\<close>

definition finish_op :: "sock_op \<Rightarrow> Socket \<Rightarrow> Socket" where
  "finish_op op s = s\<lparr>sock_ops := remove1 op (sock_ops s)\<rparr>"

section \<open>\<open>WSSocket\<close>\<close>

definition WSSocket_new :: Socket where
  "WSSocket_new = \<lparr>closed_flag = False, binary_mode = True, cancelled = False, sock_ops = []\<rparr>"

text \<open>\<open>IsClosed\<close> is a test-and-set: it returns the old value of the flag and sets it.\<close>

definition IsClosed :: "Socket \<Rightarrow> bool \<times> Socket" where
  "IsClosed s = (closed_flag s, s\<lparr>closed_flag := True\<rparr>)"

text \<open>\<open>is_open\<close>: what the TCP layer answers; the error of the cancellation is only logged.\<close>

definition WSSocket_Cancel :: "bool \<Rightarrow> Socket \<Rightarrow> Socket" where
  "WSSocket_Cancel is_open s = (if is_open then s\<lparr>cancelled := True\<rparr> else s)"

definition WSSocket_CloseWebSocket :: "Socket \<Rightarrow> Socket" where
  "WSSocket_CloseWebSocket s = start_op OpClose s"

definition WSSocket_close :: "bool \<Rightarrow> Socket \<Rightarrow> Socket" where
  "WSSocket_close is_open s =
     (case IsClosed s of
        (True, s1) \<Rightarrow> s1
      | (False, s1) \<Rightarrow> WSSocket_CloseWebSocket (WSSocket_Cancel is_open s1))"

definition WSSocket_async_accept :: "Socket \<Rightarrow> Socket" where
  "WSSocket_async_accept s = start_op OpAccept s"

definition WSSocket_async_read_some :: "size_t \<Rightarrow> Socket \<Rightarrow> Socket" where
  "WSSocket_async_read_some limit s = start_op (OpRead limit) s"

definition WSSocket_async_write :: "u8 list \<Rightarrow> Socket \<Rightarrow> Socket" where
  "WSSocket_async_write buffer s = start_op (OpWrite buffer) s"

section \<open>\<open>WSSSocket\<close>\<close>

text \<open>The class has the same members; its stream has a TLS layer below the websocket.\<close>

type_synonym WSSSocket = Socket

definition WSSSocket_new :: WSSSocket where
  "WSSSocket_new = \<lparr>closed_flag = False, binary_mode = True, cancelled = False, sock_ops = []\<rparr>"

definition WSSSocket_Cancel :: "bool \<Rightarrow> WSSSocket \<Rightarrow> WSSSocket" where
  "WSSSocket_Cancel is_open s = (if is_open then s\<lparr>cancelled := True\<rparr> else s)"

definition WSSSocket_CloseSSL :: "WSSSocket \<Rightarrow> WSSSocket" where
  "WSSSocket_CloseSSL s = start_op OpShutdown s"

definition WSSSocket_CloseWebSocket :: "WSSSocket \<Rightarrow> WSSSocket" where
  "WSSSocket_CloseWebSocket s = start_op OpClose s"

text \<open>The handler of the closing handshake, with or without an error.\<close>

definition WSSSocket_OnClose :: "WSSSocket \<Rightarrow> WSSSocket" where
  "WSSSocket_OnClose s = WSSSocket_CloseSSL (finish_op OpClose s)"

definition WSSSocket_close :: "bool \<Rightarrow> WSSSocket \<Rightarrow> WSSSocket" where
  "WSSSocket_close is_open s =
     (case IsClosed s of
        (True, s1) \<Rightarrow> s1
      | (False, s1) \<Rightarrow> WSSSocket_CloseSSL (WSSSocket_CloseWebSocket (WSSSocket_Cancel is_open s1)))"

definition WSSSocket_async_accept :: "WSSSocket \<Rightarrow> WSSSocket" where
  "WSSSocket_async_accept s = start_op OpHandshake s"

text \<open>The handler of the TLS handshake: on an error the session's handler is never called.\<close>

definition WSSSocket_OnHandshake :: "bool \<Rightarrow> WSSSocket \<Rightarrow> WSSSocket" where
  "WSSSocket_OnHandshake ec s =
     (let s1 = finish_op OpHandshake s in if ec then s1 else start_op OpAccept s1)"

definition WSSSocket_async_read_some :: "size_t \<Rightarrow> WSSSocket \<Rightarrow> WSSSocket" where
  "WSSSocket_async_read_some limit s = start_op (OpRead limit) s"

definition WSSSocket_async_write :: "u8 list \<Rightarrow> WSSSocket \<Rightarrow> WSSSocket" where
  "WSSSocket_async_write buffer s = start_op (OpWrite buffer) s"

section \<open>The contract\<close>

text \<open>The buffers of the writes that have not completed.\<close>

fun op_writes :: "sock_op list \<Rightarrow> u8 list list" where
  "op_writes [] = []"
| "op_writes (OpWrite b # ops) = b # op_writes ops"
| "op_writes (_ # ops) = op_writes ops"

lemma op_writes_append [simp]: "op_writes (xs @ ys) = op_writes xs @ op_writes ys"
  by (induction xs rule: op_writes.induct) simp_all

lemma op_writes_set: "b \<in> set (op_writes ops) \<longleftrightarrow> OpWrite b \<in> set ops"
  by (induction ops rule: op_writes.induct) auto

lemma op_writes_shutdown: "set ops \<subseteq> {OpShutdown} \<Longrightarrow> op_writes ops = []"
  by (induction ops rule: op_writes.induct) auto

lemmas socket_defs = start_op_def finish_op_def IsClosed_def
  WSSocket_new_def WSSocket_Cancel_def WSSocket_CloseWebSocket_def WSSocket_close_def
  WSSocket_async_accept_def WSSocket_async_read_some_def WSSocket_async_write_def
  WSSSocket_new_def WSSSocket_Cancel_def WSSSocket_CloseSSL_def WSSSocket_CloseWebSocket_def
  WSSSocket_OnClose_def WSSSocket_close_def WSSSocket_async_accept_def WSSSocket_OnHandshake_def
  WSSSocket_async_read_some_def WSSSocket_async_write_def

locale isocket =
  fixes fresh :: 's
    and ops :: "'s \<Rightarrow> sock_op list"
    and flagged :: "'s \<Rightarrow> bool"
    and accept :: "'s \<Rightarrow> 's"
    and read_some :: "size_t \<Rightarrow> 's \<Rightarrow> 's"
    and write_buf :: "u8 list \<Rightarrow> 's \<Rightarrow> 's"
    and close :: "bool \<Rightarrow> 's \<Rightarrow> 's"
  assumes fresh_ops: "ops fresh = []" "\<not> flagged fresh"
    and accept_ops: "\<exists>op. ops (accept s) = ops s @ [op] \<and> op \<in> {OpAccept, OpHandshake}"
    and read_ops: "ops (read_some n s) = ops s @ [OpRead n]"
    and write_ops: "ops (write_buf b s) = ops s @ [OpWrite b]"
    and flag_kept: "flagged (accept s) = flagged s" "flagged (read_some n s) = flagged s" "flagged (write_buf b s) = flagged s"
    and close_flags: "flagged (close o1 s)"
    and close_again: "flagged s \<Longrightarrow> close o1 s = s"
    and close_ops: "\<not> flagged s \<Longrightarrow> \<exists>more. ops (close o1 s) = ops s @ OpClose # more \<and> set more \<subseteq> {OpShutdown}"
begin

lemma close_idem: "close o2 (close o1 s) = close o1 s"
  by (simp add: close_again close_flags)

text \<open>Any number of calls of \<open>close\<close> starts one closing handshake.\<close>

lemma close_many: "foldl (\<lambda>s o1. close o1 s) (close o1 s) os = close o1 s"
  by (induction os) (simp_all add: close_idem)

lemma close_keeps_writes: "op_writes (ops (close o1 s)) = op_writes (ops s)"
proof (cases "flagged s")
  case False
  then obtain more where m: "ops (close o1 s) = ops s @ OpClose # more" "set more \<subseteq> {OpShutdown}"
    using close_ops by blast
  then show ?thesis by (simp add: op_writes_shutdown)
qed (simp add: close_again)

lemma write_appends: "op_writes (ops (write_buf b s)) = op_writes (ops s) @ [b]"
  by (simp add: write_ops)

lemma read_keeps_writes: "op_writes (ops (read_some n s)) = op_writes (ops s)"
  by (simp add: read_ops)

end

interpretation ws: isocket WSSocket_new sock_ops closed_flag WSSocket_async_accept
  WSSocket_async_read_some WSSocket_async_write WSSocket_close
  by unfold_locales (auto simp: socket_defs split: bool.splits)

interpretation wss: isocket WSSSocket_new sock_ops closed_flag WSSSocket_async_accept
  WSSSocket_async_read_some WSSSocket_async_write WSSSocket_close
  by unfold_locales (auto simp: socket_defs split: bool.splits)

text \<open>
  C35. Closing a socket takes effect once: whichever layers are open and however often a session
  calls \<open>close\<close>, the first call starts one closing handshake behind the operations already
  started and the later ones change nothing. This holds for the plain and for the TLS socket.
\<close>

theorem close_takes_effect_once:
  "foldl (\<lambda>s o1. WSSocket_close o1 s) (WSSocket_close o1 s) os = WSSocket_close o1 s \<and>
   foldl (\<lambda>s o1. WSSSocket_close o1 s) (WSSSocket_close o1 s) os = WSSSocket_close o1 s \<and>
   sock_ops (WSSocket_close o1 s) = sock_ops s @ (if closed_flag s then [] else [OpClose]) \<and>
   sock_ops (WSSSocket_close o1 s) = sock_ops s @ (if closed_flag s then [] else [OpClose, OpShutdown])"
  by (simp add: ws.close_many wss.close_many) (simp add: socket_defs split: bool.splits)

text \<open>
  The TLS socket starts its shutdown twice: \<open>close\<close> starts it right after the closing
  handshake, and the handler of that handshake starts another one while the first may still be
  outstanding.
\<close>

lemma shutdown_started_twice:
  "sock_ops (WSSSocket_OnClose (WSSSocket_close o1 WSSSocket_new)) = [OpShutdown, OpShutdown]"
  by (simp add: socket_defs)

end
