(* ===== verification/Session.thy ===== *)
theory Session
  imports PacketHandler TsQueue Socket "HOL-Library.Multiset"
begin

text \<open>
  A client session (\<open>src/net/session/session.hpp\<close>, \<open>.cpp\<close>): its state, its reads and its send
  path. The handlers that call back into the server are in theory \<open>Server\<close>. Send buffers are
  byte lists.

  The functions run a call without interruption. The relation \<open>send_step\<close> models the same code
  with several threads inside \<open>Send\<close>: each atomic operation (a locked queue call, an atomic load,
  a test-and-set) is one step. \<open>PushToSend_refines\<close> and \<open>OnWrite_refines\<close> connect the two.
\<close>

section \<open>State\<close>

datatype State = Connecting | Connected | Disconnecting | Disconnected | User

record Session =
  session_id :: size_t
  sending :: bool
  session_state :: State
  session_reader :: reader
  out_queue :: "u8 list TSQueue"
  session_socket :: Socket

definition Session_new :: "size_t \<Rightarrow> Session" where
  "Session_new i = \<lparr>session_id = i, sending = False, session_state = Connecting,
     session_reader = reader_new, out_queue = TSQueue_new, session_socket = WSSocket_new\<rparr>"

definition SetState :: "State \<Rightarrow> Session \<Rightarrow> Session" where
  "SetState st s = s\<lparr>session_state := st\<rparr>"

definition IsConnected :: "Session \<Rightarrow> bool" where
  "IsConnected s \<longleftrightarrow> session_state s \<noteq> Disconnected"

text \<open>\<open>StartSending\<close>: test-and-set, returns the previous value. \<open>StopSending\<close>: clear.\<close>

definition StartSending :: "Session \<Rightarrow> bool \<times> Session" where
  "StartSending s = (sending s, s\<lparr>sending := True\<rparr>)"

definition StopSending :: "Session \<Rightarrow> Session" where
  "StopSending s = s\<lparr>sending := False\<rparr>"

section \<open>Sending\<close>

definition Send :: "Session \<Rightarrow> Session" where
  "Send s =
     (if \<not> IsConnected s then s
      else if Empty (out_queue s) then s
      else case StartSending s of
             (True, s1) \<Rightarrow> s1
           | (False, s1) \<Rightarrow>
              (case TryPop (out_queue s1) of
                 (None, q) \<Rightarrow> s1\<lparr>out_queue := q\<rparr>
               | (Some buf, q) \<Rightarrow> s1\<lparr>out_queue := q, session_socket := WSSocket_async_write buf (session_socket s1)\<rparr>))"

definition PushToSend :: "u8 list \<Rightarrow> Session \<Rightarrow> Session" where
  "PushToSend buf s = Send (s\<lparr>out_queue := Push (out_queue s) buf\<rparr>)"

text \<open>The completion handler of a write without an error.\<close>

definition OnWrite :: "Session \<Rightarrow> Session" where
  "OnWrite s =
     (let s1 = StopSending s in if \<not> Empty (out_queue s1) then Send s1 else s1)"

section \<open>Reading\<close>

text \<open>The two functions start a read; the phase of the reader says which one is outstanding.\<close>

definition ReadPacketHead :: "Session \<Rightarrow> Session" where
  "ReadPacketHead s =
     s\<lparr>session_reader := (session_reader s)\<lparr>phase := InHead\<rparr>,
       session_socket := WSSocket_async_read_some (HeadSizeLeft (handler (session_reader s))) (session_socket s)\<rparr>"

definition ReadPacketBody :: "Session \<Rightarrow> Session" where
  "ReadPacketBody s =
     s\<lparr>session_reader := (session_reader s)\<lparr>phase := InBody\<rparr>,
       session_socket := WSSocket_async_read_some (BodySizeLeft (handler (session_reader s))) (session_socket s)\<rparr>"

definition Session_Run :: "Session \<Rightarrow> Session" where
  "Session_Run s = s\<lparr>session_socket := WSSocket_async_accept (session_socket s)\<rparr>"

definition next_read :: "Session \<Rightarrow> Session" where
  "next_read s = (case phase (session_reader s) of InHead \<Rightarrow> ReadPacketHead s | InBody \<Rightarrow> ReadPacketBody s)"

section \<open>Several threads in \<open>Send\<close>\<close>

text \<open>
  Where a thread stands: before the connection check, before the emptiness check, before the
  test-and-set, before the pop; in the completion handler before clearing the flag and before
  its emptiness check.
\<close>

datatype send_pc = AtConnected | AtEmpty | AtFlag | AtPop | AtClear | AtRecheck

record send_state =
  sq :: "u8 list list"
  flag :: bool
  closed :: bool
  inflight :: "u8 list list"
  threads :: "send_pc multiset"
  pushed_bufs :: "u8 list list"
  written :: "u8 list list"

definition send_init :: send_state where
  "send_init = \<lparr>sq = [], flag = False, closed = False, inflight = [], threads = {#}, pushed_bufs = [], written = []\<rparr>"

text \<open>\<open>goto\<close> moves one thread, \<open>leave\<close> returns from \<open>Send\<close>.\<close>

definition goto :: "send_pc \<Rightarrow> send_pc \<Rightarrow> send_state \<Rightarrow> send_state" where
  "goto pc pc' s = s\<lparr>threads := add_mset pc' (threads s - {#pc#})\<rparr>"

definition leave :: "send_pc \<Rightarrow> send_state \<Rightarrow> send_state" where
  "leave pc s = s\<lparr>threads := threads s - {#pc#}\<rparr>"

inductive send_step :: "send_state \<Rightarrow> send_state \<Rightarrow> bool" where
  enter: "send_step s (s\<lparr>sq := sq s @ [buf], pushed_bufs := pushed_bufs s @ [buf], threads := add_mset AtConnected (threads s)\<rparr>)"
| connected: "AtConnected \<in># threads s \<Longrightarrow> \<not> closed s \<Longrightarrow> send_step s (goto AtConnected AtEmpty s)"
| disconnected: "AtConnected \<in># threads s \<Longrightarrow> closed s \<Longrightarrow> send_step s (leave AtConnected s)"
| nonempty: "AtEmpty \<in># threads s \<Longrightarrow> sq s \<noteq> [] \<Longrightarrow> send_step s (goto AtEmpty AtFlag s)"
| empty: "AtEmpty \<in># threads s \<Longrightarrow> sq s = [] \<Longrightarrow> send_step s (leave AtEmpty s)"
| busy: "AtFlag \<in># threads s \<Longrightarrow> flag s \<Longrightarrow> send_step s (leave AtFlag s)"
| claim: "AtFlag \<in># threads s \<Longrightarrow> \<not> flag s \<Longrightarrow> send_step s ((goto AtFlag AtPop s)\<lparr>flag := True\<rparr>)"
| pop_none: "AtPop \<in># threads s \<Longrightarrow> sq s = [] \<Longrightarrow> send_step s (leave AtPop s)"
| pop_write: "AtPop \<in># threads s \<Longrightarrow> sq s = buf # rest \<Longrightarrow>
    send_step s ((leave AtPop s)\<lparr>sq := rest, inflight := inflight s @ [buf], written := written s @ [buf]\<rparr>)"
| complete: "inflight s = buf # rest \<Longrightarrow>
    send_step s (s\<lparr>inflight := rest, threads := add_mset AtClear (threads s)\<rparr>)"
| fail: "inflight s = buf # rest \<Longrightarrow> send_step s (s\<lparr>inflight := rest\<rparr>)"
| disconnect: "send_step s (s\<lparr>closed := True\<rparr>)"
| clear: "AtClear \<in># threads s \<Longrightarrow> send_step s ((goto AtClear AtRecheck s)\<lparr>flag := False\<rparr>)"
| again: "AtRecheck \<in># threads s \<Longrightarrow> sq s \<noteq> [] \<Longrightarrow> send_step s (goto AtRecheck AtConnected s)"
| finish: "AtRecheck \<in># threads s \<Longrightarrow> sq s = [] \<Longrightarrow> send_step s (leave AtRecheck s)"

inductive send_reach :: "send_state \<Rightarrow> bool" where
  reach_init: "send_reach send_init"
| reach_step: "send_reach s \<Longrightarrow> send_step s s' \<Longrightarrow> send_reach s'"

inductive_cases send_stepE: "send_step s s'"

lemmas send_defs = goto_def leave_def

text \<open>The claims on the socket: threads about to write, writes in progress, completions not yet cleared.\<close>

definition claims :: "send_state \<Rightarrow> nat" where
  "claims s = count (threads s) AtPop + length (inflight s) + count (threads s) AtClear"

definition send_inv :: "send_state \<Rightarrow> bool" where
  "send_inv s \<longleftrightarrow> claims s \<le> 1 \<and> (0 < claims s \<longrightarrow> flag s) \<and> written s @ sq s = pushed_bufs s"

lemma send_inv_init: "send_inv send_init"
  by (simp add: send_inv_def claims_def send_init_def)

lemma sole_claim:
  "0 < a \<Longrightarrow> a + length xs + c \<le> Suc 0 \<Longrightarrow> xs = []" "0 < c \<Longrightarrow> a + length xs + c \<le> Suc 0 \<Longrightarrow> xs = []"
  by (cases xs; simp)+

lemma send_inv_step: "send_step s s' \<Longrightarrow> send_inv s \<Longrightarrow> send_inv s'"
  by (induction rule: send_step.induct)
    (auto simp: send_inv_def claims_def send_defs simp flip: count_greater_zero_iff dest: sole_claim)

lemma send_reach_inv: "send_reach s \<Longrightarrow> send_inv s"
  by (induction rule: send_reach.induct) (auto intro: send_inv_init send_inv_step)

text \<open>
  C7. However many threads push, send and complete writes on one session: at most one
  \<open>async_write\<close> is outstanding, and the buffers handed to the socket followed by those still
  queued are the pushed buffers in push order.
\<close>

theorem send_serialised:
  assumes "send_reach s"
  shows "length (inflight s) \<le> 1 \<and> (inflight s \<noteq> [] \<longrightarrow> flag s) \<and> written s @ sq s = pushed_bufs s"
  using send_reach_inv[OF assms] by (auto simp: send_inv_def claims_def)

section \<open>A run that blocks the session\<close>

lemma send_reachI: "send_reach s \<Longrightarrow> send_step s t \<Longrightarrow> t = s' \<Longrightarrow> send_reach s'"
  using reach_step by blast

text \<open>
  The states of the run, by queue, flag, outstanding writes, threads and log: the sender pushes
  \<open>a\<close>, which is written, then \<open>b\<close>, and is preempted before the test-and-set; the completion
  of \<open>a\<close> writes \<open>b\<close>; the completion of \<open>b\<close> clears the flag; the sender takes the flag and
  finds the queue empty.
\<close>

definition snap :: "u8 list list \<Rightarrow> bool \<Rightarrow> u8 list list \<Rightarrow> send_pc list \<Rightarrow> u8 list list \<Rightarrow> u8 list list \<Rightarrow> send_state" where
  "snap q f i ts ps ws = \<lparr>sq = q, flag = f, closed = False, inflight = i, threads = mset ts, pushed_bufs = ps, written = ws\<rparr>"

lemmas at_step = snap_def goto_def leave_def

lemma at_enter: "send_reach (snap q f i ts ps ws) \<Longrightarrow> send_reach (snap (q @ [b]) f i (AtConnected # ts) (ps @ [b]) ws)"
  by (erule send_reachI[OF _ enter]) (simp add: at_step)

lemma at_connected: "send_reach (snap q f i (AtConnected # ts) ps ws) \<Longrightarrow> send_reach (snap q f i (AtEmpty # ts) ps ws)"
  by (erule send_reachI[OF _ connected]) (simp_all add: at_step)

lemma at_nonempty: "send_reach (snap (x # q) f i (AtEmpty # ts) ps ws) \<Longrightarrow> send_reach (snap (x # q) f i (AtFlag # ts) ps ws)"
  by (erule send_reachI[OF _ nonempty]) (simp_all add: at_step)

lemma at_claim: "send_reach (snap q False i (AtFlag # ts) ps ws) \<Longrightarrow> send_reach (snap q True i (AtPop # ts) ps ws)"
  by (erule send_reachI[OF _ claim]) (simp_all add: at_step)

lemma at_pop: "send_reach (snap (x # q) f i (AtPop # ts) ps ws) \<Longrightarrow> send_reach (snap q f (i @ [x]) ts ps (ws @ [x]))"
  by (erule send_reachI[OF _ pop_write]) (simp_all add: at_step)

lemma at_pop_none: "send_reach (snap [] f i (AtPop # ts) ps ws) \<Longrightarrow> send_reach (snap [] f i ts ps ws)"
  by (erule send_reachI[OF _ pop_none]) (simp_all add: at_step)

lemma at_complete: "send_reach (snap q f (x # i) ts ps ws) \<Longrightarrow> send_reach (snap q f i (AtClear # ts) ps ws)"
  by (erule send_reachI[OF _ complete]) (simp_all add: at_step)

lemma at_clear: "send_reach (snap q f i (AtClear # ts) ps ws) \<Longrightarrow> send_reach (snap q False i (AtRecheck # ts) ps ws)"
  by (erule send_reachI[OF _ clear]) (simp_all add: at_step)

lemma at_again: "send_reach (snap (x # q) f i (AtRecheck # ts) ps ws) \<Longrightarrow> send_reach (snap (x # q) f i (AtConnected # ts) ps ws)"
  by (erule send_reachI[OF _ again]) (simp_all add: at_step)

lemma at_finish: "send_reach (snap [] f i (AtRecheck # ts) ps ws) \<Longrightarrow> send_reach (snap [] f i ts ps ws)"
  by (erule send_reachI[OF _ finish]) (simp_all add: at_step)

text \<open>A push that meets a free flag and an empty queue is written.\<close>

lemma at_send:
  assumes "send_reach (snap [] False [] ts ps ws)"
  shows "send_reach (snap [] True [b] ts (ps @ [b]) (ws @ [b]))"
  using at_pop[OF at_claim[OF at_nonempty[OF at_connected[OF at_enter[OF assms, of b, simplified]]]]] by simp

lemma at_preempted:
  assumes "send_reach (snap [] f i ts ps ws)"
  shows "send_reach (snap [b] f i (AtFlag # ts) (ps @ [b]) ws)"
  by (rule at_nonempty[OF at_connected[OF at_enter[OF assms, of b, simplified]]])

lemma at_write_again:
  assumes "send_reach (snap [b] True [a] ts ps ws)"
  shows "send_reach (snap [] True [b] ts ps (ws @ [b]))"
  using at_pop[OF at_claim[OF at_nonempty[OF at_connected[OF at_again[OF at_clear[OF at_complete[OF assms]]]]]]] by simp

lemma at_done: "send_reach (snap [] True [b] ts ps ws) \<Longrightarrow> send_reach (snap [] False [] ts ps ws)"
  by (rule at_finish[OF at_clear[OF at_complete]])

lemma send_init_at: "send_init = snap [] False [] [] [] []"
  by (simp add: send_init_def snap_def)

lemma stall_run: "send_reach (snap [] True [] [] [a, b] [a, b])"
proof -
  have "send_reach (snap [] True [a] [] [a] [a])"
    using at_send[of "[]" "[]" "[]" a] reach_init by (simp add: send_init_at)
  from at_done[OF at_write_again[OF at_preempted[OF this, of b]]]
  show ?thesis using at_pop_none at_claim by simp
qed

text \<open>Blocked: the flag is set and nobody is left who would clear it.\<close>

definition stalled :: "send_state \<Rightarrow> bool" where
  "stalled s \<longleftrightarrow> flag s \<and> claims s = 0"

lemma stalled_step: "send_step s s' \<Longrightarrow> stalled s \<Longrightarrow> stalled s' \<and> written s' = written s"
  by (induction rule: send_step.induct)
    (auto simp: stalled_def claims_def send_defs simp flip: count_greater_zero_iff)

lemma stalled_forever: "send_step\<^sup>*\<^sup>* s s' \<Longrightarrow> stalled s \<Longrightarrow> stalled s' \<and> written s' = written s"
  by (induction rule: rtranclp_induct) (auto dest: stalled_step)

text \<open>
  C22. \<open>Send\<close> can block a connected session for good: there is a reachable state, after two
  buffers were sent in full, with no write outstanding, no thread inside and the connection
  open, from which no run hands any further buffer to the socket, whatever is pushed. The
  branch \<open>!buf\<close>, which the source expects never to be taken, leaves \<open>sending_\<close> set.
\<close>

theorem send_can_stall:
  "\<exists>s. send_reach s \<and> \<not> closed s \<and> inflight s = [] \<and> threads s = {#} \<and> sq s = [] \<and>
     written ` {s'. send_step\<^sup>*\<^sup>* s s'} = {written s}"
proof (intro exI conjI)
  let ?s = "snap [] True [] [] [[0], [1]] [[0], [1]]"
  show "send_reach ?s" by (rule stall_run)
  have "written s' = written ?s" if "s' \<in> {s'. send_step\<^sup>*\<^sup>* ?s s'}" for s'
    using stalled_forever[OF CollectD[OF that]] by (simp add: stalled_def claims_def snap_def)
  moreover have "?s \<in> {s'. send_step\<^sup>*\<^sup>* ?s s'}" by (rule CollectI) (rule rtranclp.rtrancl_refl)
  ultimately show "written ` {s'. send_step\<^sup>*\<^sup>* ?s s'} = {written ?s}" by (rule image_const[rotated])
qed (simp_all add: snap_def)

theorem send_serialised_witness:
  "send_reach (snap [] True [[1]] [] [[1]] [[1]]) \<and> written (snap [] True [[1]] [] [[1]] [[1]]) = [[1]]"
proof -
  have r: "send_reach (snap [] True [[1]] [] [[1]] [[1]])"
    using at_send[of "[]" "[]" "[]" "[1]"] reach_init by (simp add: send_init_at)
  from r send_serialised[OF r] show ?thesis by (simp add: snap_def)
qed

section \<open>The functions are runs of the relation\<close>

text \<open>The session as a state of the relation, with nobody inside \<open>Send\<close>.\<close>

definition send_abs :: "Session \<Rightarrow> u8 list list \<Rightarrow> u8 list list \<Rightarrow> send_state" where
  "send_abs s ps ws = \<lparr>sq = qdata (out_queue s), flag = sending s, closed = \<not> IsConnected s,
     inflight = op_writes (sock_ops (session_socket s)), threads = {#}, pushed_bufs = ps, written = ws\<rparr>"

lemma send_run:
  assumes "t = (send_abs s ps ws)\<lparr>threads := {#AtConnected#}\<rparr>"
  shows "\<exists>new. send_step\<^sup>*\<^sup>* t (send_abs (Send s) ps (ws @ new))"
proof -
  let ?at = "\<lambda>pc. (send_abs s ps ws)\<lparr>threads := {#pc#}\<rparr>"
  let ?q = "qdata (out_queue s)"
  consider (off) "\<not> IsConnected s" | (none) "IsConnected s" "?q = []"
    | (busy) "IsConnected s" "?q \<noteq> []" "sending s" | (go) b bs where "IsConnected s" "?q = b # bs" "\<not> sending s"
    by (cases ?q) auto
  then show ?thesis
  proof cases
    case off
    then have "send_step t (send_abs (Send s) ps ws)"
      using disconnected[of t] by (simp add: assms Send_def send_abs_def leave_def)
    then show ?thesis by (metis append_Nil2 r_into_rtranclp)
  next
    case none
    have "send_step t (?at AtEmpty)" using none connected[of t] by (simp add: assms send_abs_def goto_def)
    moreover have "send_step (?at AtEmpty) (send_abs (Send s) ps ws)"
      using none empty[of "?at AtEmpty"] by (simp add: Send_def Empty_def send_abs_def leave_def)
    ultimately show ?thesis by (metis append_Nil2 r_into_rtranclp rtranclp.rtrancl_into_rtrancl)
  next
    case busy
    have "send_step t (?at AtEmpty)" using busy connected[of t] by (simp add: assms send_abs_def goto_def)
    moreover have "send_step (?at AtEmpty) (?at AtFlag)"
      using busy nonempty[of "?at AtEmpty"] by (simp add: send_abs_def goto_def)
    moreover have "send_step (?at AtFlag) (send_abs (Send s) ps ws)"
      using busy send_step.busy[of "?at AtFlag"]
      by (simp add: Send_def Empty_def StartSending_def send_abs_def leave_def IsConnected_def)
    ultimately show ?thesis by (metis append_Nil2 r_into_rtranclp rtranclp.rtrancl_into_rtrancl)
  next
    case go
    have "send_step t (?at AtEmpty)" using go connected[of t] by (simp add: assms send_abs_def goto_def)
    moreover have "send_step (?at AtEmpty) (?at AtFlag)"
      using go nonempty[of "?at AtEmpty"] by (simp add: send_abs_def goto_def)
    moreover have "send_step (?at AtFlag) ((?at AtPop)\<lparr>flag := True\<rparr>)"
      using go claim[of "?at AtFlag"] by (simp add: send_abs_def goto_def)
    moreover have "send_step ((?at AtPop)\<lparr>flag := True\<rparr>) (send_abs (Send s) ps (ws @ [b]))"
      using go pop_write[of "(?at AtPop)\<lparr>flag := True\<rparr>" b bs]
      by (simp add: Send_def Empty_def StartSending_def TryPop_Cons send_abs_def leave_def IsConnected_def ws.write_appends)
    ultimately show ?thesis by (metis r_into_rtranclp rtranclp.rtrancl_into_rtrancl)
  qed
qed

text \<open>
  A call of \<open>PushToSend\<close> that is not interrupted is one of the interleavings of the
  relation: it appends the buffer to the log of pushed buffers and takes the session from its
  state before the call to its state after it.
\<close>

lemma PushToSend_refines:
  "\<exists>new. send_step\<^sup>*\<^sup>* (send_abs s ps ws) (send_abs (PushToSend b s) (ps @ [b]) (ws @ new))"
proof -
  let ?s = "s\<lparr>out_queue := Push (out_queue s) b\<rparr>"
  have "send_step (send_abs s ps ws) ((send_abs ?s (ps @ [b]) ws)\<lparr>threads := {#AtConnected#}\<rparr>)"
    using enter[of "send_abs s ps ws" b] by (simp add: send_abs_def Push_def IsConnected_def)
  with send_run[OF refl, of ?s "ps @ [b]" ws] show ?thesis
    unfolding PushToSend_def by (meson converse_rtranclp_into_rtranclp)
qed

text \<open>
  The same for the completion of the oldest outstanding write: the socket takes the write
  off its list, and the handler clears the flag and sends what is queued.
\<close>

lemma OnWrite_refines:
  assumes "op_writes (sock_ops (session_socket s)) = b # bs"
    and "op_writes (sock_ops (session_socket s')) = bs" "s' = s\<lparr>session_socket := session_socket s'\<rparr>"
  shows "\<exists>new. send_step\<^sup>*\<^sup>* (send_abs s ps ws) (send_abs (OnWrite s') ps (ws @ new))"
proof -
  let ?u = "StopSending s'"
  let ?at = "\<lambda>pc. (send_abs ?u ps ws)\<lparr>threads := {#pc#}\<rparr>"
  have s': "out_queue s' = out_queue s" "sending s' = sending s" "session_state s' = session_state s"
    by (subst assms(3), simp)+
  have "send_step (send_abs s ps ws) ((send_abs s' ps ws)\<lparr>threads := {#AtClear#}\<rparr>)"
    using complete[of "send_abs s ps ws" b bs] assms(1,2) s' by (simp add: send_abs_def IsConnected_def)
  moreover have "send_step ((send_abs s' ps ws)\<lparr>threads := {#AtClear#}\<rparr>) (?at AtRecheck)"
    using clear[of "(send_abs s' ps ws)\<lparr>threads := {#AtClear#}\<rparr>"]
    by (simp add: send_abs_def goto_def StopSending_def IsConnected_def)
  ultimately have pre: "send_step\<^sup>*\<^sup>* (send_abs s ps ws) (?at AtRecheck)" by auto
  show ?thesis
  proof (cases "Empty (out_queue ?u)")
    case True
    then have "send_step (?at AtRecheck) (send_abs (OnWrite s') ps ws)"
      using finish[of "?at AtRecheck"] by (simp add: OnWrite_def Empty_def send_abs_def leave_def)
    with pre show ?thesis by (metis append_Nil2 rtranclp.rtrancl_into_rtrancl)
  next
    case False
    then have "send_step (?at AtRecheck) (?at AtConnected)"
      using again[of "?at AtRecheck"] by (simp add: Empty_def send_abs_def goto_def)
    with pre send_run[OF refl, of ?u ps ws] False show ?thesis
      by (simp add: OnWrite_def) (meson rtranclp.rtrancl_into_rtrancl rtranclp_trans)
  qed
qed

section \<open>What a session still has to send\<close>

definition out_stream :: "Session \<Rightarrow> u8 list list" where
  "out_stream s = op_writes (sock_ops (session_socket s)) @ qdata (out_queue s)"

lemma Send_stream: "out_stream (Send s) = out_stream s"
  by (cases "qdata (out_queue s)")
    (auto simp: Send_def out_stream_def Empty_def StartSending_def TryPop_Cons ws.write_appends IsConnected_def split: bool.splits)

lemma PushToSend_stream: "out_stream (PushToSend b s) = out_stream s @ [b]"
  by (simp add: PushToSend_def Send_stream) (simp add: out_stream_def Push_def)

end
