(* ===== verification/Server.thy ===== *)
theory Server
  imports Session WorldLogic
begin

text \<open>
  The network server (\<open>src/net/server/server.cpp\<close>) and the session handlers that call it
  (\<open>src/net/session/session.cpp\<close>). The record \<open>System\<close> extends the world, whose subsystems the
  server shares, by the server's members. Session objects live in the list \<open>objects\<close>; a
  \<open>std::shared_ptr<Session>\<close> is an index into it, and an entry \<open>None\<close> of \<open>sessions\<close> is a null
  pointer. An error code is a \<open>bool\<close>: the code only tests whether it is set.
\<close>

section \<open>State\<close>

record System = World +
  new_session_id :: size_t
  sessions :: "(size_t, nat option) umap"
  objects :: "Session list"

definition Server_new :: "World \<Rightarrow> System" where
  "Server_new w = World.extend w \<lparr>new_session_id = 0, sessions = [], objects = []\<rparr>"

abbreviation obj :: "System \<Rightarrow> nat \<Rightarrow> Session" where
  "obj sys ptr \<equiv> objects sys ! ptr"

definition on_session :: "nat \<Rightarrow> (Session \<Rightarrow> Session) \<Rightarrow> System \<Rightarrow> System" where
  "on_session ptr f sys = sys\<lparr>objects := (objects sys)[ptr := f (obj sys ptr)]\<rparr>"

section \<open>Listening\<close>

datatype acceptor_op = AcceptorOpen | AcceptorReuseAddress | AcceptorBind | AcceptorListen

text \<open>\<open>fails op\<close>: the acceptor reports an error for \<open>op\<close>. The second component lists the calls made.\<close>

definition StartListen :: "(acceptor_op \<Rightarrow> bool) \<Rightarrow> bool \<times> acceptor_op list" where
  "StartListen fails =
     (if fails AcceptorOpen then (False, [AcceptorOpen])
      else if fails AcceptorReuseAddress then (False, [AcceptorOpen, AcceptorReuseAddress])
      else if fails AcceptorBind then (False, [AcceptorOpen, AcceptorReuseAddress, AcceptorBind])
      else if fails AcceptorListen then (False, [AcceptorOpen, AcceptorReuseAddress, AcceptorBind, AcceptorListen])
      else (True, [AcceptorOpen, AcceptorReuseAddress, AcceptorBind, AcceptorListen]))"

section \<open>The session table\<close>

definition PushPacket :: "ServerPacket \<Rightarrow> System \<Rightarrow> System" where
  "PushPacket p sys = sys\<lparr>net_subsystem := (net_subsystem sys)\<lparr>net_in_queue := Push (net_in sys) p\<rparr>\<rparr>"

definition AddSession :: "nat \<Rightarrow> System \<Rightarrow> System" where
  "AddSession ptr sys =
     (let i = session_id (obj sys ptr);
          sys1 = sys\<lparr>sessions := AList.update i (Some ptr) (sessions sys)\<rparr>
      in PushPacket (ServerPacket_new (NetPacket_of CreatePlayer) i Broadcast) sys1)"

definition CloseSession :: "size_t \<Rightarrow> System \<Rightarrow> System" where
  "CloseSession i sys =
     (case map_of (sessions sys) i of
        Some _ \<Rightarrow> PushPacket (ServerPacket_new (NetPacket_of RemovePlayer) i Broadcast)
                    (sys\<lparr>sessions := AList.delete i (sessions sys)\<rparr>)
      | None \<Rightarrow> sys)"

section \<open>Session handlers\<close>

text \<open>\<open>is_open\<close>: whether the TCP layer is open when the socket is closed.\<close>

definition ProcessState :: "bool \<Rightarrow> nat \<Rightarrow> System \<Rightarrow> System" where
  "ProcessState is_open ptr sys =
     (case session_state (obj sys ptr) of
        Connecting \<Rightarrow> sys
      | Connected \<Rightarrow> on_session ptr ReadPacketHead (AddSession ptr sys)
      | Disconnecting \<Rightarrow>
          (let sys1 = on_session ptr (\<lambda>s. s\<lparr>session_socket := WSSocket_close is_open (session_socket s)\<rparr>) sys;
               sys2 = CloseSession (session_id (obj sys1 ptr)) sys1
           in on_session ptr (SetState Disconnected) sys2)
      | Disconnected \<Rightarrow> sys
      | User \<Rightarrow> sys)"

definition OnAccept :: "bool \<Rightarrow> nat \<Rightarrow> bool \<Rightarrow> System \<Rightarrow> System" where
  "OnAccept is_open ptr ec sys =
     ProcessState is_open ptr (on_session ptr (SetState (if ec then Disconnecting else Connected)) sys)"

text \<open>A failed read or write: the same three lines in the three handlers.\<close>

definition OnError :: "bool \<Rightarrow> nat \<Rightarrow> System \<Rightarrow> System" where
  "OnError is_open ptr sys = ProcessState is_open ptr (on_session ptr (SetState Disconnecting) sys)"

definition OnReadData :: "nat \<Rightarrow> u8 list \<Rightarrow> System \<Rightarrow> (System \<times> NetPacket option) res" where
  "OnReadData ptr chunk sys =
     rbind (OnRead (session_reader (obj sys ptr)) chunk) (\<lambda>(r, po).
       let sys1 = on_session ptr (\<lambda>s. s\<lparr>session_reader := r\<rparr>) sys;
           sys2 = (case po of
                     None \<Rightarrow> sys1
                   | Some p \<Rightarrow> PushPacket (ServerPacket_new p (session_id (obj sys ptr)) Broadcast) sys1)
       in Inr (on_session ptr next_read sys2, po))"

definition OnWriteDone :: "bool \<Rightarrow> nat \<Rightarrow> bool \<Rightarrow> System \<Rightarrow> System" where
  "OnWriteDone is_open ptr ec sys = (if ec then OnError is_open ptr sys else on_session ptr OnWrite sys)"

text \<open>The handler of \<open>Server::Run\<close>; it then starts the next accept.\<close>

definition OnConnection :: "bool \<Rightarrow> System \<Rightarrow> System" where
  "OnConnection ec sys =
     (if \<not> ec
      then sys\<lparr>new_session_id := new_session_id sys + 1,
               objects := objects sys @ [Session_Run (Session_new (new_session_id sys))]\<rparr>
      else sys)"

section \<open>The sender\<close>

definition push_to :: "u8 list \<Rightarrow> nat option \<Rightarrow> System \<Rightarrow> System res" where
  "push_to buf e sys = (case e of None \<Rightarrow> Inl NullDeref | Some ptr \<Rightarrow> Inr (on_session ptr (PushToSend buf) sys))"

definition route :: "ServerPacket \<Rightarrow> System \<Rightarrow> System res" where
  "route p sys =
     (let buf = MakeBuffer (fst (GetNetPacket p)) in
      case GetType p of
        Rpc \<Rightarrow>
          (let sys1 = sys\<lparr>sessions := um_touch None (GetID p) (sessions sys)\<rparr>
           in push_to buf (the (map_of (sessions sys1) (GetID p))) sys1)
      | Broadcast \<Rightarrow> rfold (\<lambda>(i, e). push_to buf e) (sessions sys) sys
      | RpcOthers \<Rightarrow> rfold (\<lambda>(i, e) sys. if i \<noteq> GetID p then push_to buf e sys else Inr sys) (sessions sys) sys)"

text \<open>One round of the loop; \<open>None\<close>: the thread waits for a packet.\<close>

definition Sender :: "System \<Rightarrow> System res option" where
  "Sender sys =
     (case WaitAndPop (net_out sys) of
        None \<Rightarrow> None
      | Some (p, q) \<Rightarrow> Some (route p (sys\<lparr>net_subsystem := (net_subsystem sys)\<lparr>net_out_queue := q\<rparr>\<rparr>)))"

text \<open>Rounds until the queue is empty.\<close>

function sender_drain :: "System \<Rightarrow> System res" where
  "sender_drain sys =
     (case WaitAndPop (net_out sys) of
        None \<Rightarrow> Inr sys
      | Some (p, q) \<Rightarrow> rbind (route p (sys\<lparr>net_subsystem := (net_subsystem sys)\<lparr>net_out_queue := q\<rparr>\<rparr>)) sender_drain)"
  by pat_completeness auto

lemma envelope [simp]:
  "packet (ServerPacket_new p i t) = p" "sp_id (ServerPacket_new p i t) = i" "sp_type (ServerPacket_new p i t) = t"
  by (simp_all add: ServerPacket_new_def NetPacket_move_def)

text \<open>Delivering touches only the session objects and, for a missing id, the table.\<close>

lemma on_session_frame [simp]:
  "net_subsystem (on_session ptr f sys) = net_subsystem sys" "game_subsystem (on_session ptr f sys) = game_subsystem sys"
  "players (on_session ptr f sys) = players sys" "world_config (on_session ptr f sys) = world_config sys"
  "tile_map (on_session ptr f sys) = tile_map sys" "new_session_id (on_session ptr f sys) = new_session_id sys"
  "sessions (on_session ptr f sys) = sessions sys"
  "objects (on_session ptr f sys) = (objects sys)[ptr := f (obj sys ptr)]"
  by (simp_all add: on_session_def)

lemma PushPacket_frame [simp]:
  "qdata (net_in (PushPacket p sys)) = qdata (net_in sys) @ [p]" "net_out (PushPacket p sys) = net_out sys"
  "game_subsystem (PushPacket p sys) = game_subsystem sys" "players (PushPacket p sys) = players sys"
  "world_config (PushPacket p sys) = world_config sys" "tile_map (PushPacket p sys) = tile_map sys"
  "new_session_id (PushPacket p sys) = new_session_id sys" "sessions (PushPacket p sys) = sessions sys"
  "objects (PushPacket p sys) = objects sys"
  by (simp_all add: PushPacket_def Push_def)

definition same_world :: "System \<Rightarrow> System \<Rightarrow> bool" where
  "same_world sys sys' \<longleftrightarrow> net_subsystem sys' = net_subsystem sys \<and> game_subsystem sys' = game_subsystem sys \<and>
     players sys' = players sys \<and> world_config sys' = world_config sys \<and> tile_map sys' = tile_map sys \<and>
     new_session_id sys' = new_session_id sys \<and> length (objects sys') = length (objects sys)"

lemma same_world_refl [simp]: "same_world sys sys"
  by (simp add: same_world_def)

lemma same_world_trans: "same_world a b \<Longrightarrow> same_world b c \<Longrightarrow> same_world a c"
  by (simp add: same_world_def)

lemma push_to_world: "push_to buf e sys = Inr sys' \<Longrightarrow> same_world sys sys' \<and> sessions sys' = sessions sys"
  by (auto simp: push_to_def same_world_def split: option.splits)

lemma deliver_world:
  assumes "rfold (\<lambda>(i, e) sys. if P i then push_to buf e sys else Inr sys) xs sys = Inr sys'"
  shows "same_world sys sys' \<and> sessions sys' = sessions sys"
  by (rule rfold_invariant[OF assms]) (auto dest: push_to_world same_world_trans split: prod.splits if_splits)

lemma route_world: "route p sys = Inr sys' \<Longrightarrow> same_world sys sys'"
proof (cases "GetType p")
  case Rpc
  assume "route p sys = Inr sys'"
  with Rpc push_to_world show ?thesis by (force simp: route_def Let_def same_world_def)
next
  case Broadcast
  assume "route p sys = Inr sys'"
  with Broadcast deliver_world[of "\<lambda>_. True"] show ?thesis by (auto simp: route_def Let_def)
next
  case RpcOthers
  assume "route p sys = Inr sys'"
  with RpcOthers deliver_world[of "\<lambda>i. i \<noteq> GetID p"] show ?thesis by (auto simp: route_def Let_def)
qed

termination sender_drain
proof (relation "measure (\<lambda>sys. length (qdata (net_out sys)))")
  fix sys x p q sys'
  assume "WaitAndPop (net_out sys) = Some x" "(p, q) = x"
    "route p (sys\<lparr>net_subsystem := (net_subsystem sys)\<lparr>net_out_queue := q\<rparr>\<rparr>) = Inr sys'"
  then show "(sys', sys) \<in> measure (\<lambda>sys. length (qdata (net_out sys)))"
    by (auto dest!: route_world simp: same_world_def WaitAndPop_def split: list.splits)
qed simp

declare sender_drain.simps [simp del]

end
