(* ===== verification/ServerLogic.thy ===== *)
theory ServerLogic
  imports Server
begin

text \<open>
  What the server guarantees: where the sender delivers a packet, and, for the system of server,
  sessions and world under every interleaving of connections, completions, sender rounds and
  ticks, that sessions, table entries and queued inputs stay consistent. Handlers of the system
  run one after the other here; threads inside \<open>Send\<close> are the subject of theory \<open>Session\<close>.
\<close>

section \<open>Delivery\<close>

text \<open>The table: distinct keys, no null entry, every entry an existing object that carries the key.\<close>

definition table_ok :: "System \<Rightarrow> bool" where
  "table_ok sys \<longleftrightarrow> um_wf (sessions sys) \<and>
     (\<forall>i e. map_of (sessions sys) i = Some e \<longrightarrow>
        (\<exists>ptr < length (objects sys). e = Some ptr \<and> session_id (obj sys ptr) = i))"

definition targeted :: "ServerPacket \<Rightarrow> size_t \<Rightarrow> bool" where
  "targeted p i \<longleftrightarrow> (case GetType p of Rpc \<Rightarrow> i = GetID p | Broadcast \<Rightarrow> True | RpcOthers \<Rightarrow> i \<noteq> GetID p)"

lemma session_id_Send [simp]: "session_id (Send s) = session_id s"
  by (auto simp: Send_def StartSending_def split: bool.splits option.splits prod.splits)

lemma session_id_PushToSend [simp]: "session_id (PushToSend b s) = session_id s"
  by (simp add: PushToSend_def)

text \<open>Pushing a buffer to the sessions that \<open>P\<close> selects among the entries \<open>xs\<close>.\<close>

definition pushed_to :: "u8 list \<Rightarrow> nat set \<Rightarrow> System \<Rightarrow> System \<Rightarrow> bool" where
  "pushed_to buf A sys sys' \<longleftrightarrow> same_world sys sys' \<and> sessions sys' = sessions sys \<and>
     (\<forall>ptr < length (objects sys). obj sys' ptr = (if ptr \<in> A then PushToSend buf (obj sys ptr) else obj sys ptr))"

lemma pushed_to_Inr:
  "pushed_to buf A sys sys' \<Longrightarrow> ptr \<notin> A \<Longrightarrow> ptr < length (objects sys') \<Longrightarrow>
   pushed_to buf (insert ptr A) sys (on_session ptr (PushToSend buf) sys')"
  by (auto simp: pushed_to_def same_world_def nth_list_update)

lemma deliver_all:
  assumes "distinct (map snd xs)" "\<forall>(i, e) \<in> set xs. \<exists>ptr < length (objects sys). e = Some ptr"
    and "pushed_to buf A sys0 sys" "\<forall>(i, e) \<in> set xs. \<forall>ptr. e = Some ptr \<longrightarrow> ptr \<notin> A"
  shows "\<exists>sys'. rfold (\<lambda>(i, e) sys. if P i then push_to buf e sys else Inr sys) xs sys = Inr sys' \<and>
    pushed_to buf (A \<union> {ptr. \<exists>i. (i, Some ptr) \<in> set xs \<and> P i}) sys0 sys'"
  using assms
proof (induction xs arbitrary: A sys)
  case (Cons x xs)
  obtain i ptr where x: "x = (i, Some ptr)" "ptr < length (objects sys)" using Cons.prems(2) by force
  let ?sys = "if P i then on_session ptr (PushToSend buf) sys else sys"
  let ?A = "if P i then insert ptr A else A"
  have a: "ptr \<notin> A" using Cons.prems(4) x by auto
  have fresh: "(j, Some ptr) \<notin> set xs" for j using Cons.prems(1) x by (force simp: image_iff)
  have "pushed_to buf ?A sys0 ?sys" using Cons.prems(3) pushed_to_Inr[OF _ a x(2)] by simp
  moreover have "\<forall>(i, e) \<in> set xs. \<forall>ptr. e = Some ptr \<longrightarrow> ptr \<notin> ?A"
    using Cons.prems(4) fresh by (auto split: prod.splits)
  moreover have "\<forall>(i, e) \<in> set xs. \<exists>ptr < length (objects ?sys). e = Some ptr" using Cons.prems(2) by auto
  ultimately obtain sys' where sys': "rfold (\<lambda>(i, e) sys. if P i then push_to buf e sys else Inr sys) xs ?sys = Inr sys'"
    "pushed_to buf (?A \<union> {ptr. \<exists>i. (i, Some ptr) \<in> set xs \<and> P i}) sys0 sys'"
    using Cons.IH[of ?sys ?A] Cons.prems(1) by auto
  have "?A \<union> {ptr. \<exists>i. (i, Some ptr) \<in> set xs \<and> P i} = A \<union> {q. \<exists>i. (i, Some q) \<in> set (x # xs) \<and> P i}"
    using x by auto
  with sys' show ?case by (auto simp: x push_to_def)
qed simp

lemma table_pointers:
  assumes "table_ok sys"
  shows "distinct (map snd (sessions sys))" "\<forall>(i, e) \<in> set (sessions sys). \<exists>ptr < length (objects sys). e = Some ptr"
    "(i, Some ptr) \<in> set (sessions sys) \<longleftrightarrow> map_of (sessions sys) i = Some (Some ptr)"
    "map_of (sessions sys) i = Some (Some ptr) \<Longrightarrow> session_id (obj sys ptr) = i"
proof -
  have wf: "um_wf (sessions sys)" using assms by (simp add: table_ok_def)
  have e: "(i, e) \<in> set (sessions sys) \<longleftrightarrow> map_of (sessions sys) i = Some e" for i e using um.entry_iff[OF wf] by simp
  then show "(i, Some ptr) \<in> set (sessions sys) \<longleftrightarrow> map_of (sessions sys) i = Some (Some ptr)" by simp
  have t: "\<exists>ptr < length (objects sys). e = Some ptr \<and> session_id (obj sys ptr) = i" if "(i, e) \<in> set (sessions sys)" for i e
    using assms that e by (simp add: table_ok_def)
  then show "\<forall>(i, e) \<in> set (sessions sys). \<exists>ptr < length (objects sys). e = Some ptr" by fastforce
  show "map_of (sessions sys) i = Some (Some ptr) \<Longrightarrow> session_id (obj sys ptr) = i" using t e by blast
  have "inj_on snd (set (sessions sys))"
  proof (rule inj_onI)
    fix x y assume xy: "x \<in> set (sessions sys)" "y \<in> set (sessions sys)" "snd x = snd y"
    then show "x = y" using t[of "fst x" "snd x"] t[of "fst y" "snd y"] by (metis option.inject prod.collapse)
  qed
  with wf show "distinct (map snd (sessions sys))" by (auto simp: um_wf_def distinct_map)
qed

lemma route_delivers:
  assumes "table_ok sys" "GetType p = Rpc \<Longrightarrow> GetID p \<in> dom (map_of (sessions sys))"
  shows "\<exists>sys'. route p sys = Inr sys' \<and>
    pushed_to (MakeBuffer (packet p)) {ptr. \<exists>i. map_of (sessions sys) i = Some (Some ptr) \<and> targeted p i} sys sys'"
proof -
  have buf: "fst (GetNetPacket p) = packet p" by (simp add: GetNetPacket_def NetPacket_move_def Let_def)
  have start: "pushed_to buf {} sys sys" for buf by (simp add: pushed_to_def)
  note d = deliver_all[OF table_pointers(1,2)[OF assms(1)] start, simplified, unfolded table_pointers(3)[OF assms(1)]]
  show ?thesis
  proof (cases "GetType p")
    case Rpc
    then obtain e where e: "map_of (sessions sys) (GetID p) = Some e" using assms(2) by auto
    then obtain ptr where ptr: "e = Some ptr" "ptr < length (objects sys)" using assms(1) by (auto simp: table_ok_def)
    have "{q. \<exists>i. map_of (sessions sys) i = Some (Some q) \<and> targeted p i} = {ptr}"
      using e ptr Rpc by (auto simp: targeted_def)
    moreover have "um_touch None (GetID p) (sessions sys) = sessions sys" using e by (simp add: um_touch_def)
    ultimately show ?thesis using Rpc e ptr pushed_to_Inr[OF start, of ptr "MakeBuffer (packet p)"]
      by (simp add: route_def buf push_to_def)
  next
    case Broadcast
    with d[where P = "\<lambda>_. True"] show ?thesis by (simp add: route_def buf targeted_def)
  next
    case RpcOthers
    with d[where P = "\<lambda>i. i \<noteq> GetID p"] show ?thesis by (simp add: route_def buf targeted_def)
  qed
qed

lemma pushed_ids:
  "pushed_to buf A sys sys' \<Longrightarrow> ptr < length (objects sys) \<Longrightarrow> session_id (obj sys' ptr) = session_id (obj sys ptr)"
  by (simp add: pushed_to_def)

lemma table_ok_pushed:
  assumes "pushed_to buf A sys sys'" "table_ok sys"
  shows "table_ok sys'"
proof -
  have f: "sessions sys' = sessions sys" "length (objects sys') = length (objects sys)"
    using assms(1) by (simp_all add: pushed_to_def same_world_def)
  have "\<exists>ptr < length (objects sys'). e = Some ptr \<and> session_id (obj sys' ptr) = i"
    if e: "map_of (sessions sys') i = Some e" for i e
  proof -
    obtain ptr where "ptr < length (objects sys)" "e = Some ptr" "session_id (obj sys ptr) = i"
      using assms(2) e f by (auto simp: table_ok_def)
    then show ?thesis using pushed_ids[OF assms(1)] f by (intro exI[of _ ptr]) simp
  qed
  then show ?thesis using assms(2) f by (simp add: table_ok_def)
qed

lemma pushed_stream:
  assumes "pushed_to buf {ptr. \<exists>i. map_of (sessions sys) i = Some (Some ptr) \<and> P i} sys sys'" "table_ok sys"
    and "map_of (sessions sys) i = Some (Some ptr)"
  shows "out_stream (obj sys' ptr) = out_stream (obj sys ptr) @ (if P i then [buf] else [])"
proof -
  have "ptr < length (objects sys)" using assms(2,3) by (auto simp: table_ok_def)
  moreover have "(\<exists>j. map_of (sessions sys) j = Some (Some ptr) \<and> P j) \<longleftrightarrow> P i"
    using assms(3) table_pointers(4)[OF assms(2)] by metis
  ultimately show ?thesis using assms(1) by (simp add: pushed_to_def PushToSend_stream)
qed

text \<open>The round that delivers \<open>p\<close>, the head of the queue.\<close>

abbreviation popped_out :: "ServerPacket list \<Rightarrow> System \<Rightarrow> System" where
  "popped_out ps sys \<equiv> sys\<lparr>net_subsystem := (net_subsystem sys)\<lparr>net_out_queue := \<lparr>qdata = ps\<rparr>\<rparr>\<rparr>"

lemma WaitAndPop_Cons: "qdata q = x # xs \<Longrightarrow> WaitAndPop q = Some (x, \<lparr>qdata = xs\<rparr>)"
  by (cases q) (simp add: WaitAndPop_def)

lemma table_ok_popped [simp]: "table_ok (popped_out ps sys) = table_ok sys"
  by (simp add: table_ok_def)

lemma round_delivers:
  assumes "table_ok sys" "GetType p = Rpc \<Longrightarrow> GetID p \<in> dom (map_of (sessions sys))"
  shows "\<exists>sys'. route p (popped_out ps sys) = Inr sys' \<and> table_ok sys' \<and> sessions sys' = sessions sys \<and>
    qdata (net_out sys') = ps \<and> length (objects sys') = length (objects sys) \<and>
    (\<forall>i ptr. map_of (sessions sys) i = Some (Some ptr) \<longrightarrow>
       out_stream (obj sys' ptr) = out_stream (obj sys ptr) @ (if targeted p i then [MakeBuffer (packet p)] else [])) \<and>
    (\<forall>ptr < length (objects sys). (\<forall>i. map_of (sessions sys) i \<noteq> Some (Some ptr)) \<longrightarrow> obj sys' ptr = obj sys ptr)"
proof -
  let ?u = "popped_out ps sys"
  obtain sys' where r: "route p ?u = Inr sys'"
    "pushed_to (MakeBuffer (packet p)) {ptr. \<exists>i. map_of (sessions ?u) i = Some (Some ptr) \<and> targeted p i} ?u sys'"
    using route_delivers[of ?u p] assms by auto
  have t: "table_ok ?u" using assms(1) by simp
  note stream = pushed_stream[OF r(2) t]
  have "sessions sys' = sessions sys \<and> qdata (net_out sys') = ps \<and> length (objects sys') = length (objects sys)"
    using r(2) by (simp add: pushed_to_def same_world_def)
  moreover have "obj sys' ptr = obj sys ptr"
    if "ptr < length (objects sys)" "\<forall>i. map_of (sessions sys) i \<noteq> Some (Some ptr)" for ptr
    using r(2) that by (simp add: pushed_to_def)
  ultimately show ?thesis using r(1) table_ok_pushed[OF r(2) t] stream by (intro exI[of _ sys']) simp
qed

lemma Sender_null:
  assumes "qdata (net_out sys) = p # ps" "GetType p = Rpc" "GetID p \<notin> dom (map_of (sessions sys))"
  shows "Sender sys = Some (Inl NullDeref)"
proof -
  have "map_of (um_touch None (GetID p) (sessions sys)) (GetID p) = Some None"
    using assms(3) by (simp add: map_of_um_touch domIff)
  with assms(1,2) show ?thesis by (simp add: Sender_def WaitAndPop_Cons route_def Let_def push_to_def)
qed

text \<open>
  C11. A round of the sender, on every state of its queue and of the session table. With an empty
  queue it waits. An \<open>Rpc\<close> packet for a session that is not in the table makes it dereference a
  null pointer. Otherwise it takes the oldest packet off the queue and pushes its bytes once to
  each session it is meant for (one for \<open>Rpc\<close>, all for \<open>Broadcast\<close>, all but one for \<open>RpcOthers\<close>), so
  that they are appended to what that session still has to send; every other session object,
  connected or not, is left exactly as it was, and so are the table, the incoming queue and the
  world.
\<close>

theorem Sender_routes:
  assumes "table_ok sys"
  shows "case qdata (net_out sys) of
      [] \<Rightarrow> Sender sys = None
    | p # ps \<Rightarrow>
        if GetType p = Rpc \<and> GetID p \<notin> dom (map_of (sessions sys)) then Sender sys = Some (Inl NullDeref)
        else \<exists>sys'. Sender sys = Some (Inr sys') \<and> table_ok sys' \<and> same_world (popped_out ps sys) sys' \<and>
          sessions sys' = sessions sys \<and> qdata (net_out sys') = ps \<and>
          (\<forall>ptr < length (objects sys). obj sys' ptr =
             (if \<exists>i. map_of (sessions sys) i = Some (Some ptr) \<and> targeted p i
              then PushToSend (MakeBuffer (packet p)) (obj sys ptr) else obj sys ptr)) \<and>
          (\<forall>i ptr. map_of (sessions sys) i = Some (Some ptr) \<longrightarrow>
             out_stream (obj sys' ptr) = out_stream (obj sys ptr) @ (if targeted p i then [MakeBuffer (packet p)] else []))"
proof (cases "qdata (net_out sys)")
  case Nil
  then show ?thesis by (simp add: Sender_def WaitAndPop_def)
next
  case (Cons p ps)
  show ?thesis
  proof (cases "GetType p = Rpc \<and> GetID p \<notin> dom (map_of (sessions sys))")
    case True
    with Sender_null[OF Cons] Cons show ?thesis by simp
  next
    case False
    from round_delivers[OF assms, of p ps] False obtain sys' where r: "route p (popped_out ps sys) = Inr sys'" "table_ok sys'"
      "sessions sys' = sessions sys" "qdata (net_out sys') = ps"
      "\<forall>i ptr. map_of (sessions sys) i = Some (Some ptr) \<longrightarrow>
         out_stream (obj sys' ptr) = out_stream (obj sys ptr) @ (if targeted p i then [MakeBuffer (packet p)] else [])" by blast
    have "pushed_to (MakeBuffer (packet p)) {ptr. \<exists>i. map_of (sessions sys) i = Some (Some ptr) \<and> targeted p i} (popped_out ps sys) sys'"
      using route_delivers[of "popped_out ps sys" p] assms False r(1) by auto
    with r Cons False show ?thesis by (auto simp: Sender_def WaitAndPop_Cons pushed_to_def)
  qed
qed

section \<open>Draining the queue\<close>

definition addressed :: "System \<Rightarrow> bool" where
  "addressed sys \<longleftrightarrow> (\<forall>p \<in> set (qdata (net_out sys)). GetType p = Rpc \<longrightarrow> GetID p \<in> dom (map_of (sessions sys)))"

definition for_session :: "size_t \<Rightarrow> ServerPacket list \<Rightarrow> NetPacket list" where
  "for_session i ps = map packet (filter (\<lambda>p. targeted p i) ps)"

lemma drain_streams:
  assumes "table_ok sys" "addressed sys"
  shows "\<exists>sys'. sender_drain sys = Inr sys' \<and> table_ok sys' \<and> sessions sys' = sessions sys \<and> qdata (net_out sys') = [] \<and>
    (\<forall>i ptr. map_of (sessions sys) i = Some (Some ptr) \<longrightarrow>
       out_stream (obj sys' ptr) = out_stream (obj sys ptr) @ map MakeBuffer (for_session i (qdata (net_out sys))))"
  using assms
proof (induction "qdata (net_out sys)" arbitrary: sys)
  case Nil
  then show ?case by (subst sender_drain.simps) (simp add: WaitAndPop_def for_session_def split: list.splits)
next
  case (Cons p ps)
  note q = Cons.hyps(2)[symmetric]
  have "GetType p = Rpc \<Longrightarrow> GetID p \<in> dom (map_of (sessions sys))" using Cons.prems(2) q by (simp add: addressed_def)
  from round_delivers[OF Cons.prems(1) this, of ps] obtain u where u: "route p (popped_out ps sys) = Inr u" "table_ok u"
    "sessions u = sessions sys" "qdata (net_out u) = ps"
    "\<forall>i ptr. map_of (sessions sys) i = Some (Some ptr) \<longrightarrow>
       out_stream (obj u ptr) = out_stream (obj sys ptr) @ (if targeted p i then [MakeBuffer (packet p)] else [])" by auto
  have d: "sender_drain sys = sender_drain u"
    using u(1) q by (subst sender_drain.simps) (simp add: WaitAndPop_Cons)
  have "addressed u" using Cons.prems(2) u(3,4) q by (simp add: addressed_def)
  from Cons.hyps(1)[OF u(4)[symmetric] u(2) this] obtain sys' where "sender_drain u = Inr sys'" "table_ok sys'"
    "sessions sys' = sessions u" "qdata (net_out sys') = []"
    "\<forall>i ptr. map_of (sessions u) i = Some (Some ptr) \<longrightarrow>
       out_stream (obj sys' ptr) = out_stream (obj u ptr) @ map MakeBuffer (for_session i (qdata (net_out u)))" by auto
  with d u(3-5) q show ?case by (intro exI[of _ sys']) (simp add: for_session_def)
qed

text \<open>A packet for a session that is not in the table stops the rounds.\<close>

lemma drain_null:
  assumes "table_ok sys" "\<not> addressed sys"
  shows "sender_drain sys = Inl NullDeref"
  using assms
proof (induction "qdata (net_out sys)" arbitrary: sys)
  case (Cons p ps)
  note q = Cons.hyps(2)[symmetric]
  show ?case
  proof (cases "GetType p = Rpc \<and> GetID p \<notin> dom (map_of (sessions sys))")
    case True
    with Sender_null[OF q] have "route p (popped_out ps sys) = Inl NullDeref" by (simp add: Sender_def WaitAndPop_Cons q)
    then show ?thesis using q by (subst sender_drain.simps) (simp add: WaitAndPop_Cons)
  next
    case False
    with round_delivers[OF Cons.prems(1), of p ps] obtain u where u: "route p (popped_out ps sys) = Inr u" "table_ok u"
      "sessions u = sessions sys" "qdata (net_out u) = ps" by blast
    then have "\<not> addressed u" using Cons.prems(2) q False by (auto simp: addressed_def)
    from Cons.hyps(1)[OF u(4)[symmetric] u(2) this] u(1) q show ?thesis
      by (subst sender_drain.simps) (simp add: WaitAndPop_Cons)
  qed
qed (simp add: addressed_def)

section \<open>Listening\<close>

text \<open>
  \<open>StartListen\<close> reports success exactly when all four calls succeed, makes them in the order
  open, reuse address, bind, listen, and makes no call after one that failed.
\<close>

lemma StartListen_stops_at_error:
  "fst (StartListen fails) = (\<forall>op. \<not> fails op) \<and>
   (let calls = [AcceptorOpen, AcceptorReuseAddress, AcceptorBind, AcceptorListen]
    in snd (StartListen fails) = take (Suc (length (takeWhile (\<lambda>op. \<not> fails op) calls))) calls)"
proof -
  have "(\<forall>op. \<not> fails op) \<longleftrightarrow> \<not> fails AcceptorOpen \<and> \<not> fails AcceptorReuseAddress \<and> \<not> fails AcceptorBind \<and> \<not> fails AcceptorListen"
    by (metis acceptor_op.exhaust)
  then show ?thesis by (simp add: StartListen_def)
qed

section \<open>A concrete system\<close>

text \<open>Two connected sessions and one queued packet for the first.\<close>

definition wit_system :: System where
  "wit_system = (Server_new (wit_world [] []))\<lparr>
     objects := [SetState Connected (Session_new 0), SetState Connected (Session_new 1)], sessions := [(0, Some 0), (1, Some 1)],
     net_subsystem := \<lparr>net_in_queue = TSQueue_new, net_out_queue = \<lparr>qdata = [ServerPacket_new (RemovePlayerPacket 9) 0 Rpc]\<rparr>\<rparr>\<rparr>"

lemma wit_system_facts:
  "table_ok wit_system" "qdata (net_out wit_system) = [ServerPacket_new (RemovePlayerPacket 9) 0 Rpc]"
  "map_of (sessions wit_system) = [1 \<mapsto> Some 1, 0 \<mapsto> Some 0]"
  "out_stream (obj wit_system 0) = []" "out_stream (obj wit_system 1) = []"
  by (auto simp: wit_system_def table_ok_def um_wf_def SetState_def Session_new_def Server_new_def World.defs
      out_stream_def TSQueue_new_def socket_defs)

theorem Sender_routes_witness:
  "\<exists>sys'. Sender wit_system = Some (Inr sys') \<and>
     out_stream (obj sys' 0) = [MakeBuffer (RemovePlayerPacket 9)] \<and> obj sys' 1 = obj wit_system 1"
proof -
  let ?p = "ServerPacket_new (RemovePlayerPacket 9) 0 Rpc"
  have ty: "GetType ?p = Rpc" "GetID ?p = 0" by (simp_all add: GetType_def GetID_def)
  have n: "length (objects wit_system) = 2" by (simp add: wit_system_def)
  from Sender_routes[OF wit_system_facts(1)] ty wit_system_facts(2,3) obtain sys' where s: "Sender wit_system = Some (Inr sys')"
    "\<forall>ptr < length (objects wit_system). obj sys' ptr =
       (if \<exists>i. map_of (sessions wit_system) i = Some (Some ptr) \<and> targeted ?p i
        then PushToSend (MakeBuffer (packet ?p)) (obj wit_system ptr) else obj wit_system ptr)"
    "\<forall>i ptr. map_of (sessions wit_system) i = Some (Some ptr) \<longrightarrow>
       out_stream (obj sys' ptr) = out_stream (obj wit_system ptr) @ (if targeted ?p i then [MakeBuffer (packet ?p)] else [])" by auto
  have "obj sys' 1 = obj wit_system 1"
    using s(2)[rule_format, of 1] n ty wit_system_facts(3) by (auto simp: targeted_def split: if_splits)
  moreover have "out_stream (obj sys' 0) = [MakeBuffer (RemovePlayerPacket 9)]"
    using s(3)[rule_format, of 0 0] ty wit_system_facts(3,4) by (simp add: targeted_def)
  ultimately show ?thesis using s(1) by blast
qed

end
