(* ===== verification/SystemRuns.thy ===== *)
theory SystemRuns
  imports ServerLogic
begin

text \<open>
  Runs of the whole server: connections, completions of socket operations, sender rounds and
  ticks in any order. A completion is possible for an operation that was started and has not
  completed; its handler runs to the end before the next event. The invariants of every run, and
  the stronger ones of orderly runs, in which no client sends \<open>RemovePlayer\<close> and no read
  delivers data after its session was closed.
\<close>

section \<open>Events\<close>

definition system_start :: "GameConfig \<Rightarrow> System res" where
  "system_start cfg =
     rbind (World_new \<lparr>net_in_queue = TSQueue_new, net_out_queue = TSQueue_new\<rparr>
              \<lparr>game_in_queue = TSQueue_new, game_out_queue = TSQueue_new\<rparr> cfg) (\<lambda>w. Inr (Server_new w))"

abbreviation ops_of :: "System \<Rightarrow> nat \<Rightarrow> sock_op list" where
  "ops_of sys ptr \<equiv> sock_ops (session_socket (obj sys ptr))"

definition finished :: "sock_op \<Rightarrow> Session \<Rightarrow> Session" where
  "finished op s = s\<lparr>session_socket := finish_op op (session_socket s)\<rparr>"

definition finish :: "nat \<Rightarrow> sock_op \<Rightarrow> System \<Rightarrow> System" where
  "finish ptr op = on_session ptr (finished op)"

datatype sys_event =
    Connection bool
  | Accepted nat bool
  | ReadFailed nat
  | ReadDone nat State "u8 list" "NetPacket option"
  | WriteFinished nat bool
  | CloseFinished nat
  | Sent
  | Ticked f64

inductive sys_step :: "System \<Rightarrow> sys_event \<Rightarrow> System \<Rightarrow> bool" where
  connection: "sys_step sys (Connection ec) (OnConnection ec sys)"
| accepted: "ptr < length (objects sys) \<Longrightarrow> OpAccept \<in> set (ops_of sys ptr) \<Longrightarrow>
    sys_step sys (Accepted ptr ec) (OnAccept is_open ptr ec (finish ptr OpAccept sys))"
| read_failed: "ptr < length (objects sys) \<Longrightarrow> OpRead n \<in> set (ops_of sys ptr) \<Longrightarrow>
    sys_step sys (ReadFailed ptr) (OnError is_open ptr (finish ptr (OpRead n) sys))"
| read_done: "ptr < length (objects sys) \<Longrightarrow> OpRead n \<in> set (ops_of sys ptr) \<Longrightarrow> length chunk \<le> unat n \<Longrightarrow>
    OnReadData ptr chunk (finish ptr (OpRead n) sys) = Inr (sys', po) \<Longrightarrow>
    sys_step sys (ReadDone ptr (session_state (obj sys ptr)) chunk po) sys'"
| write_finished: "ptr < length (objects sys) \<Longrightarrow> OpWrite b \<in> set (ops_of sys ptr) \<Longrightarrow>
    sys_step sys (WriteFinished ptr ec) (OnWriteDone is_open ptr ec (finish ptr (OpWrite b) sys))"
| close_finished: "ptr < length (objects sys) \<Longrightarrow> OpClose \<in> set (ops_of sys ptr) \<Longrightarrow>
    sys_step sys (CloseFinished ptr) (finish ptr OpClose sys)"
| sent: "Sender sys = Some (Inr sys') \<Longrightarrow> sys_step sys Sent sys'"
| ticked: "Tick dt sys = Inr sys' \<Longrightarrow> sys_step sys (Ticked dt) sys'"

inductive sys_run :: "System \<Rightarrow> sys_event list \<Rightarrow> System \<Rightarrow> bool" where
  run_nil: "sys_run sys [] sys"
| run_snoc: "sys_run sys evs sys' \<Longrightarrow> sys_step sys' e sys'' \<Longrightarrow> sys_run sys (evs @ [e]) sys''"

definition orderly :: "sys_event \<Rightarrow> bool" where
  "orderly e \<longleftrightarrow> (case e of
       ReadDone ptr st chunk po \<Rightarrow> st \<noteq> Disconnected \<and>
         (case po of None \<Rightarrow> True | Some p \<Rightarrow> GetHeadOpcode p \<noteq> to_uint16 RemovePlayer)
     | _ \<Rightarrow> True)"

section \<open>Sessions between handlers\<close>

definition is_input :: "sock_op \<Rightarrow> bool" where
  "is_input op \<longleftrightarrow> (case op of OpAccept \<Rightarrow> True | OpRead _ \<Rightarrow> True | _ \<Rightarrow> False)"

definition op_ok :: "Session \<Rightarrow> sock_op \<Rightarrow> bool" where
  "op_ok s op \<longleftrightarrow> (case op of
       OpAccept \<Rightarrow> session_state s = Connecting
     | OpRead n \<Rightarrow> n = read_limit (session_reader s) \<and> session_state s \<in> {Connected, Disconnected}
     | OpWrite b \<Rightarrow> session_state s \<in> {Connected, Disconnected}
     | OpClose \<Rightarrow> True
     | _ \<Rightarrow> False)"

text \<open>At most one of accept and read is outstanding, and every outstanding operation fits the state.\<close>

definition sess_ok :: "Session \<Rightarrow> bool" where
  "sess_ok s \<longleftrightarrow> reader_inv (session_reader s) \<and> session_state s \<in> {Connecting, Connected, Disconnected} \<and>
     (session_state s = Connecting \<longrightarrow> session_reader s = reader_new) \<and>
     length (filter is_input (sock_ops (session_socket s))) \<le> 1 \<and>
     (\<forall>op \<in> set (sock_ops (session_socket s)). op_ok s op)"

lemma sess_ok_new: "sess_ok (Session_Run (Session_new i))"
  by (simp add: sess_ok_def Session_Run_def Session_new_def socket_defs reader_inv_new is_input_def op_ok_def)

lemma filter_remove1_input:
  "op \<in> set ops \<Longrightarrow> is_input op \<Longrightarrow> length (filter is_input ops) \<le> 1 \<Longrightarrow> filter is_input (remove1 op ops) = []"
  by (induction ops) (auto simp: filter_empty_conv split: if_splits)

lemma finished_simps [simp]:
  "session_state (finished op s) = session_state s" "session_reader (finished op s) = session_reader s"
  "session_id (finished op s) = session_id s" "sending (finished op s) = sending s"
  "out_queue (finished op s) = out_queue s"
  "sock_ops (session_socket (finished op s)) = remove1 op (sock_ops (session_socket s))"
  by (simp_all add: finished_def finish_op_def)

lemma sess_ok_finished: "sess_ok s \<Longrightarrow> sess_ok (finished op s)"
proof -
  assume s: "sess_ok s"
  have "length (filter is_input (remove1 op ops)) \<le> length (filter is_input ops)" for ops
    by (induction ops) auto
  moreover have "op_ok (finished op s) = op_ok s" by (rule ext) (simp add: op_ok_def split: sock_op.split)
  ultimately show ?thesis using s notin_set_remove1[of _ "sock_ops (session_socket s)" op]
    by (auto simp: sess_ok_def intro: order_trans)
qed

text \<open>A session with neither accept nor read outstanding and a state in which reads are allowed.\<close>

definition idle :: "Session \<Rightarrow> bool" where
  "idle s \<longleftrightarrow> sess_ok s \<and> filter is_input (sock_ops (session_socket s)) = []"

lemma idle_finished: "sess_ok s \<Longrightarrow> op \<in> set (sock_ops (session_socket s)) \<Longrightarrow> is_input op \<Longrightarrow> idle (finished op s)"
  using sess_ok_finished[of s op] filter_remove1_input[of op "sock_ops (session_socket s)"]
  by (simp add: idle_def sess_ok_def)

lemma idle_ops: "idle s \<Longrightarrow> op \<in> set (sock_ops (session_socket s)) \<Longrightarrow> (\<exists>b. op = OpWrite b) \<or> op = OpClose"
  by (cases op) (auto simp: idle_def sess_ok_def op_ok_def is_input_def filter_empty_conv)

lemma read_limit_phase:
  "read_limit (r\<lparr>phase := InHead\<rparr>) = HeadSizeLeft (handler r)" "read_limit (r\<lparr>phase := InBody\<rparr>) = BodySizeLeft (handler r)"
  by (simp_all add: read_limit_def)

text \<open>Starting the next read once the reader is in a new state.\<close>

lemma next_read_eq:
  "next_read s = s\<lparr>session_socket := WSSocket_async_read_some (read_limit (session_reader s)) (session_socket s)\<rparr>"
  by (cases "phase (session_reader s)") (simp_all add: next_read_def ReadPacketHead_def ReadPacketBody_def read_limit_def)

lemma sess_ok_next_read:
  assumes "idle s" "session_state s \<in> {Connected, Disconnected}" "reader_inv r"
  shows "sess_ok (next_read (s\<lparr>session_reader := r\<rparr>))"
proof -
  have "op_ok (next_read (s\<lparr>session_reader := r\<rparr>)) op" if "op \<in> set (sock_ops (session_socket s))" for op
    using idle_ops[OF assms(1) that] assms(2) by (auto simp: op_ok_def next_read_eq)
  with assms show ?thesis
    by (auto simp: sess_ok_def idle_def next_read_eq ws.read_ops is_input_def op_ok_def)
qed

lemma ReadPacketHead_next: "phase (session_reader s) = InHead \<Longrightarrow> ReadPacketHead s = next_read s"
  by (simp add: next_read_def)

text \<open>Closing: the state becomes \<open>Disconnected\<close> and only writes, one read and the handshake stay.\<close>

definition shut :: "bool \<Rightarrow> Session \<Rightarrow> Session" where
  "shut is_open s = SetState Disconnected (s\<lparr>session_state := Disconnecting, session_socket := WSSocket_close is_open (session_socket s)\<rparr>)"

lemma shut_simps [simp]:
  "session_state (shut o1 s) = Disconnected" "session_id (shut o1 s) = session_id s"
  "session_reader (shut o1 s) = session_reader s"
  "sock_ops (session_socket (shut o1 s)) = sock_ops (session_socket s) @ (if closed_flag (session_socket s) then [] else [OpClose])"
  by (simp_all add: shut_def SetState_def socket_defs split: bool.splits)

lemma sess_ok_shut:
  assumes "sess_ok s" "OpAccept \<notin> set (sock_ops (session_socket s))"
  shows "sess_ok (shut o1 s)"
proof -
  have "op_ok (shut o1 s) op" if "op \<in> set (sock_ops (session_socket s))" for op
    using assms that by (cases op) (auto simp: sess_ok_def op_ok_def)
  with assms show ?thesis by (auto simp: sess_ok_def op_ok_def is_input_def)
qed

lemma Send_simps [simp]:
  "session_state (Send s) = session_state s" "session_reader (Send s) = session_reader s"
  "session_state (PushToSend b s) = session_state s"
  by (auto simp: PushToSend_def Send_def StartSending_def split: bool.splits option.splits prod.splits)

lemma Send_ops:
  "sock_ops (session_socket (Send s)) = sock_ops (session_socket s) \<or>
   IsConnected s \<and> (\<exists>b. sock_ops (session_socket (Send s)) = sock_ops (session_socket s) @ [OpWrite b])"
  by (auto simp: Send_def StartSending_def ws.write_ops IsConnected_def split: bool.splits option.splits prod.splits)

lemma sess_ok_Send: "sess_ok s \<Longrightarrow> session_state s \<noteq> Connecting \<Longrightarrow> sess_ok (Send s)"
proof -
  assume s: "sess_ok s" "session_state s \<noteq> Connecting"
  have "op_ok (Send s) = op_ok s" by (rule ext) (simp add: op_ok_def split: sock_op.split)
  with s Send_ops[of s] show ?thesis by (auto simp: sess_ok_def is_input_def) (auto simp: op_ok_def)
qed

lemma sess_ok_queue [simp]: "sess_ok (s\<lparr>out_queue := q\<rparr>) = sess_ok s" "sess_ok (s\<lparr>sending := f\<rparr>) = sess_ok s"
  by (auto simp: sess_ok_def op_ok_def split: sock_op.splits)

lemma sess_ok_PushToSend: "sess_ok s \<Longrightarrow> session_state s \<noteq> Connecting \<Longrightarrow> sess_ok (PushToSend b s)"
  by (simp add: PushToSend_def sess_ok_Send)

lemma sess_ok_OnWrite: "sess_ok s \<Longrightarrow> session_state s \<noteq> Connecting \<Longrightarrow> sess_ok (OnWrite s)"
  by (simp add: OnWrite_def StopSending_def Let_def sess_ok_Send)

lemma OnWrite_simps [simp]: "session_state (OnWrite s) = session_state s" "session_id (OnWrite s) = session_id s"
  by (simp_all add: OnWrite_def StopSending_def Let_def)

section \<open>The invariant of every run\<close>

text \<open>
  Session \<open>k\<close> is the \<open>k\<close>-th connection, it carries the id \<open>k\<close>, and the table holds exactly the
  connected sessions. Ids repeat after \<open>2 ^ 64\<close> connections.
\<close>

definition base_inv :: "System \<Rightarrow> bool" where
  "base_inv sys \<longleftrightarrow> new_session_id sys = of_nat (length (objects sys)) \<and>
     (\<forall>k < length (objects sys). session_id (obj sys k) = of_nat k \<and> sess_ok (obj sys k)) \<and>
     um_wf (sessions sys) \<and>
     (\<forall>i e. map_of (sessions sys) i = Some e \<longleftrightarrow>
        (\<exists>k < length (objects sys). i = of_nat k \<and> e = Some k \<and> session_state (obj sys k) = Connected))"

abbreviation few_sessions :: "System \<Rightarrow> bool" where
  "few_sessions sys \<equiv> length (objects sys) \<le> 2 ^ 64"

lemma of_nat_size_inj: "j < 2 ^ 64 \<Longrightarrow> k < 2 ^ 64 \<Longrightarrow> (of_nat j :: size_t) = of_nat k \<Longrightarrow> j = k"
proof -
  have u: "unat (of_nat n :: size_t) = n" if "n < 2 ^ 64" for n using that by (simp add: unat_of_nat)
  assume "j < 2 ^ 64" "k < 2 ^ 64" "(of_nat j :: size_t) = of_nat k"
  then show "j = k" by (metis u)
qed

lemma base_entry: "base_inv sys \<Longrightarrow> map_of (sessions sys) i = Some e \<longleftrightarrow>
    (\<exists>k < length (objects sys). i = of_nat k \<and> e = Some k \<and> session_state (obj sys k) = Connected)"
  by (simp add: base_inv_def)

lemma base_table: "base_inv sys \<Longrightarrow> table_ok sys"
  by (fastforce simp: base_inv_def table_ok_def)

lemma base_registered:
  assumes "base_inv sys" "few_sessions sys" "k < length (objects sys)"
  shows "map_of (sessions sys) (of_nat k) = (if session_state (obj sys k) = Connected then Some (Some k) else None)"
proof (cases "map_of (sessions sys) (of_nat k)")
  case None
  then show ?thesis using base_entry[OF assms(1), of "of_nat k" "Some k"] assms(3) by auto
next
  case (Some e)
  then obtain j where j: "j < length (objects sys)" "of_nat k = (of_nat j :: size_t)" "e = Some j" "session_state (obj sys j) = Connected"
    using assms(1) by (auto simp: base_inv_def)
  then have "k = j" using of_nat_size_inj[of k j] assms(2,3) by simp
  with Some j show ?thesis by simp
qed

text \<open>One session changes, and the table with it.\<close>

lemma base_inv_update:
  assumes inv: "base_inv sys" "few_sessions sys" "k < length (objects sys)"
    and new: "objects sys' = (objects sys)[k := s']" "new_session_id sys' = new_session_id sys"
    and s': "session_id s' = of_nat k" "sess_ok s'"
    and tab: "um_wf (sessions sys')"
      "map_of (sessions sys') = (map_of (sessions sys))(of_nat k := (if session_state s' = Connected then Some (Some k) else None))"
  shows "base_inv sys'"
proof -
  have "map_of (sessions sys') i = Some e \<longleftrightarrow>
     (\<exists>j < length (objects sys'). i = of_nat j \<and> e = Some j \<and> session_state (obj sys' j) = Connected)" (is "?l \<longleftrightarrow> ?r") for i e
  proof (cases "i = of_nat k")
    case True
    have "j = k" if "j < length (objects sys)" "(of_nat k :: size_t) = of_nat j" for j
      using of_nat_size_inj[of k j] that inv(2,3) by simp
    with True show ?thesis using inv(3) new(1) tab(2) by auto
  next
    case False
    then have "obj sys' j = obj sys j" if "i = of_nat j" for j using that new(1) by (cases "j = k") simp_all
    with False show ?thesis using base_entry[OF inv(1), of i e] new(1) tab(2) by auto
  qed
  moreover have "session_id (obj sys' j) = of_nat j \<and> sess_ok (obj sys' j)" if "j < length (objects sys')" for j
    using that inv(1,3) new(1) s' by (cases "j = k") (auto simp: base_inv_def)
  ultimately show ?thesis using new inv(1) tab(1) by (simp add: base_inv_def)
qed

text \<open>The same when the session keeps its state and the table is untouched.\<close>

lemma base_inv_same_state:
  assumes "base_inv sys" "few_sessions sys" "k < length (objects sys)"
    and "objects sys' = (objects sys)[k := s']" "new_session_id sys' = new_session_id sys" "sessions sys' = sessions sys"
    and "session_id s' = session_id (obj sys k)" "sess_ok s'" "session_state s' = session_state (obj sys k)"
  shows "base_inv sys'"
proof (rule base_inv_update[OF assms(1-5)])
  show "session_id s' = of_nat k" using assms(1,3,7) by (simp add: base_inv_def)
  show "um_wf (sessions sys')" using assms(1,6) by (simp add: base_inv_def)
  show "map_of (sessions sys') = (map_of (sessions sys))(of_nat k := (if session_state s' = Connected then Some (Some k) else None))"
    using base_registered[OF assms(1-3)] assms(6,9) by (simp add: fun_upd_idem)
qed (rule assms(8))

section \<open>What the handlers do to the system\<close>

definition sys_packet :: "Opcodes \<Rightarrow> size_t \<Rightarrow> ServerPacket" where
  "sys_packet c i = ServerPacket_new (NetPacket_of c) i Broadcast"

lemma CloseSession_effect:
  "objects (CloseSession i sys) = objects sys" "new_session_id (CloseSession i sys) = new_session_id sys"
  "map_of (sessions (CloseSession i sys)) = (map_of (sessions sys))(i := None)"
  "um_wf (sessions sys) \<Longrightarrow> um_wf (sessions (CloseSession i sys))"
  "qdata (net_in (CloseSession i sys)) = qdata (net_in sys) @ (if i \<in> dom (map_of (sessions sys)) then [sys_packet RemovePlayer i] else [])"
  "players (CloseSession i sys) = players sys" "game_subsystem (CloseSession i sys) = game_subsystem sys"
  "net_out (CloseSession i sys) = net_out sys"
  by (auto simp: CloseSession_def sys_packet_def delete_conv' um.invar_erase fun_upd_idem split: option.splits)

lemma AddSession_effect:
  "objects (AddSession k sys) = objects sys" "new_session_id (AddSession k sys) = new_session_id sys"
  "map_of (sessions (AddSession k sys)) = (map_of (sessions sys))(session_id (obj sys k) \<mapsto> Some k)"
  "um_wf (sessions sys) \<Longrightarrow> um_wf (sessions (AddSession k sys))"
  "qdata (net_in (AddSession k sys)) = qdata (net_in sys) @ [sys_packet CreatePlayer (session_id (obj sys k))]"
  "players (AddSession k sys) = players sys" "game_subsystem (AddSession k sys) = game_subsystem sys"
  "net_out (AddSession k sys) = net_out sys"
  by (simp_all add: AddSession_def Let_def sys_packet_def update_conv' um.invar_store)

lemma OnError_effect:
  assumes "k < length (objects sys)"
  defines "i \<equiv> session_id (obj sys k)"
  shows "objects (OnError o1 k sys) = (objects sys)[k := shut o1 (obj sys k)]"
    "new_session_id (OnError o1 k sys) = new_session_id sys"
    "map_of (sessions (OnError o1 k sys)) = (map_of (sessions sys))(i := None)"
    "um_wf (sessions sys) \<Longrightarrow> um_wf (sessions (OnError o1 k sys))"
    "qdata (net_in (OnError o1 k sys)) = qdata (net_in sys) @ (if i \<in> dom (map_of (sessions sys)) then [sys_packet RemovePlayer i] else [])"
    "players (OnError o1 k sys) = players sys" "game_subsystem (OnError o1 k sys) = game_subsystem sys"
    "net_out (OnError o1 k sys) = net_out sys"
  using assms by (simp_all add: OnError_def ProcessState_def SetState_def Let_def CloseSession_effect shut_def)

lemma OnAccept_error: "OnAccept o1 k True sys = OnError o1 k sys"
  by (simp add: OnAccept_def OnError_def)

lemma OnAccept_effect:
  fixes o1 :: bool
  assumes "k < length (objects sys)"
  defines "i \<equiv> session_id (obj sys k)" and "sys' \<equiv> OnAccept o1 k False sys"
  shows "objects sys' = (objects sys)[k := ReadPacketHead (SetState Connected (obj sys k))]"
    "new_session_id sys' = new_session_id sys" "map_of (sessions sys') = (map_of (sessions sys))(i \<mapsto> Some k)"
    "um_wf (sessions sys) \<Longrightarrow> um_wf (sessions sys')" "qdata (net_in sys') = qdata (net_in sys) @ [sys_packet CreatePlayer i]"
    "players sys' = players sys" "game_subsystem sys' = game_subsystem sys" "net_out sys' = net_out sys"
  using assms by (simp_all add: OnAccept_def ProcessState_def SetState_def AddSession_effect)

lemma OnReadData_effect:
  assumes "OnReadData k chunk sys = Inr (sys', po)" "k < length (objects sys)"
  obtains r where "OnRead (session_reader (obj sys k)) chunk = Inr (r, po)"
    "objects sys' = (objects sys)[k := next_read ((obj sys k)\<lparr>session_reader := r\<rparr>)]"
    "new_session_id sys' = new_session_id sys" "sessions sys' = sessions sys"
    "qdata (net_in sys') = qdata (net_in sys) @
       (case po of None \<Rightarrow> [] | Some p \<Rightarrow> [ServerPacket_new p (session_id (obj sys k)) Broadcast])"
    "players sys' = players sys" "game_subsystem sys' = game_subsystem sys" "net_out sys' = net_out sys"
proof -
  obtain r where r: "OnRead (session_reader (obj sys k)) chunk = Inr (r, po)"
    "sys' = on_session k next_read (case po of None \<Rightarrow> on_session k (\<lambda>s. s\<lparr>session_reader := r\<rparr>) sys
       | Some p \<Rightarrow> PushPacket (ServerPacket_new p (session_id (obj sys k)) Broadcast) (on_session k (\<lambda>s. s\<lparr>session_reader := r\<rparr>) sys))"
    using assms(1) by (auto simp: OnReadData_def Let_def split: prod.splits)
  show thesis using that[OF r(1)] r(2) assms(2) by (cases po) simp_all
qed

section \<open>The invariant is kept\<close>

lemma sess_ok_no_accept: "sess_ok s \<Longrightarrow> session_state s \<noteq> Connecting \<Longrightarrow> OpAccept \<notin> set (sock_ops (session_socket s))"
  by (auto simp: sess_ok_def op_ok_def)

lemma idle_no_accept: "idle s \<Longrightarrow> OpAccept \<notin> set (sock_ops (session_socket s))"
  using idle_ops by blast

lemma sess_ok_accept:
  assumes "idle s" "session_state s = Connecting"
  shows "sess_ok (ReadPacketHead (SetState Connected s))"
proof -
  have r: "session_reader s = reader_new" using assms by (simp add: idle_def sess_ok_def)
  then have "ReadPacketHead (SetState Connected s) = next_read (SetState Connected s)"
    by (intro ReadPacketHead_next) (simp add: SetState_def reader_new_def)
  moreover have "op_ok (next_read (SetState Connected s)) op" if "op \<in> set (sock_ops (session_socket s))" for op
    using idle_ops[OF assms(1) that] by (auto simp: op_ok_def next_read_eq SetState_def)
  ultimately show ?thesis using assms(1)
    by (auto simp: sess_ok_def idle_def next_read_eq SetState_def ws.read_ops is_input_def op_ok_def)
qed

lemma OnRead_reader_inv: "OnRead r chunk = Inr (r', po) \<Longrightarrow> reader_inv r \<Longrightarrow> length chunk \<le> unat (read_limit r) \<Longrightarrow> reader_inv r'"
  using reads_total[of r chunk] by auto

lemma ReadPacketHead_simps [simp]:
  "session_state (ReadPacketHead s) = session_state s" "session_id (ReadPacketHead s) = session_id s"
  "session_state (next_read s) = session_state s" "session_id (next_read s) = session_id s"
  by (simp_all add: ReadPacketHead_def next_read_eq)

lemma finish_objects: "objects (finish k op sys) = (objects sys)[k := finished op (obj sys k)]"
  and finish_frame [simp]: "sessions (finish k op sys) = sessions sys" "new_session_id (finish k op sys) = new_session_id sys"
    "net_subsystem (finish k op sys) = net_subsystem sys" "game_subsystem (finish k op sys) = game_subsystem sys"
    "players (finish k op sys) = players sys" "length (objects (finish k op sys)) = length (objects sys)"
  by (simp_all add: finish_def)

lemma base_inv_error:
  assumes "base_inv sys" "few_sessions sys" "k < length (objects sys)"
    and "OpAccept \<notin> set (sock_ops (session_socket (finished op (obj sys k))))"
  shows "base_inv (OnError o1 k (finish k op sys))"
proof (rule base_inv_update[OF assms(1-3)])
  have k: "k < length (objects (finish k op sys))" using assms(3) by simp
  note e = OnError_effect[OF k, of o1]
  have i: "session_id (obj sys k) = of_nat k" "sess_ok (obj sys k)" using assms(1,3) by (simp_all add: base_inv_def)
  show "objects (OnError o1 k (finish k op sys)) = (objects sys)[k := shut o1 (finished op (obj sys k))]"
    using e(1) assms(3) by (simp add: finish_objects)
  show "new_session_id (OnError o1 k (finish k op sys)) = new_session_id sys" using e(2) by simp
  show "session_id (shut o1 (finished op (obj sys k))) = of_nat k" using i by simp
  show "sess_ok (shut o1 (finished op (obj sys k)))" using sess_ok_shut[OF sess_ok_finished[OF i(2)] assms(4)] by simp
  show "um_wf (sessions (OnError o1 k (finish k op sys)))" using e(4) assms(1) by (simp add: base_inv_def)
  show "map_of (sessions (OnError o1 k (finish k op sys))) = (map_of (sessions sys))
     (of_nat k := (if session_state (shut o1 (finished op (obj sys k))) = Connected then Some (Some k) else None))"
    using e(3) assms(3) i by (simp add: finish_objects)
qed

lemma base_inv_accept:
  assumes "base_inv sys" "few_sessions sys" "k < length (objects sys)" "OpAccept \<in> set (ops_of sys k)"
  shows "base_inv (OnAccept o1 k ec (finish k OpAccept sys))"
proof -
  have i: "session_id (obj sys k) = of_nat k" "sess_ok (obj sys k)" using assms(1,3) by (simp_all add: base_inv_def)
  have idle: "idle (finished OpAccept (obj sys k))" using idle_finished[OF i(2) assms(4)] by (simp add: is_input_def)
  have st: "session_state (obj sys k) = Connecting" using i(2) assms(4) by (auto simp: sess_ok_def op_ok_def)
  show ?thesis
  proof (cases ec)
    case True
    then show ?thesis using base_inv_error[OF assms(1-3) idle_no_accept[OF idle]] by (simp add: OnAccept_error)
  next
    case False
    have k: "k < length (objects (finish k OpAccept sys))" using assms(3) by simp
    note e = OnAccept_effect[OF k, of o1]
    let ?s = "ReadPacketHead (SetState Connected (finished OpAccept (obj sys k)))"
    have c: "session_state ?s = Connected" "session_id ?s = of_nat k" using i by (simp_all add: SetState_def)
    show ?thesis
    proof (rule base_inv_update[OF assms(1-3)])
      show "objects (OnAccept o1 k ec (finish k OpAccept sys)) = (objects sys)[k := ?s]"
        using e(1) assms(3) False by (simp add: finish_objects)
      show "sess_ok ?s" using sess_ok_accept[OF idle] st by simp
    qed (use e c False assms(1,3) i in \<open>simp_all add: finish_objects base_inv_def\<close>)
  qed
qed

lemma base_inv_read:
  assumes "base_inv sys" "few_sessions sys" "k < length (objects sys)" "OpRead n \<in> set (ops_of sys k)" "length chunk \<le> unat n"
    and "OnReadData k chunk (finish k (OpRead n) sys) = Inr (sys', po)"
  shows "base_inv sys'"
proof -
  have k: "k < length (objects (finish k (OpRead n) sys))" using assms(3) by simp
  have i: "sess_ok (obj sys k)" using assms(1,3) by (simp add: base_inv_def)
  have idle: "idle (finished (OpRead n) (obj sys k))" using idle_finished[OF i assms(4)] by (simp add: is_input_def)
  have o1: "n = read_limit (session_reader (obj sys k))" "session_state (obj sys k) \<in> {Connected, Disconnected}"
    using i assms(4) by (auto simp: sess_ok_def op_ok_def)
  obtain r where r: "OnRead (session_reader (obj sys k)) chunk = Inr (r, po)"
    "objects sys' = (objects sys)[k := next_read ((finished (OpRead n) (obj sys k))\<lparr>session_reader := r\<rparr>)]"
    "new_session_id sys' = new_session_id sys" "sessions sys' = sessions sys"
    using OnReadData_effect[OF assms(6) k] assms(3) by (auto simp: finish_objects)
  have inv: "reader_inv r" using OnRead_reader_inv[OF r(1)] i o1 assms(5) by (simp add: sess_ok_def)
  show ?thesis
    by (rule base_inv_same_state[OF assms(1-3) r(2-4)]) (use sess_ok_next_read[OF idle _ inv] o1 in simp_all)
qed

text \<open>A completed sender round: it took the first packet and pushed its bytes to the sessions it targets.\<close>

lemma sent_delivers:
  assumes "table_ok sys" "Sender sys = Some (Inr sys')"
  obtains p ps where "qdata (net_out sys) = p # ps"
    "pushed_to (MakeBuffer (packet p)) {ptr. \<exists>i. map_of (sessions sys) i = Some (Some ptr) \<and> targeted p i} (popped_out ps sys) sys'"
proof -
  obtain p ps where p: "qdata (net_out sys) = p # ps" "route p (popped_out ps sys) = Inr sys'"
    using assms(2) by (cases "qdata (net_out sys)") (auto simp: Sender_def WaitAndPop_Cons, simp add: WaitAndPop_def)
  have "GetType p = Rpc \<Longrightarrow> GetID p \<in> dom (map_of (sessions (popped_out ps sys)))"
    using Sender_null[OF p(1)] assms(2) by fastforce
  with route_delivers[of "popped_out ps sys" p] assms(1) p(2)
  have "pushed_to (MakeBuffer (packet p)) {ptr. \<exists>i. map_of (sessions sys) i = Some (Some ptr) \<and> targeted p i} (popped_out ps sys) sys'"
    by auto
  with p(1) that show thesis by blast
qed

lemma base_inv_sent:
  assumes "base_inv sys" "Sender sys = Some (Inr sys')"
  shows "base_inv sys'"
proof -
  obtain p ps where d: "qdata (net_out sys) = p # ps"
    "pushed_to (MakeBuffer (packet p)) {ptr. \<exists>i. map_of (sessions sys) i = Some (Some ptr) \<and> targeted p i} (popped_out ps sys) sys'"
    by (rule sent_delivers[OF base_table[OF assms(1)] assms(2)])
  have k: "session_id (obj sys' k) = session_id (obj sys k) \<and> session_state (obj sys' k) = session_state (obj sys k) \<and> sess_ok (obj sys' k)"
    if "k < length (objects sys)" for k
    using d that assms(1) by (auto simp: pushed_to_def base_inv_def sess_ok_PushToSend)
  have "sessions sys' = sessions sys" "new_session_id sys' = new_session_id sys" "length (objects sys') = length (objects sys)"
    using d by (simp_all add: pushed_to_def same_world_def)
  then show ?thesis using assms(1) k by (simp add: base_inv_def) (metis (no_types, lifting))
qed

lemma Tick_system:
  assumes "Tick dt sys = Inr sys'"
  shows "sessions sys' = sessions sys" "objects sys' = objects sys" "new_session_id sys' = new_session_id sys"
  using Tick_more[OF assms] by (cases sys, cases sys', simp)+

lemma OnConnection_objects:
  "\<not> ec \<Longrightarrow> objects (OnConnection ec sys) = objects sys @ [Session_Run (Session_new (new_session_id sys))]"
  "ec \<Longrightarrow> OnConnection ec sys = sys"
  by (simp_all add: OnConnection_def)

lemma base_inv_connection:
  assumes "base_inv sys"
  shows "base_inv (OnConnection ec sys)"
proof (cases ec)
  case False
  let ?n = "length (objects sys)"
  have new: "session_state (Session_Run (Session_new i)) = Connecting" "session_id (Session_Run (Session_new i)) = i" for i
    by (simp_all add: Session_Run_def Session_new_def)
  have "(\<exists>k < Suc ?n. i = of_nat k \<and> e = Some k \<and> session_state ((objects sys @ [Session_Run (Session_new (new_session_id sys))]) ! k) = Connected) \<longleftrightarrow>
      (\<exists>k < ?n. i = of_nat k \<and> e = Some k \<and> session_state (obj sys k) = Connected)" for i :: size_t and e
    using new by (auto simp: less_Suc_eq nth_append)
  with assms False new show ?thesis
    by (simp add: base_inv_def OnConnection_def less_Suc_eq nth_append sess_ok_new)
qed (simp add: OnConnection_objects assms)

lemma old_objects: "sys_step sys e sys' \<Longrightarrow> (\<And>ec. e \<noteq> Connection ec) \<Longrightarrow> length (objects sys') = length (objects sys)"
proof (induction rule: sys_step.induct)
  case (connection sys ec)
  then show ?case by blast
next
  case (accepted ptr sys ec is_open)
  then show ?case
    using OnError_effect(1)[of ptr "finish ptr OpAccept sys"] OnAccept_effect(1)[of ptr "finish ptr OpAccept sys"]
    by (cases ec) (simp_all add: OnAccept_error)
next
  case (read_failed ptr sys n is_open)
  then show ?case using OnError_effect(1)[of ptr "finish ptr (OpRead n) sys"] by simp
next
  case (read_done ptr sys n chunk sys' po)
  then show ?case using OnReadData_effect[OF read_done(4)] by (metis finish_frame(6) length_list_update)
next
  case (write_finished ptr sys b ec is_open)
  then show ?case using OnError_effect(1)[of ptr "finish ptr (OpWrite b) sys"] by (cases ec) (simp_all add: OnWriteDone_def)
next
  case (sent sys sys')
  then show ?case by (auto simp: Sender_def WaitAndPop_def same_world_def split: list.splits dest!: route_world)
next
  case (ticked dt sys sys')
  then show ?case by (simp add: Tick_system)
qed simp_all

lemma step_grows: "sys_step sys e sys' \<Longrightarrow> length (objects sys) \<le> length (objects sys')"
  using old_objects[of sys e sys'] by (cases e) (auto elim: sys_step.cases simp: OnConnection_def)

lemma base_inv_step:
  assumes "sys_step sys e sys'" "base_inv sys" "few_sessions sys'"
  shows "base_inv sys'"
proof -
  have few: "few_sessions sys" using step_grows[OF assms(1)] assms(3) by simp
  have ok: "sess_ok (obj sys k)" if "k < length (objects sys)" for k using assms(2) that by (simp add: base_inv_def)
  from assms(1) show ?thesis
  proof cases
    case (read_failed ptr n o1)
    have "idle (finished (OpRead n) (obj sys ptr))" using idle_finished[OF ok] read_failed by (simp add: is_input_def)
    from base_inv_error[OF assms(2) few read_failed(3) idle_no_accept[OF this]] show ?thesis by (simp add: read_failed(2))
  next
    case (write_finished ptr b ec o1)
    have st: "session_state (obj sys ptr) \<noteq> Connecting" using ok[OF write_finished(3)] write_finished(4) by (auto simp: sess_ok_def op_ok_def)
    then have "OpAccept \<notin> set (sock_ops (session_socket (finished (OpWrite b) (obj sys ptr))))"
      using sess_ok_no_accept[OF sess_ok_finished[OF ok[OF write_finished(3)]], of "OpWrite b"] by simp
    then have "base_inv (OnError o1 ptr (finish ptr (OpWrite b) sys))" using base_inv_error[OF assms(2) few] write_finished by simp
    moreover have "base_inv (on_session ptr OnWrite (finish ptr (OpWrite b) sys))"
      by (rule base_inv_same_state[OF assms(2) few, of ptr _ "OnWrite (finished (OpWrite b) (obj sys ptr))"])
        (use write_finished st ok in \<open>simp_all add: finish_objects sess_ok_OnWrite sess_ok_finished\<close>)
    ultimately show ?thesis using write_finished by (simp add: OnWriteDone_def)
  next
    case (close_finished ptr)
    then show ?thesis using base_inv_same_state[OF assms(2) few, of ptr sys' "finished OpClose (obj sys ptr)"] ok
      by (simp add: finish_objects sess_ok_finished)
  next
    case (ticked dt)
    then show ?thesis using assms(2) Tick_system[OF ticked(2)] by (simp add: base_inv_def)
  qed (use assms(2) few base_inv_connection base_inv_accept base_inv_read base_inv_sent in blast)+
qed

lemma base_inv_start: "system_start cfg = Inr sys \<Longrightarrow> base_inv sys"
  by (auto simp: system_start_def World_new_def Server_new_def World.defs base_inv_def um_wf_def)

lemma run_grows: "sys_run sys0 evs sys \<Longrightarrow> length (objects sys0) \<le> length (objects sys)"
  by (induction rule: sys_run.induct) (auto dest: step_grows)

lemma base_inv_run: "sys_run sys0 evs sys \<Longrightarrow> base_inv sys0 \<Longrightarrow> few_sessions sys \<Longrightarrow> base_inv sys"
proof (induction rule: sys_run.induct)
  case (run_snoc sys evs sys' e sys'')
  with step_grows[OF run_snoc(2)] base_inv_step[OF run_snoc(2)] show ?case by simp
qed

lemma read_returns:
  assumes "base_inv sys" "ptr < length (objects sys)" "OpRead n \<in> set (ops_of sys ptr)" "length chunk \<le> unat n"
  shows "\<exists>sys' po. OnReadData ptr chunk (finish ptr (OpRead n) sys) = Inr (sys', po)"
proof -
  have "sess_ok (obj sys ptr)" using assms(1,2) by (simp add: base_inv_def)
  then have "reader_inv (session_reader (obj sys ptr))" "n = read_limit (session_reader (obj sys ptr))"
    using assms(3) by (auto simp: sess_ok_def op_ok_def)
  with reads_total[of "session_reader (obj sys ptr)" chunk] assms(4) obtain r po where
    "OnRead (session_reader (obj sys ptr)) chunk = Inr (r, po)" by auto
  then show ?thesis using assms(2) by (simp add: OnReadData_def finish_objects Let_def)
qed

text \<open>
  C12. In every state that any sequence of connections, completions, sender rounds and ticks can
  lead to, before ids repeat: the session table holds exactly the connected sessions, each under
  its own id and none null; a session has at most one accept or read outstanding; and a read
  that is outstanding completes without a fault for every chunk within the size asked for.
\<close>

theorem sessions_consistent:
  assumes "system_start cfg = Inr sys0" "sys_run sys0 evs sys" "few_sessions sys"
  shows "(\<forall>i e. map_of (sessions sys) i = Some e \<longleftrightarrow>
      (\<exists>k < length (objects sys). i = of_nat k \<and> e = Some k \<and> session_state (obj sys k) = Connected)) \<and>
    (\<forall>k < length (objects sys). session_id (obj sys k) = of_nat k \<and> length (filter is_input (ops_of sys k)) \<le> 1 \<and>
      (\<forall>n chunk. OpRead n \<in> set (ops_of sys k) \<longrightarrow> length chunk \<le> unat n \<longrightarrow>
        (\<exists>sys' po. OnReadData k chunk (finish k (OpRead n) sys) = Inr (sys', po))))"
proof -
  have inv: "base_inv sys" by (rule base_inv_run[OF assms(2) base_inv_start[OF assms(1)] assms(3)])
  have "length (filter is_input (ops_of sys k)) \<le> 1" if "k < length (objects sys)" for k
    using inv that by (simp add: base_inv_def sess_ok_def)
  with inv read_returns[OF inv] show ?thesis by (auto simp: base_inv_def)
qed

section \<open>Orderly runs\<close>

text \<open>The queued inputs turn the live players into the players of the connected sessions.\<close>

definition play_inv :: "System \<Rightarrow> bool" where
  "play_inv sys \<longleftrightarrow> world_ok sys \<and> qdata (game_in sys) = [] \<and>
     lives (live sys) (qdata (net_in sys)) = Some (dom (map_of (sessions sys)))"

lemma lives_append: "lives L (xs @ ys) = (case lives L xs of None \<Rightarrow> None | Some M \<Rightarrow> lives M ys)"
  by (induction xs arbitrary: L) (auto split: option.splits)

lemma play_inv_frame:
  assumes "play_inv sys" "players sys' = players sys" "game_subsystem sys' = game_subsystem sys"
    and "qdata (net_in sys') = qdata (net_in sys) @ ps"
    and "lives (dom (map_of (sessions sys))) ps = Some (dom (map_of (sessions sys')))"
  shows "play_inv sys'"
  using assms by (simp add: play_inv_def world_ok_def live_def lives_append)

lemma live_after_sys [simp]:
  "live_after L (sys_packet CreatePlayer i) = Some (insert i L)" "live_after L (sys_packet RemovePlayer i) = Some (L - {i})"
  by (simp_all add: live_after_def sys_packet_def wit_opcode to_opcode_def)

lemma live_after_client:
  "GetHeadOpcode p \<noteq> to_uint16 RemovePlayer \<Longrightarrow> i \<in> L \<Longrightarrow> live_after L (ServerPacket_new p i t) = Some L"
proof -
  assume p: "GetHeadOpcode p \<noteq> to_uint16 RemovePlayer" and i: "i \<in> L"
  then have "to_opcode (GetHeadOpcode p) \<noteq> RemovePlayer" by (metis to_uint16_to_opcode)
  with i show ?thesis by (auto simp: live_after_def insert_absorb split: Opcodes.split)
qed

lemma play_inv_error:
  assumes "play_inv sys" "k < length (objects sys)"
  shows "play_inv (OnError o1 k (finish k op sys))"
proof -
  have k: "k < length (objects (finish k op sys))" using assms(2) by simp
  note e = OnError_effect[OF k, of o1]
  show ?thesis by (rule play_inv_frame[OF assms(1)]) (use e in \<open>auto simp: dom_def\<close>)
qed

lemma play_inv_accept:
  assumes "play_inv sys" "k < length (objects sys)"
  shows "play_inv (OnAccept o1 k ec (finish k OpAccept sys))"
proof (cases ec)
  case True
  then show ?thesis using play_inv_error[OF assms] by (simp add: OnAccept_error)
next
  case False
  have k: "k < length (objects (finish k OpAccept sys))" using assms(2) by simp
  note e = OnAccept_effect[OF k, of o1]
  show ?thesis using False by (intro play_inv_frame[OF assms(1)]) (use e in \<open>auto simp: dom_def\<close>)
qed

lemma play_inv_read:
  assumes "play_inv sys" "base_inv sys" "few_sessions sys" "k < length (objects sys)" "OpRead n \<in> set (ops_of sys k)"
    and "OnReadData k chunk (finish k (OpRead n) sys) = Inr (sys', po)"
    and "session_state (obj sys k) \<noteq> Disconnected" "\<And>p. po = Some p \<Longrightarrow> GetHeadOpcode p \<noteq> to_uint16 RemovePlayer"
  shows "play_inv sys'"
proof -
  have k: "k < length (objects (finish k (OpRead n) sys))" using assms(4) by simp
  have s: "sess_ok (obj sys k)" "session_id (obj sys k) = of_nat k" using assms(2,4) by (simp_all add: base_inv_def)
  have "op_ok (obj sys k) (OpRead n)" using s(1) assms(5) by (simp add: sess_ok_def)
  with assms(7) have "session_state (obj sys k) = Connected" by (simp add: op_ok_def)
  with base_registered[OF assms(2-4)] have i: "session_id (obj sys k) \<in> dom (map_of (sessions sys))"
    by (simp only: s(2) domIff if_True simp_thms option.distinct)
  have same_id: "session_id (obj (finish k (OpRead n) sys) k) = session_id (obj sys k)" using assms(4) by (simp add: finish_objects)
  have f: "sessions sys' = sessions sys \<and> players sys' = players sys \<and>
    game_subsystem sys' = game_subsystem sys \<and> qdata (net_in sys') = qdata (net_in sys) @
      (case po of None \<Rightarrow> [] | Some p \<Rightarrow> [ServerPacket_new p (session_id (obj sys k)) Broadcast])"
    by (rule OnReadData_effect[OF assms(6) k]) (simp add: same_id split: option.split)
  note fr = play_inv_frame[OF assms(1) f[THEN conjunct2, THEN conjunct1] f[THEN conjunct2, THEN conjunct2, THEN conjunct1]
    f[THEN conjunct2, THEN conjunct2, THEN conjunct2]]
  show ?thesis
  proof (cases po)
    case None
    with f show ?thesis by (intro fr) simp
  next
    case (Some p)
    with f live_after_client[OF assms(8)[OF Some] i] show ?thesis by (intro fr) simp
  qed
qed

lemma play_inv_step:
  assumes "sys_step sys e sys'" "orderly e" "base_inv sys" "few_sessions sys" "play_inv sys"
  shows "play_inv sys'"
  using assms(1)
proof cases
  case (connection ec)
  then show ?thesis using assms(5) by (simp add: OnConnection_def play_inv_def world_ok_def live_def)
next
  case (accepted ptr ec o1)
  then show ?thesis using play_inv_accept[OF assms(5)] by simp
next
  case (read_failed ptr n o1)
  then show ?thesis using play_inv_error[OF assms(5)] by simp
next
  case (read_done ptr n chunk po)
  have "session_state (obj sys ptr) \<noteq> Disconnected" "\<And>p. po = Some p \<Longrightarrow> GetHeadOpcode p \<noteq> to_uint16 RemovePlayer"
    using assms(2) read_done(1) by (simp_all add: orderly_def)
  from play_inv_read[OF assms(5,3,4) read_done(2,3,5) this] show ?thesis .
next
  case (write_finished ptr b ec o1)
  have "play_inv (on_session ptr OnWrite (finish ptr (OpWrite b) sys))"
    by (rule play_inv_frame[OF assms(5), where ps = "[]"]) simp_all
  then show ?thesis using play_inv_error[OF assms(5)] write_finished by (simp add: OnWriteDone_def)
next
  case (close_finished ptr)
  then show ?thesis using play_inv_frame[OF assms(5), of sys' "[]"] by simp
next
  case sent
  then obtain p ps where p: "route p (popped_out ps sys) = Inr sys'" "qdata (net_out sys) = p # ps"
    by (cases "qdata (net_out sys)") (auto simp: Sender_def WaitAndPop_Cons, simp add: WaitAndPop_def)
  have "GetType p = Rpc \<Longrightarrow> GetID p \<in> dom (map_of (sessions sys))" using Sender_null[OF p(2)] sent by fastforce
  then have "sessions sys' = sessions sys" using round_delivers[OF base_table[OF assms(3)], of p ps] p(1) by auto
  with route_world[OF p(1)] show ?thesis by (intro play_inv_frame[OF assms(5), where ps = "[]"]) (simp_all add: same_world_def)
next
  case (ticked dt)
  have "Empty (game_in sys)" "world_ok sys" using assms(5) by (simp_all add: play_inv_def Empty_def)
  with tick_result[of sys _ dt sys'] assms(5) ticked Tick_system[OF ticked(2)] show ?thesis by (auto simp: play_inv_def Empty_def)
qed

lemma play_inv_start: "system_start cfg = Inr sys \<Longrightarrow> play_inv sys"
  by (auto simp: system_start_def World_new_def Server_new_def World.defs play_inv_def world_ok_def live_def um_wf_def TSQueue_new_def)

lemma play_inv_run:
  "sys_run sys0 evs sys \<Longrightarrow> base_inv sys0 \<Longrightarrow> play_inv sys0 \<Longrightarrow> list_all orderly evs \<Longrightarrow> few_sessions sys \<Longrightarrow> play_inv sys"
proof (induction rule: sys_run.induct)
  case (run_snoc sys evs sys' e sys'')
  have few: "few_sessions sys'" using step_grows[OF run_snoc(2)] run_snoc.prems(4) by simp
  have "base_inv sys'" by (rule base_inv_run[OF run_snoc(1) run_snoc.prems(1) few])
  with play_inv_step[OF run_snoc(2) _ _ few] run_snoc.IH run_snoc.prems few show ?case by simp
qed

text \<open>
  C5. Server and world agree in every orderly run. Whatever the interleaving, no player entry is
  null, each carries its own id, and the inputs that are queued turn the players of the world
  into exactly the players of the connected sessions. So the next tick leaves exactly those
  players; it cannot fail on an input, only in the collision test of a player.
\<close>

theorem players_follow_sessions:
  assumes "system_start cfg = Inr sys0" "sys_run sys0 evs sys" "list_all orderly evs" "few_sessions sys"
  shows "world_ok sys \<and> lives (live sys) (qdata (net_in sys)) = Some (dom (map_of (sessions sys))) \<and>
    ((\<exists>sys'. Tick dt sys = Inr sys' \<and> live sys' = dom (map_of (sessions sys))) \<or>
     (\<exists>f p. Tick dt sys = Inl f \<and> World_MovePlayer sys p = Inl f))"
proof -
  have inv: "play_inv sys"
    by (rule play_inv_run[OF assms(2) base_inv_start[OF assms(1)] play_inv_start[OF assms(1)] assms(3,4)])
  then have w: "world_ok sys" "lives (live sys) (qdata (net_in sys)) = Some (dom (map_of (sessions sys)))" "Empty (game_in sys)"
    by (simp_all add: play_inv_def Empty_def)
  then show ?thesis using tick_fault_source[OF w(1,2), of dt] tick_result[OF w] by blast
qed

lemma wit_start: "\<exists>sys0. system_start wit_cfg = Inr sys0"
  using build_map_eq[of wit_cfg 4] by (simp add: system_start_def World_new_def wit_cfg_def cell_count_def)

lemma wit_connection:
  assumes "system_start cfg = Inr sys0"
  shows "sys_run sys0 [Connection False] (OnConnection False sys0)"
    "few_sessions (OnConnection False sys0)" "list_all orderly [Connection False]"
    "ops_of (OnConnection False sys0) 0 = [OpAccept]" "length (objects (OnConnection False sys0)) = 1"
    "sessions (OnConnection False sys0) = []"
proof -
  show "sys_run sys0 [Connection False] (OnConnection False sys0)"
    using run_snoc[OF run_nil connection, of sys0 False] by simp
qed (use assms in \<open>auto simp: system_start_def World_new_def Server_new_def World.defs OnConnection_def orderly_def
    Session_Run_def Session_new_def socket_defs\<close>)

theorem sessions_consistent_witness:
  "\<exists>sys0 sys. system_start wit_cfg = Inr sys0 \<and> sys_run sys0 [Connection False] sys \<and>
     session_id (obj sys 0) = 0 \<and> ops_of sys 0 = [OpAccept]"
proof -
  obtain sys0 where s: "system_start wit_cfg = Inr sys0" using wit_start by blast
  note c = wit_connection[OF s]
  from sessions_consistent[OF s c(1,2)] c(5) have "session_id (obj (OnConnection False sys0) 0) = 0"
    by (elim conjE allE[of _ 0]) simp
  with s c(1,4) show ?thesis by blast
qed

theorem players_follow_sessions_witness:
  "\<exists>sys0 sys. system_start wit_cfg = Inr sys0 \<and> sys_run sys0 [Connection False] sys \<and> world_ok sys \<and>
     lives (live sys) (qdata (net_in sys)) = Some {}"
proof -
  obtain sys0 where s: "system_start wit_cfg = Inr sys0" using wit_start by blast
  note c = wit_connection[OF s]
  from players_follow_sessions[OF s c(1,3,2), of f64_zero] c(6) have "world_ok (OnConnection False sys0)"
    "lives (live (OnConnection False sys0)) (qdata (net_in (OnConnection False sys0))) = Some {}" by simp_all
  with s c(1) show ?thesis by blast
qed

end
