(* ===== verification/Failures.thy ===== *)
theory Failures
  imports SystemRuns
begin

text \<open>
  Two ways in which clients that only connect, move and lose their connection stop the server:
  a session that ends before the packets addressed to it are sent, and a read that delivers a
  packet after a failed write has closed the session.
\<close>

section \<open>Inputs for a player that is gone\<close>

abbreviation moves :: "Opcodes set" where
  "moves \<equiv> {MoveLeft, MoveRight, Jump}"

lemma inputs_dead:
  assumes "world_ok w" "qdata (game_in w) = xs @ sp # rest" "lives (live w) xs = Some M"
    and "sp_id sp \<notin> M" "to_opcode (GetHeadOpcode (packet sp)) \<in> moves"
  shows "process_inputs dt w = Inl NullDeref"
  using assms(1-3)
proof (induction xs arbitrary: w)
  case Nil
  then show ?case
    using process_inputs_Cons[of w sp rest dt] ProcessInput_dead[of sp "set_game_in \<lparr>qdata = rest\<rparr> w" dt] assms(4,5) by simp
next
  case (Cons x xs)
  let ?v = "set_game_in \<lparr>qdata = xs @ sp # rest\<rparr> w"
  obtain L where L: "live_after (live ?v) x = Some L" "lives L xs = Some M" using Cons.prems(3) by (auto split: option.splits)
  obtain v where v: "ProcessInput x dt ?v = Inr v" "world_ok v" "live v = L" "same_frame ?v v"
    using ProcessInput_refines[OF _ L(1), of dt] Cons.prems(1) by auto
  then have "qdata (game_in v) = xs @ sp # rest" by (simp add: same_frame_def)
  with Cons.IH[OF v(2)] v(3) L(2) have "process_inputs dt v = Inl NullDeref" by simp
  with process_inputs_Cons[of w x "xs @ sp # rest" dt] Cons.prems(2) v(1) show ?case by simp
qed

lemma tick_dead:
  assumes "world_ok w" "qdata (net_in w) = xs @ sp # rest" "lives (live w) xs = Some M"
    and "sp_id sp \<notin> M" "to_opcode (GetHeadOpcode (packet sp)) \<in> moves"
  shows "Tick dt w = Inl NullDeref"
proof -
  have "world_ok (swap_in_queues w)" "live (swap_in_queues w) = live w" using assms(1) by (simp_all add: world_ok_def live_def)
  with stop_players_ok[of "swap_in_queues w"] obtain w1 where w1: "stop_players (swap_in_queues w) = Inr w1"
    "world_ok w1" "live w1 = live w" "same_frame (swap_in_queues w) w1" by auto
  have "process_inputs dt w1 = Inl NullDeref"
    by (rule inputs_dead[OF w1(2) _ _ assms(4,5)]) (use w1 assms(2,3) in \<open>simp_all add: same_frame_def\<close>)
  with w1(1) show ?thesis by (simp add: Tick_def)
qed

text \<open>
  C20. A packet that arrives after its session was closed stops the server. In any state of an
  orderly run, let a session be closed while its read is still outstanding (a failed write has
  closed it). When that read then completes a \<open>MoveLeft\<close>, \<open>MoveRight\<close> or \<open>Jump\<close> packet, it is
  queued behind the removal of the player, and the next tick dereferences a null pointer.
\<close>

theorem late_read_crashes:
  assumes "system_start cfg = Inr sys0" "sys_run sys0 evs sys" "list_all orderly evs" "few_sessions sys"
    and "k < length (objects sys)" "session_state (obj sys k) = Disconnected"
    and "OnReadData k chunk (finish k (OpRead n) sys) = Inr (sys', Some p)" "to_opcode (GetHeadOpcode p) \<in> moves"
  shows "Tick dt sys' = Inl NullDeref"
proof -
  have b: "base_inv sys" by (rule base_inv_run[OF assms(2) base_inv_start[OF assms(1)] assms(4)])
  have pl: "play_inv sys"
    by (rule play_inv_run[OF assms(2) base_inv_start[OF assms(1)] play_inv_start[OF assms(1)] assms(3,4)])
  have k: "k < length (objects (finish k (OpRead n) sys))" using assms(5) by simp
  have id: "session_id (obj sys k) = of_nat k" using b assms(5) by (simp add: base_inv_def)
  then have id': "session_id (obj (finish k (OpRead n) sys) k) = of_nat k" using assms(5) by (simp add: finish_objects)
  have out: "of_nat k \<notin> dom (map_of (sessions sys))"
    using base_registered[OF b assms(4,5)] assms(6) by (simp add: domIff)
  have e: "qdata (net_in sys') = qdata (net_in sys) @ [ServerPacket_new p (of_nat k) Broadcast] \<and> players sys' = players sys"
    by (rule OnReadData_effect[OF assms(7) k]) (simp add: id')
  have w: "world_ok sys'" "live sys' = live sys" using pl e by (simp_all add: play_inv_def world_ok_def live_def)
  show ?thesis
  proof (rule tick_dead[OF w(1)])
    show "qdata (net_in sys') = qdata (net_in sys) @ [ServerPacket_new p (of_nat k) Broadcast]" using e by blast
    show "lives (live sys') (qdata (net_in sys)) = Some (dom (map_of (sessions sys)))" using pl w(2) unfolding play_inv_def by metis
  qed (use out assms(8) in simp_all)
qed

section \<open>Packets for a session that is gone\<close>

text \<open>The first packet that a tick queues for a player that joined in it.\<close>

lemma ProcessInput_create:
  assumes "players w = []"
  shows "\<exists>w' ps p. ProcessInput (sys_packet CreatePlayer i) dt w = Inr w' \<and> p = new_player (world_config w) i \<and>
    players w' = [(i, Some p)] \<and> player_id p = i \<and> same_frame w w' \<and> (\<forall>q \<in> set ps. GetID q = i) \<and>
    qdata (game_out w') = qdata (game_out w) @
      ServerPacket_new (CreatePlayerPacket i (GetX p) (GetY p) (GetWidth p) (GetHeight p)) i Rpc # ps"
proof -
  let ?p = "new_player (world_config w) i"
  have id: "player_id ?p = i" by (simp add: new_player_def Player_new_def)
  obtain np where np: "spawn_packet i [(i, Some ?p)] = Inr np" using spawn_packet_total[of "[(i, Some ?p)]" i] by auto
  have "to_opcode (GetHeadOpcode (fst (GetNetPacket (sys_packet CreatePlayer i)))) = CreatePlayer" "GetID (sys_packet CreatePlayer i) = i"
    by (simp_all add: sys_packet_def GetNetPacket_def NetPacket_move_def GetHeadOpcode_def GetID_def NetPacket_of_def to_opcode_def)
  then have P: "ProcessInput (sys_packet CreatePlayer i) dt w = World_AddPlayer ?p (w\<lparr>players := [(i, None)]\<rparr>)"
    using assms by (simp add: ProcessInput_def um_touch_def)
  from np id show ?thesis unfolding P by (auto simp: World_AddPlayer_def Let_def same_frame_def GetID_def)
qed

lemma tick_join:
  assumes "players w = []" "qdata (net_in w) = sys_packet CreatePlayer i # rest" "qdata (game_out w) = []" "qdata (net_out w) = []"
    and "Tick dt w = Inr w'"
  shows "\<exists>p ps. qdata (net_out w') = p # ps \<and> GetType p = Rpc \<and> GetID p = i"
proof -
  let ?v = "swap_in_queues w"
  have "stop_players ?v = Inr ?v" using assms(1) by (simp add: stop_players_def)
  with assms(5) obtain w2 w3 where w2: "process_inputs dt ?v = Inr w2" "update_players dt w2 = Inr w3" "flush_out w3 = Inr w'"
    by (auto simp: Tick_def)
  have q: "qdata (game_in ?v) = sys_packet CreatePlayer i # rest" using assms(2) by simp
  have "players (set_game_in \<lparr>qdata = rest\<rparr> ?v) = []" using assms(1) by simp
  from ProcessInput_create[OF this, of i dt] obtain w1 ps and p :: Player where
    w1: "ProcessInput (sys_packet CreatePlayer i) dt (set_game_in \<lparr>qdata = rest\<rparr> ?v) = Inr w1"
    "same_frame (set_game_in \<lparr>qdata = rest\<rparr> ?v) w1"
    "qdata (game_out w1) = qdata (game_out (set_game_in \<lparr>qdata = rest\<rparr> ?v)) @
       ServerPacket_new (CreatePlayerPacket i (GetX p) (GetY p) (GetWidth p) (GetHeight p)) i Rpc # ps"
    by metis
  have w12: "process_inputs dt w1 = Inr w2" using w2(1) process_inputs_Cons[OF q, of dt] w1(1) by simp
  obtain ev where "qdata (game_out w2) = qdata (game_out w1) @ ev" using process_inputs_appends[OF w12] by blast
  moreover obtain ev' where "qdata (game_out w3) = qdata (game_out w2) @ ev'" using update_players_more[OF w2(2)] by blast
  moreover have "net_subsystem w3 = net_subsystem ?v"
    using update_players_more[OF w2(2)] process_inputs_more[OF w12] w1(2) by (simp add: same_frame_def)
  ultimately show ?thesis using w2(3) w1(3) assms(3,4)
    by (auto simp: flush_out_eq set_out_queues_def GetType_def GetID_def)
qed

text \<open>The system after one client has connected.\<close>

definition first_session :: Session where
  "first_session = ReadPacketHead (SetState Connected (finished OpAccept (Session_Run (Session_new 0))))"

lemma first_session_facts:
  "session_state first_session = Connected" "session_id first_session = 0" "\<not> sending first_session"
  "qdata (out_queue first_session) = []" "session_reader first_session = reader_new"
  "sock_ops (session_socket first_session) = [OpRead 6]"
  by code_simp+

lemma first_client:
  assumes "system_start cfg = Inr sys0"
  obtains sys where "sys_run sys0 [Connection False, Accepted 0 False] sys" "objects sys = [first_session]"
    "map_of (sessions sys) = [0 \<mapsto> Some 0]" "um_wf (sessions sys)" "qdata (net_in sys) = [sys_packet CreatePlayer 0]" "players sys = []"
    "qdata (game_in sys) = []" "qdata (game_out sys) = []" "qdata (net_out sys) = []"
proof -
  let ?c = "OnConnection False sys0"
  note c = wit_connection[OF assms]
  have o1: "objects ?c = [Session_Run (Session_new 0)]" and w: "players ?c = []" "qdata (net_in ?c) = []" "um_wf (sessions ?c)"
    "qdata (game_in ?c) = []" "qdata (game_out ?c) = []" "qdata (net_out ?c) = []"
    using assms by (auto simp: system_start_def World_new_def Server_new_def World.defs OnConnection_def TSQueue_new_def um_wf_def)
  have k: "0 < length (objects (finish 0 OpAccept ?c))" by (simp add: o1)
  note e = OnAccept_effect[OF k, of True]
  have "session_id (obj (finish 0 OpAccept ?c) 0) = 0" by (simp add: finish_objects o1 Session_Run_def Session_new_def)
  then have m: "map_of (sessions (OnAccept True 0 False (finish 0 OpAccept ?c))) = [0 \<mapsto> Some 0]"
    "qdata (net_in (OnAccept True 0 False (finish 0 OpAccept ?c))) = [sys_packet CreatePlayer 0]"
    using e(3,5) c(6) w by simp_all
  have "sys_step ?c (Accepted 0 False) (OnAccept True 0 False (finish 0 OpAccept ?c))"
    by (rule accepted) (simp_all add: c)
  from run_snoc[OF c(1) this] show thesis
    by (intro that[of "OnAccept True 0 False (finish 0 OpAccept ?c)"]) (use e m w o1 in \<open>simp_all add: finish_objects first_session_def\<close>)
qed

lemma tick_leave:
  assumes "players w = []" "qdata (net_in w) = [sys_packet CreatePlayer i, sys_packet RemovePlayer i]"
  shows "\<exists>w'. Tick dt w = Inr w'"
proof -
  have "world_ok w" "live w = {}" using assms(1) by (simp_all add: world_ok_def live_def um_wf_def)
  moreover from this have "lives (live w) (qdata (net_in w)) = Some {}" using assms(2) by simp
  ultimately obtain w2 where w2: "Tick dt w = rbind (update_players dt w2) flush_out" "live w2 = {}"
    by (metis tick_inputs)
  then have "players w2 = []" by (simp add: live_def dom_map_of_conv_image_fst)
  with w2(1) show ?thesis by (simp add: update_players_def flush_out_eq)
qed

text \<open>
  C19. A client that connects and leaves between two ticks stops the server. From every initial
  state there is an orderly run (one client connects, its read fails, a tick passes) after which
  the sender dereferences a null pointer: the tick has queued packets addressed to a session
  that is no longer in the table, and \<open>sessions_[id]\<close> inserts a null entry.
\<close>

theorem sender_can_crash:
  assumes "system_start cfg = Inr sys0"
  shows "\<exists>sys. sys_run sys0 [Connection False, Accepted 0 False, ReadFailed 0, Ticked f64_zero] sys \<and>
    list_all orderly [Connection False, Accepted 0 False, ReadFailed 0, Ticked f64_zero] \<and> Sender sys = Some (Inl NullDeref)"
proof -
  from first_client[OF assms] obtain sys where s: "sys_run sys0 [Connection False, Accepted 0 False] sys" "objects sys = [first_session]"
    "map_of (sessions sys) = [0 \<mapsto> Some 0]" "qdata (net_in sys) = [sys_packet CreatePlayer 0]" "players sys = []"
    "qdata (game_in sys) = []" "qdata (game_out sys) = []" "qdata (net_out sys) = []" by metis
  let ?f = "finish 0 (OpRead 6) sys"
  let ?e = "OnError True 0 ?f"
  have st1: "sys_step sys (ReadFailed 0) ?e" by (rule read_failed) (simp_all add: s first_session_facts)
  have k: "0 < length (objects ?f)" by (simp add: s)
  have id: "session_id (obj ?f 0) = 0" by (simp add: finish_objects s first_session_facts)
  note e = OnError_effect[OF k, of True, unfolded id]
  have q: "players ?e = []" "qdata (net_in ?e) = [sys_packet CreatePlayer 0, sys_packet RemovePlayer 0]"
    "qdata (game_out ?e) = []" "qdata (net_out ?e) = []" "dom (map_of (sessions ?e)) = {}"
    using e s by simp_all
  obtain t where t: "Tick f64_zero ?e = Inr t" using tick_leave[OF q(1,2)] by blast
  obtain p ps where p: "qdata (net_out t) = p # ps" "GetType p = Rpc" "GetID p = 0" using tick_join[OF q(1,2,3,4) t] by blast
  have "Sender t = Some (Inl NullDeref)" using Sender_null[OF p(1,2)] p(3) q(5) Tick_system(1)[OF t] by simp
  moreover have "sys_run sys0 [Connection False, Accepted 0 False, ReadFailed 0, Ticked f64_zero] t"
    using run_snoc[OF run_snoc[OF s(1) st1] ticked[OF t]] by simp
  ultimately show ?thesis by (auto simp: orderly_def)
qed

theorem sender_can_crash_witness:
  "\<exists>sys0 sys. system_start wit_cfg = Inr sys0 \<and> sys_run sys0 [Connection False, Accepted 0 False, ReadFailed 0, Ticked f64_zero] sys \<and>
     Sender sys = Some (Inl NullDeref)"
  using wit_start sender_can_crash by blast

section \<open>A run with a late read\<close>

lemma tick_stay:
  assumes "players w = []" "qdata (net_in w) = [sys_packet CreatePlayer i]" "qdata (game_out w) = []" "qdata (net_out w) = []"
  shows "\<exists>w'. Tick f64_zero w = Inr w' \<and> (\<forall>q \<in> set (qdata (net_out w')). GetID q = i)"
proof -
  let ?v = "swap_in_queues w"
  have "players (set_game_in \<lparr>qdata = []\<rparr> ?v) = []" using assms(1) by simp
  from ProcessInput_create[OF this, of i f64_zero] obtain w1 ps and p :: Player where
    w1: "ProcessInput (sys_packet CreatePlayer i) f64_zero (set_game_in \<lparr>qdata = []\<rparr> ?v) = Inr w1"
    "same_frame (set_game_in \<lparr>qdata = []\<rparr> ?v) w1" "players w1 = [(i, Some p)]"
    "p = new_player (world_config (set_game_in \<lparr>qdata = []\<rparr> ?v)) i" "player_id p = i" "\<forall>q \<in> set ps. GetID q = i"
    "qdata (game_out w1) = qdata (game_out (set_game_in \<lparr>qdata = []\<rparr> ?v)) @
       ServerPacket_new (CreatePlayerPacket i (GetX p) (GetY p) (GetWidth p) (GetHeight p)) i Rpc # ps" by (elim exE conjE)
  have "GetVelX p = f64_zero" "GetVelY p = f64_zero" using w1(4) by (simp_all add: new_player_def Player_new_def)
  note rest = rest_move[OF this]
  have id: "GetID (move_packet (fallen f64_zero p)) = i" using w1(5) by (simp add: move_packet_def GetID_def fallen_def)
  have "stop_players ?v = Inr ?v" using assms(1) by (simp add: stop_players_def)
  moreover have "process_inputs f64_zero ?v = Inr w1"
    using process_inputs_Cons[of ?v "sys_packet CreatePlayer i" "[]" f64_zero] process_inputs_Nil[of w1] assms(2) w1(1,2)
    by (simp add: same_frame_def)
  moreover have "net_out w1 = net_out w" using w1(2) by (simp add: same_frame_def)
  ultimately show ?thesis using w1(6,7) id assms(3,4)
    by (simp add: Tick_def update_players_steps w1(3) update_step_def rest flush_out_eq set_out_queues_def)
      (auto simp: GetID_def)
qed

lemma push_idle:
  assumes "session_state s = Connected" "\<not> sending s" "qdata (out_queue s) = []"
  shows "sock_ops (session_socket (PushToSend b s)) = sock_ops (session_socket s) @ [OpWrite b]"
    "session_state (PushToSend b s) = Connected" "session_reader (PushToSend b s) = session_reader s"
  using assms by (simp_all add: PushToSend_def Send_def IsConnected_def Empty_def Push_def StartSending_def TryPop_def ws.write_ops)

definition sent_events :: "sys_event list" where
  "sent_events = [Connection False, Accepted 0 False, Ticked f64_zero, Sent]"

lemma sent_run:
  assumes "system_start cfg = Inr sys0"
  obtains u b where "sys_run sys0 sent_events u" "objects u = [PushToSend b first_session]"
proof -
  from first_client[OF assms] obtain s2 where s: "sys_run sys0 [Connection False, Accepted 0 False] s2" "objects s2 = [first_session]"
    "map_of (sessions s2) = [0 \<mapsto> Some 0]" "um_wf (sessions s2)" "qdata (net_in s2) = [sys_packet CreatePlayer 0]" "players s2 = []"
    "qdata (game_out s2) = []" "qdata (net_out s2) = []" by metis
  obtain t where t: "Tick f64_zero s2 = Inr t" using tick_stay[OF s(6,5,7,8)] by blast
  obtain p ps where p: "qdata (net_out t) = p # ps" "GetType p = Rpc" "GetID p = 0" using tick_join[OF s(6,5,7,8) t] by blast
  note f = Tick_system[OF t]
  let ?b = "MakeBuffer (packet p)"
  have pk: "fst (GetNetPacket p) = packet p" by (simp add: GetNetPacket_def NetPacket_move_def Let_def)
  let ?u = "on_session 0 (PushToSend ?b) (popped_out ps t)"
  have snd: "Sender t = Some (Inr ?u)"
    using p f(1) s(3) by (simp add: Sender_def WaitAndPop_Cons route_def pk um_touch_def push_to_def)
  have "sys_run sys0 sent_events ?u"
    using run_snoc[OF run_snoc[OF s(1) ticked[OF t]] sent[OF snd]] by (simp add: sent_events_def)
  moreover have "objects ?u = [PushToSend ?b first_session]" using f(2) s(2) by simp
  ultimately show thesis by (rule that)
qed

definition late_events :: "sys_event list" where
  "late_events = sent_events @ [WriteFinished 0 True]"

lemma late_run:
  assumes "system_start cfg = Inr sys0"
  shows "\<exists>sys. sys_run sys0 late_events sys \<and> length (objects sys) = 1 \<and> session_state (obj sys 0) = Disconnected \<and>
    session_reader (obj sys 0) = reader_new \<and> OpRead 6 \<in> set (ops_of sys 0)"
proof -
  obtain u b where u: "sys_run sys0 sent_events u" "objects u = [PushToSend b first_session]" by (rule sent_run[OF assms])
  note pi = push_idle[OF first_session_facts(1,3,4), of b]
  have ops: "ops_of u 0 = [OpRead 6, OpWrite b]" using u pi(1) by (simp add: first_session_facts)
  let ?e = "OnWriteDone True 0 True (finish 0 (OpWrite b) u)"
  have st: "sys_step u (WriteFinished 0 True) ?e" by (rule write_finished) (use ops u in simp_all)
  have k: "0 < length (objects (finish 0 (OpWrite b) u))" using u by simp
  have o1: "objects ?e = [shut True (finished (OpWrite b) (PushToSend b first_session))]"
    using OnError_effect(1)[OF k, of True] u(2) by (simp add: OnWriteDone_def finish_objects)
  have "sys_run sys0 late_events ?e" using run_snoc[OF u(1) st] by (simp add: late_events_def)
  then show ?thesis using o1 pi by (intro exI[of _ ?e]) (simp add: first_session_facts)
qed

lemma late_packet:
  "\<exists>r p. OnRead reader_new [0, 0x12, 0, 0, 0, 0] = Inr (r, Some p) \<and> to_opcode (GetHeadOpcode p) = MoveLeft"
proof -
  have "(case OnRead reader_new [0, 0x12, 0, 0, 0, 0] of
      Inr (_, Some p) \<Rightarrow> to_opcode (GetHeadOpcode p) = MoveLeft | _ \<Rightarrow> False)" by code_simp
  then show ?thesis by (auto split: sum.splits option.splits prod.splits)
qed

theorem late_read_crashes_witness:
  "\<exists>sys0 sys sys' po. system_start wit_cfg = Inr sys0 \<and> sys_run sys0 late_events sys \<and>
     OnReadData 0 [0, 0x12, 0, 0, 0, 0] (finish 0 (OpRead 6) sys) = Inr (sys', po) \<and> Tick f64_zero sys' = Inl NullDeref"
proof -
  obtain sys0 where s: "system_start wit_cfg = Inr sys0" using wit_start by blast
  from late_run[OF s] obtain sys where r: "sys_run sys0 late_events sys" "length (objects sys) = 1"
    "session_state (obj sys 0) = Disconnected" "session_reader (obj sys 0) = reader_new" by blast
  obtain q p where q: "OnRead reader_new [0, 0x12, 0, 0, 0, 0] = Inr (q, Some p)" "to_opcode (GetHeadOpcode p) = MoveLeft"
    using late_packet by blast
  have "\<exists>sys'. OnReadData 0 [0, 0x12, 0, 0, 0, 0] (finish 0 (OpRead 6) sys) = Inr (sys', Some p)"
    using r(2,4) q(1) by (simp add: OnReadData_def finish_objects Let_def)
  then obtain sys' where d: "OnReadData 0 [0, 0x12, 0, 0, 0, 0] (finish 0 (OpRead 6) sys) = Inr (sys', Some p)" by blast
  have "list_all orderly late_events" "few_sessions sys" using r(2) by (simp_all add: late_events_def sent_events_def orderly_def)
  from late_read_crashes[OF s r(1) this _ r(3) d, of f64_zero] r(2) q(2) d s r(1) show ?thesis by auto
qed

end
