(* ===== verification/Players.thy ===== *)
theory Players
  imports Failures
begin

text \<open>
  The world seen from one player: what a tick does to a player depends on that player, on the
  player's own inputs and on the map, not on the other players or on their inputs.
\<close>

section \<open>One player\<close>

definition player_of :: "'a World_scheme \<Rightarrow> size_t \<Rightarrow> Player option" where
  "player_of w i = (case map_of (players w) i of Some e \<Rightarrow> e | None \<Rightarrow> None)"

text \<open>The effect of an input on the player it belongs to; \<open>None\<close>: there is no such player.\<close>

definition own_input :: "GameConfig \<Rightarrow> f64 \<Rightarrow> size_t \<Rightarrow> ServerPacket \<Rightarrow> Player option \<Rightarrow> Player option" where
  "own_input cfg dt i sp e = (case to_opcode (GetHeadOpcode (packet sp)) of
       CreatePlayer \<Rightarrow> Some (new_player cfg i)
     | RemovePlayer \<Rightarrow> None
     | MoveLeft \<Rightarrow> map_option (\<lambda>p. SetVel (f64_minus (f64_mul (f64_lit 100) dt)) (GetVelY p) p) e
     | MoveRight \<Rightarrow> map_option (\<lambda>p. SetVel (f64_mul (f64_lit 100) dt) (GetVelY p) p) e
     | Jump \<Rightarrow> map_option (\<lambda>p. if OnGround p
          then SetOnGround False (SetVel (GetVelX p) (f64_minus (f64_mul (f64_lit 400) dt)) p) else p) e
     | _ \<Rightarrow> e)"

definition halted :: "Player \<Rightarrow> Player" where
  "halted p = SetVel f64_zero (GetVelY p) p"

lemma player_of_simps [simp]:
  "player_of (push_out q w) = player_of w" "player_of (set_game_in q2 w) = player_of w"
  "player_of (swap_in_queues w) = player_of w"
  by (simp_all add: player_of_def fun_eq_iff)

lemma player_of_update:
  "player_of (w\<lparr>players := AList.update i e ps\<rparr>) j = (if j = i then e else player_of (w\<lparr>players := ps\<rparr>) j)"
  "player_of (w\<lparr>players := AList.delete i ps\<rparr>) j = (if j = i then None else player_of (w\<lparr>players := ps\<rparr>) j)"
  "player_of (w\<lparr>players := um_touch None i ps\<rparr>) j = player_of (w\<lparr>players := ps\<rparr>) j"
  by (simp_all add: player_of_def update_conv' delete_conv' map_of_um_touch)

lemma with_player_player:
  "with_player i f w = Inr w' \<Longrightarrow> player_of w' j = (if j = i then map_option f (player_of w j) else player_of w j)"
  by (auto simp: with_player_def player_of_def update_conv' split: option.splits)

lemma AddPlayer_player: "World_AddPlayer p w = Inr w' \<Longrightarrow> player_of w' j = (if j = player_id p then Some p else player_of w j)"
  by (auto simp: World_AddPlayer_def Let_def player_of_update)

lemma ProcessInput_player:
  assumes "ProcessInput sp dt w = Inr w'"
  shows "player_of w' j = (if j = sp_id sp then own_input (world_config w) dt j sp (player_of w j) else player_of w j)"
proof -
  have op: "GetHeadOpcode (fst (GetNetPacket sp)) = GetHeadOpcode (packet sp)" "GetID sp = sp_id sp"
    by (simp_all add: GetNetPacket_def NetPacket_move_def GetHeadOpcode_def GetID_def)
  let ?w = "w\<lparr>players := um_touch None (sp_id sp) (players w)\<rparr>"
  have t: "player_of ?w k = player_of w k" for k by (simp add: player_of_update)
  note P = assms[unfolded ProcessInput_def op Let_def]
  show ?thesis
  proof (cases "to_opcode (GetHeadOpcode (packet sp))")
    case CreatePlayer
    with P AddPlayer_player[of "new_player (world_config w) (sp_id sp)" ?w w' j] t[of j] show ?thesis by (simp add: own_input_def)
  next
    case RemovePlayer
    with P t[of j] show ?thesis by (auto simp: own_input_def World_RemovePlayer_def player_of_update)
  next
    case MoveLeft
    with P show ?thesis by (auto simp: own_input_def t dest!: with_player_player[where j = j])
  next
    case MoveRight
    with P show ?thesis by (auto simp: own_input_def t dest!: with_player_player[where j = j])
  next
    case Jump
    with P show ?thesis by (auto simp: own_input_def t dest!: with_player_player[where j = j])
  qed (use P t[of j] in \<open>auto simp: own_input_def\<close>)
qed

lemma ProcessInput_config: "ProcessInput sp dt w = Inr w' \<Longrightarrow> world_config w' = world_config w \<and> tile_map w' = tile_map w"
  by (auto simp: ProcessInput_def World_AddPlayer_def World_RemovePlayer_def with_player_def Let_def
      split: Opcodes.splits option.splits)

lemma process_inputs_player:
  "process_inputs dt w = Inr w' \<Longrightarrow>
   player_of w' j = fold (own_input (world_config w) dt j) (filter (\<lambda>sp. sp_id sp = j) (qdata (game_in w))) (player_of w j) \<and>
   world_config w' = world_config w \<and> tile_map w' = tile_map w"
proof (induction "qdata (game_in w)" arbitrary: w)
  case Nil
  then show ?case by (simp add: process_inputs_Nil)
next
  case (Cons sp sps)
  note q = Cons.hyps(2)[symmetric]
  from Cons.prems process_inputs_Cons[OF q, of dt] obtain w1 where
    w1: "ProcessInput sp dt (set_game_in \<lparr>qdata = sps\<rparr> w) = Inr w1" "process_inputs dt w1 = Inr w'" by auto
  then have g: "sps = qdata (game_in w1)" using ProcessInput_game_in[OF w1(1)] by simp
  from Cons.hyps(1)[OF g w1(2)] ProcessInput_player[OF w1(1), of j] ProcessInput_config[OF w1(1)] q g
  show ?case by (cases "sp_id sp = j") simp_all
qed

lemma halt_fold:
  "rfold (\<lambda>(i, e). with_player i halted) xs w = Inr w' \<Longrightarrow> distinct (map fst xs) \<Longrightarrow>
   player_of w' j = (if j \<in> fst ` set xs then map_option halted (player_of w j) else player_of w j)"
proof (induction xs arbitrary: w)
  case (Cons x xs)
  obtain i e where x: "x = (i, e)" by force
  from Cons.prems(1) obtain w1 where "with_player i halted w = Inr w1" "rfold (\<lambda>(i, e). with_player i halted) xs w1 = Inr w'"
    by (auto simp: x)
  with Cons.IH[of w1] Cons.prems(2) with_player_player[of i halted w w1 j] show ?case by (auto simp: x)
qed simp

lemma stop_players_player:
  assumes "stop_players w = Inr w'" "um_wf (players w)"
  shows "player_of w' j = map_option halted (player_of w j)"
proof -
  have "halted = (\<lambda>p. SetVel f64_zero (GetVelY p) p)" by (simp add: halted_def fun_eq_iff)
  then have "rfold (\<lambda>(i, e). with_player i halted) (players w) w = Inr w'" using assms(1) by (simp add: stop_players_def)
  from halt_fold[OF this] assms(2) have
    "player_of w' j = (if j \<in> fst ` set (players w) then map_option halted (player_of w j) else player_of w j)"
    by (simp add: um_wf_def)
  moreover have "j \<notin> fst ` set (players w) \<Longrightarrow> player_of w j = None" by (simp add: player_of_def map_of_eq_None_iff[THEN iffD2])
  ultimately show ?thesis by auto
qed


section \<open>A tick\<close>

lemma moved_player:
  assumes "list_all2 (moved_to w dt) xs ys"
  shows "case map_of xs i of None \<Rightarrow> map_of ys i = None
    | Some e \<Rightarrow> \<exists>p p'. e = Some p \<and> World_MovePlayer w (fallen dt p) = Inr p' \<and> map_of ys i = Some (Some p')"
  using assms
proof (induction rule: list_all2_induct)
  case (Cons x xs y ys)
  then show ?case by (cases x; cases y) (auto simp: moved_to_def split: option.splits)
qed simp

text \<open>
  C14. The whole effect of a tick on one player. When a tick of a consistent world completes, player
  \<open>i\<close> is what its own inputs, applied in order to its halted former state, make of it (created,
  removed, turned or made to jump), then pulled down by gravity and moved by the collision
  test on the map. Neither the other players nor their inputs, nor the order in which inputs of
  different players are interleaved, make a difference.
\<close>

theorem player_after_tick:
  assumes "world_ok w" "lives (live w) (qdata (net_in w)) = Some L" "Tick dt w = Inr w'"
  shows "case fold (own_input (world_config w) dt i) (filter (\<lambda>sp. sp_id sp = i) (qdata (net_in w)))
      (map_option halted (player_of w i)) of
      None \<Rightarrow> map_of (players w') i = None
    | Some p \<Rightarrow> \<exists>p'. World_MovePlayer w (fallen dt p) = Inr p' \<and> map_of (players w') i = Some (Some p')"
proof -
  from assms(3) obtain w1 w2 w3 where t: "stop_players (swap_in_queues w) = Inr w1" "process_inputs dt w1 = Inr w2"
    "update_players dt w2 = Inr w3" "flush_out w3 = Inr w'" by (auto simp: Tick_def)
  have ok: "world_ok (swap_in_queues w)" "live (swap_in_queues w) = live w" using assms(1) by (simp_all add: world_ok_def live_def)
  from stop_players_ok[OF ok(1)] t(1) ok(2) have w1: "world_ok w1" "live w1 = live w" "same_frame (swap_in_queues w) w1" by auto
  have q: "game_in w1 = \<lparr>qdata = qdata (net_in w)\<rparr>" "world_config w1 = world_config w" "tile_map w1 = tile_map w"
    using w1(3) by (simp_all add: same_frame_def)
  have "world_ok w2" using process_inputs_refines[OF w1(1), of L dt] w1(2) q(1) assms(2) t(2) by auto
  note m = tick_physics(3)[OF t(3) this]
  have "um_wf (players (swap_in_queues w))" "um_wf (players w2)"
    using ok(1) \<open>world_ok w2\<close> by (simp_all add: world_ok_def)
  note p = moved_player[OF m, of i] process_inputs_player[OF t(2), of i] stop_players_player[OF t(1) this(1), of i]
  have "World_MovePlayer w2 = World_MovePlayer w" by (rule MovePlayer_frame) (use p(2) q in simp_all)
  moreover have "players w' = players w3" using t(4) by (auto simp: flush_out_eq set_out_queues_def)
  moreover have "map_of (players w2) i = Some e \<Longrightarrow> e \<noteq> None" for e
    using \<open>world_ok w2\<close> by (auto simp: world_ok_iff)
  ultimately show ?thesis
    using p q \<open>um_wf (players w2)\<close> by (auto simp: player_of_def um_wf_def split: option.splits)
qed

text \<open>An empty world that player 7 joins.\<close>

definition wit_join :: World where
  "wit_join = wit_world [sys_packet CreatePlayer 7] []"

theorem player_after_tick_witness:
  "\<exists>w' p'. Tick f64_zero wit_join = Inr w' \<and>
     World_MovePlayer wit_join (fallen f64_zero (new_player wit_cfg 7)) = Inr p' \<and> map_of (players w') 7 = Some (Some p')"
proof -
  have j: "players wit_join = []" "qdata (net_in wit_join) = [sys_packet CreatePlayer 7]" "qdata (game_out wit_join) = []"
    "qdata (net_out wit_join) = []" "world_config wit_join = wit_cfg"
    by (simp_all add: wit_join_def wit_world_def TSQueue_new_def)
  have ok: "world_ok wit_join" "live wit_join = {}" by (simp_all add: wit_join_def wit_ok)
  have "lives (live wit_join) (qdata (net_in wit_join)) = Some {7}" by (simp add: ok j)
  moreover obtain w' where w': "Tick f64_zero wit_join = Inr w'" using tick_stay[OF j(1-4)] by blast
  ultimately have "case fold (own_input wit_cfg f64_zero 7) (filter (\<lambda>sp. sp_id sp = 7) [sys_packet CreatePlayer 7])
      (map_option halted (player_of wit_join 7)) of
      None \<Rightarrow> map_of (players w') 7 = None
    | Some p \<Rightarrow> \<exists>p'. World_MovePlayer wit_join (fallen f64_zero p) = Inr p' \<and> map_of (players w') 7 = Some (Some p')"
    using player_after_tick[OF ok(1), of "{7}" f64_zero w' 7] j by simp
  moreover have "fold (own_input wit_cfg f64_zero 7) (filter (\<lambda>sp. sp_id sp = 7) [sys_packet CreatePlayer 7]) e = Some (new_player wit_cfg 7)" for e
    by (simp add: own_input_def sys_packet_def wit_opcode to_opcode_def)
  ultimately show ?thesis using w' by auto
qed

section \<open>The whole tick\<close>

text \<open>The player table after an input, and the packets the input makes the world announce.\<close>

definition table_after :: "GameConfig \<Rightarrow> f64 \<Rightarrow> (size_t, Player option) umap \<Rightarrow> ServerPacket \<Rightarrow> (size_t, Player option) umap" where
  "table_after cfg dt ps sp =
     (let i = sp_id sp in
      case own_input cfg dt i sp (case map_of ps i of Some e \<Rightarrow> e | None \<Rightarrow> None) of
        None \<Rightarrow> AList.delete i ps
      | Some p \<Rightarrow> AList.update i (Some p) ps)"

definition spawn_record :: "size_t \<Rightarrow> (size_t, Player option) umap \<Rightarrow> NetPacket" where
  "spawn_record i ps = fold put_player (others i ps)
     (put (of_nat (length ps) - 1 :: size_t) (SetHeadOpcode NetPacket_default (to_uint16 SpawnPlayers)))"

definition announced :: "GameConfig \<Rightarrow> (size_t, Player option) umap \<Rightarrow> ServerPacket \<Rightarrow> ServerPacket list" where
  "announced cfg ps sp =
     (let i = sp_id sp; p = new_player cfg i in
      case to_opcode (GetHeadOpcode (packet sp)) of
        CreatePlayer \<Rightarrow>
          [ServerPacket_new (CreatePlayerPacket i (GetX p) (GetY p) (GetWidth p) (GetHeight p)) i Rpc,
           ServerPacket_new (spawn_record i (AList.update i (Some p) ps)) i Rpc,
           ServerPacket_new (AddPlayerPacket i (GetX p) (GetY p) (GetWidth p) (GetHeight p)) i RpcOthers]
      | RemovePlayer \<Rightarrow> [ServerPacket_new (RemovePlayerPacket i) i Broadcast]
      | _ \<Rightarrow> [])"

fun announcements :: "GameConfig \<Rightarrow> f64 \<Rightarrow> (size_t, Player option) umap \<Rightarrow> ServerPacket list \<Rightarrow> ServerPacket list" where
  "announcements cfg dt ps [] = []"
| "announcements cfg dt ps (sp # sps) = announced cfg ps sp @ announcements cfg dt (table_after cfg dt ps sp) sps"

lemma spawn_packet_record: "spawn_packet i ps = Inr np \<Longrightarrow> np = spawn_record i ps"
proof -
  have "rfold (\<lambda>(k, e) np. if k \<noteq> i then (case e of None \<Rightarrow> Inl NullDeref | Some p \<Rightarrow> Inr (put_player p np)) else Inr np) xs np0 = Inr np \<Longrightarrow>
      np = fold put_player (others i xs) np0" for xs np0
    by (induction xs arbitrary: np0) (auto simp: others_def split: option.splits if_splits)
  then show "spawn_packet i ps = Inr np \<Longrightarrow> np = spawn_record i ps" by (simp add: spawn_packet_def spawn_record_def)
qed

lemma update_touch: "AList.update i e (um_touch None i ps) = AList.update i e ps" "AList.delete i (um_touch None i ps) = AList.delete i ps"
proof -
  have "AList.update i e (AList.update i x ps) = AList.update i e ps" "AList.delete i (AList.update i x ps) = AList.delete i ps" for x
    by (induction ps) (auto simp: AList.delete_eq)
  then show "AList.update i e (um_touch None i ps) = AList.update i e ps" "AList.delete i (um_touch None i ps) = AList.delete i ps"
    by (simp_all add: um_touch_def split: option.split)
qed

text \<open>One input to a player that is live, or that it creates or removes.\<close>

lemma ProcessInput_table:
  assumes "world_ok w" "live_after (live w) sp = Some L" "ProcessInput sp dt w = Inr w'"
  shows "players w' = table_after (world_config w) dt (players w) sp \<and>
    qdata (game_out w') = qdata (game_out w) @ announced (world_config w) (players w) sp"
proof -
  let ?i = "sp_id sp"
  let ?w = "w\<lparr>players := um_touch None ?i (players w)\<rparr>"
  have op: "GetHeadOpcode (fst (GetNetPacket sp)) = GetHeadOpcode (packet sp)" "GetID sp = ?i"
    by (simp_all add: GetNetPacket_def NetPacket_move_def GetHeadOpcode_def GetID_def)
  note P = assms(3)[unfolded ProcessInput_def op Let_def]
  consider (create) "to_opcode (GetHeadOpcode (packet sp)) = CreatePlayer"
    | (remove) "to_opcode (GetHeadOpcode (packet sp)) = RemovePlayer"
    | (other) "?i \<in> live w" "to_opcode (GetHeadOpcode (packet sp)) \<notin> {CreatePlayer, RemovePlayer}"
    using assms(2) by (auto simp: live_after_def split: Opcodes.splits if_splits)
  then show ?thesis
  proof cases
    case create
    then have "World_AddPlayer (new_player (world_config w) ?i) ?w = Inr w'" using P by simp
    then obtain np where "spawn_packet ?i (AList.update ?i (Some (new_player (world_config w) ?i)) (players w)) = Inr np"
      "players w' = AList.update ?i (Some (new_player (world_config w) ?i)) (players w)"
      "qdata (game_out w') = qdata (game_out w) @
        (let p = new_player (world_config w) ?i in
         [ServerPacket_new (CreatePlayerPacket ?i (GetX p) (GetY p) (GetWidth p) (GetHeight p)) ?i Rpc, ServerPacket_new np ?i Rpc,
          ServerPacket_new (AddPlayerPacket ?i (GetX p) (GetY p) (GetWidth p) (GetHeight p)) ?i RpcOthers])"
      by (auto simp: World_AddPlayer_def Let_def update_touch)
    with create spawn_packet_record show ?thesis
      by (auto simp: table_after_def announced_def own_input_def Let_def)
  next
    case remove
    then have "w' = World_RemovePlayer ?i ?w" using P by simp
    with remove show ?thesis by (simp add: World_RemovePlayer_def table_after_def announced_def own_input_def Let_def update_touch)
  next
    case other
    then obtain p where p: "map_of (players w) ?i = Some (Some p)" using assms(1) by (auto simp: world_ok_iff live_def)
    have t: "?w = w" using other(1) by (rule touch_live)
    show ?thesis
      using other(2) P p by (cases "to_opcode (GetHeadOpcode (packet sp))")
        (auto simp: t with_player_def table_after_def announced_def own_input_def Let_def update_triv)
  qed
qed

lemma process_inputs_table:
  "process_inputs dt w = Inr w' \<Longrightarrow> world_ok w \<Longrightarrow> lives (live w) (qdata (game_in w)) = Some L \<Longrightarrow>
   players w' = foldl (table_after (world_config w) dt) (players w) (qdata (game_in w)) \<and>
   qdata (game_out w') = qdata (game_out w) @ announcements (world_config w) dt (players w) (qdata (game_in w))"
proof (induction "qdata (game_in w)" arbitrary: w)
  case Nil
  then show ?case by (simp add: process_inputs_Nil)
next
  case (Cons sp sps)
  let ?v = "set_game_in \<lparr>qdata = sps\<rparr> w"
  note q = Cons.hyps(2)[symmetric]
  from Cons.prems(1) process_inputs_Cons[OF q, of dt] obtain w1 where
    w1: "ProcessInput sp dt ?v = Inr w1" "process_inputs dt w1 = Inr w'" by auto
  from Cons.prems(3) q obtain L1 where L1: "live_after (live ?v) sp = Some L1" "lives L1 sps = Some L"
    by (auto split: option.splits)
  have ok: "world_ok ?v" using Cons.prems(2) by simp
  from ProcessInput_refines[OF ok L1(1), of dt] w1(1) have r: "world_ok w1" "live w1 = L1" "same_frame ?v w1" by auto
  then have g: "qdata (game_in w1) = sps" "world_config w1 = world_config w" by (simp_all add: same_frame_def)
  from Cons.hyps(1)[OF g(1)[symmetric] w1(2) r(1)] L1(2) r(2) g ProcessInput_table[OF ok L1(1) w1(1)] q
  show ?case by simp
qed

text \<open>Halting all players keeps the order of the table.\<close>

lemma halt_table:
  "rfold (\<lambda>(i, e). with_player i halted) ys w = Inr w' \<Longrightarrow> players w = xs @ ys \<Longrightarrow> um_wf (players w) \<Longrightarrow>
   players w' = xs @ map (apsnd (map_option halted)) ys \<and> game_out w' = game_out w"
proof (induction ys arbitrary: w xs)
  case (Cons y ys)
  obtain i e where y: "y = (i, e)" by force
  have wf: "i \<notin> fst ` set xs" "map_of (players w) i = Some e" using Cons.prems(2,3) by (auto simp: um_wf_def y map_add_def map_of_eq_None_iff[THEN iffD2])
  from Cons.prems(1) y wf(2) obtain p where p: "e = Some p"
    "rfold (\<lambda>(i, e). with_player i halted) ys (w\<lparr>players := AList.update i (Some (halted p)) (players w)\<rparr>) = Inr w'"
    by (auto simp: with_player_def[of i halted w] split: option.splits)
  have "players (w\<lparr>players := AList.update i (Some (halted p)) (players w)\<rparr>) = (xs @ [(i, Some (halted p))]) @ ys"
    using Cons.prems(2) wf(1) by (simp add: y p(1) update_in_place)
  from Cons.IH[OF p(2) this] Cons.prems(3) show ?case by (simp add: y p(1) um.invar_store)
qed simp

text \<open>
  C25. What a tick does, in full, when its packets address live players and it completes. The
  inputs are consumed and both game queues are empty. The players are those the inputs, applied
  in order to the halted players, leave in the table, each pulled down and moved by the
  collision test, in the same order. The network receives, behind what was already queued,
  first the announcements of the inputs in their order (for a player that is created its record
  to it, the records of all others to it and its record to all others; for one that is removed
  its id to all; nothing else), then one position packet for every player with the position it
  has after the tick.
\<close>

theorem Tick_output:
  assumes "world_ok w" "lives (live w) (qdata (net_in w)) = Some L" "Empty (game_in w)" "Tick dt w = Inr w'"
  defines "start \<equiv> map (apsnd (map_option halted)) (players w)"
  shows "world_ok w' \<and> live w' = L \<and> Empty (net_in w') \<and> Empty (game_in w') \<and> Empty (game_out w') \<and>
    list_all2 (moved_to w dt) (foldl (table_after (world_config w) dt) start (qdata (net_in w))) (players w') \<and>
    qdata (net_out w') = qdata (net_out w) @ qdata (game_out w) @ announcements (world_config w) dt start (qdata (net_in w)) @
       map (\<lambda>z. move_packet (the (snd z))) (players w')"
proof -
  from assms(4) obtain w1 w2 w3 where t: "stop_players (swap_in_queues w) = Inr w1" "process_inputs dt w1 = Inr w2"
    "update_players dt w2 = Inr w3" "flush_out w3 = Inr w'" by (auto simp: Tick_def)
  have ok: "world_ok (swap_in_queues w)" "live (swap_in_queues w) = live w" using assms(1) by (simp_all add: world_ok_def live_def)
  from stop_players_ok[OF ok(1)] t(1) ok(2) have w1: "world_ok w1" "live w1 = live w" "same_frame (swap_in_queues w) w1"
    "game_out w1 = game_out w" by auto
  have q: "qdata (game_in w1) = qdata (net_in w)" "world_config w1 = world_config w" "tile_map w1 = tile_map w"
    "net_subsystem w1 = net_subsystem (swap_in_queues w)" using w1(3) by (simp_all add: same_frame_def)
  have "halted = (\<lambda>p. SetVel f64_zero (GetVelY p) p)" by (simp add: halted_def fun_eq_iff)
  then have "rfold (\<lambda>(i, e). with_player i halted) (players w) (swap_in_queues w) = Inr w1" using t(1) by (simp add: stop_players_def)
  from halt_table[OF this, of "[]"] ok(1) have h: "players w1 = start" by (simp add: start_def world_ok_def)
  have l: "lives (live w1) (qdata (game_in w1)) = Some L" using w1(2) q(1) assms(2) by simp
  note tab = process_inputs_table[OF t(2) w1(1) l, unfolded q h]
  from process_inputs_refines[OF w1(1) l, of dt] t(2) have w2: "world_ok w2" "world_config w2 = world_config w1" "tile_map w2 = tile_map w1"
    "net_subsystem w2 = net_subsystem w1" by auto
  note m = tick_physics[OF t(3) w2(1)]
  have mv: "moved_to w2 dt = moved_to w dt"
    using MovePlayer_frame[of w2 w] w2(2,3) q(2,3) by (intro ext) (simp add: moved_to_def)
  have w': "players w' = players w3" "qdata (net_out w') = qdata (net_out w3) @ qdata (game_out w3)"
    using t(4) by (auto simp: flush_out_eq set_out_queues_def)
  have "qdata (net_out w3) = qdata (net_out w)" using m(6) w2(4) q(4) by simp
  then have "qdata (net_out w') = qdata (net_out w) @ qdata (game_out w) @ announcements (world_config w) dt start (qdata (net_in w)) @
       map (\<lambda>z. move_packet (the (snd z))) (players w')"
    using w' m(4) tab w1(4) by simp
  moreover have "list_all2 (moved_to w dt) (foldl (table_after (world_config w) dt) start (qdata (net_in w))) (players w')"
    using m(3) tab mv w'(1) by simp
  ultimately show ?thesis using tick_result[OF assms(1-4)] by blast
qed

theorem Tick_output_witness:
  "\<exists>w' before spawn. Tick f64_zero wit_join = Inr w' \<and> live w' = {7} \<and>
     qdata (net_out w') = before # ServerPacket_new spawn 7 Rpc #
       ServerPacket_new (let p = new_player wit_cfg 7 in AddPlayerPacket 7 (GetX p) (GetY p) (GetWidth p) (GetHeight p)) 7 RpcOthers #
       map (\<lambda>z. move_packet (the (snd z))) (players w')"
proof -
  have j: "players wit_join = []" "qdata (net_in wit_join) = [sys_packet CreatePlayer 7]" "qdata (game_out wit_join) = []"
    "qdata (net_out wit_join) = []" "world_config wit_join = wit_cfg" "Empty (game_in wit_join)"
    by (simp_all add: wit_join_def wit_world_def TSQueue_new_def Empty_def)
  have ok: "world_ok wit_join" "live wit_join = {}" by (simp_all add: wit_join_def wit_ok)
  have "lives (live wit_join) (qdata (net_in wit_join)) = Some {7}" by (simp add: ok j)
  moreover obtain w' where w': "Tick f64_zero wit_join = Inr w'" using tick_stay[OF j(1-4)] by blast
  ultimately have "live w' = {7} \<and> qdata (net_out w') = announcements wit_cfg f64_zero [] [sys_packet CreatePlayer 7] @
      map (\<lambda>z. move_packet (the (snd z))) (players w')"
    using Tick_output[OF ok(1) _ j(6) w', of "{7}"] j by simp
  moreover have "to_opcode (GetHeadOpcode (packet (sys_packet CreatePlayer 7))) = CreatePlayer" "sp_id (sys_packet CreatePlayer 7) = 7"
    by (simp_all add: sys_packet_def wit_opcode to_opcode_def)
  ultimately show ?thesis using w' by (auto simp: announced_def Let_def)
qed

end
