(* ===== verification/Inputs.thy ===== *)
theory Inputs
  imports Failures
begin

text \<open>
  The way from a client to the world: the inputs that every run hands to the world for a session
  are its \<open>CreatePlayer\<close>, then the packets its byte stream contains, then its \<open>RemovePlayer\<close>.
\<close>

section \<open>Histories\<close>

definition is_tick :: "sys_event \<Rightarrow> bool" where
  "is_tick e \<longleftrightarrow> (case e of Ticked dt \<Rightarrow> True | _ \<Rightarrow> False)"

lemma is_tick_simps [simp]: "is_tick (Ticked dt)" "\<not> is_tick (Connection ec)" "\<not> is_tick (Accepted k ec)" "\<not> is_tick (ReadFailed k)"
  "\<not> is_tick (ReadDone k st cs po)" "\<not> is_tick (WriteFinished k ec)" "\<not> is_tick (CloseFinished k)" "\<not> is_tick Sent"
  by (simp_all add: is_tick_def)

text \<open>
  A run together with the inputs its ticks have taken from the network queue. \<open>received k\<close>: the
  chunks the reads of session \<open>k\<close> delivered. \<open>on_time\<close>: no read delivers data after its session was
  closed.
\<close>

inductive history :: "System \<Rightarrow> sys_event list \<Rightarrow> ServerPacket list \<Rightarrow> System \<Rightarrow> bool" where
  history_nil: "history sys [] [] sys"
| history_snoc: "history sys0 evs taken sys \<Longrightarrow> sys_step sys e sys' \<Longrightarrow>
    history sys0 (evs @ [e]) (taken @ (if is_tick e then qdata (net_in sys) else [])) sys'"

lemma history_run: "history sys0 evs taken sys \<Longrightarrow> sys_run sys0 evs sys"
  by (induction rule: history.induct) (auto intro: sys_run.intros)

lemma run_history: "sys_run sys0 evs sys \<Longrightarrow> \<exists>taken. history sys0 evs taken sys"
  by (induction rule: sys_run.induct) (auto intro: history.intros)

definition chunk_for :: "nat \<Rightarrow> sys_event \<Rightarrow> u8 list list" where
  "chunk_for k e = (case e of ReadDone ptr st chunk po \<Rightarrow> if ptr = k then [chunk] else [] | _ \<Rightarrow> [])"

definition received :: "nat \<Rightarrow> sys_event list \<Rightarrow> u8 list list" where
  "received k evs = concat (map (chunk_for k) evs)"

definition on_time :: "sys_event \<Rightarrow> bool" where
  "on_time e \<longleftrightarrow> (case e of ReadDone ptr st chunk po \<Rightarrow> st \<noteq> Disconnected | _ \<Rightarrow> True)"

definition inputs_of :: "nat \<Rightarrow> ServerPacket list \<Rightarrow> NetPacket list" where
  "inputs_of k ins = map packet (filter (\<lambda>p. GetID p = of_nat k) ins)"

lemma received_append [simp]: "received k (evs @ [e]) = received k evs @ chunk_for k e"
  by (simp add: received_def)

lemma inputs_of_simps [simp]:
  "inputs_of k (xs @ ys) = inputs_of k xs @ inputs_of k ys" "inputs_of k [] = []"
  by (simp_all add: inputs_of_def)

lemma inputs_of_single:
  "inputs_of k [ServerPacket_new p i t] = (if i = of_nat k then [p] else [])"
  "inputs_of k [sys_packet c i] = (if i = of_nat k then [NetPacket_of c] else [])"
  by (simp_all add: inputs_of_def sys_packet_def GetID_def)

lemma reads_snoc:
  "reads r cs ps r' \<Longrightarrow> length c \<le> unat (read_limit r') \<Longrightarrow> OnRead r' c = Inr (r'', po) \<Longrightarrow>
   reads r (cs @ [c]) (ps @ emitted po) r''"
proof (induction rule: reads.induct)
  case (reads_nil r)
  then show ?case using reads_cons[OF reads_nil reads.reads_nil] by simp
next
  case (reads_cons c1 r r1 o1 cs ps r2)
  then show ?case using reads.reads_cons[OF reads_cons.hyps(1,2)] by simp
qed

section \<open>What one session has told the world\<close>

fun told :: "State \<Rightarrow> reader \<Rightarrow> bool \<Rightarrow> u8 list list \<Rightarrow> NetPacket list \<Rightarrow> bool" where
  "told Connected r acc cs ns \<longleftrightarrow> acc \<and> (\<exists>ps. reads reader_new cs ps r \<and> ns = NetPacket_of CreatePlayer # ps)"
| "told Disconnected r acc cs ns \<longleftrightarrow>
     (if acc then \<exists>ps r'. reads reader_new cs ps r' \<and> ns = NetPacket_of CreatePlayer # ps @ [NetPacket_of RemovePlayer]
      else cs = [] \<and> ns = [])"
| "told st r acc cs ns \<longleftrightarrow> \<not> acc \<and> cs = [] \<and> ns = []"

definition status :: "System \<Rightarrow> nat \<Rightarrow> State" where
  "status sys k = (if k < length (objects sys) then session_state (obj sys k) else Connecting)"

definition heard :: "nat \<Rightarrow> ServerPacket list \<Rightarrow> sys_event list \<Rightarrow> System \<Rightarrow> bool" where
  "heard k ins evs sys \<longleftrightarrow>
     told (status sys k) (session_reader (obj sys k)) (Accepted k False \<in> set evs) (received k evs) (inputs_of k ins)"

lemma told_reader: "st \<noteq> Connected \<Longrightarrow> told st r = told st r'"
  by (cases st; intro ext; simp)

text \<open>An event of another session, or one that leaves state, reader and inputs alone.\<close>

lemma heard_frame:
  assumes "heard k ins evs sys" "chunk_for k e = []" "e \<noteq> Accepted k False" "inputs_of k ins' = inputs_of k ins"
    and "status sys' k = status sys k" "status sys k = Connected \<Longrightarrow> session_reader (obj sys' k) = session_reader (obj sys k)"
  shows "heard k ins' (evs @ [e]) sys'"
  using assms told_reader[of "status sys k" "session_reader (obj sys' k)" "session_reader (obj sys k)"]
  by (cases "status sys k = Connected") (auto simp: heard_def)

lemma status_update: "objects sys' = (objects sys)[j := s] \<Longrightarrow> j < length (objects sys) \<Longrightarrow>
    status sys' k = (if k = j then session_state s else status sys k) \<and> (k \<noteq> j \<longrightarrow> obj sys' k = obj sys k)"
  by (simp add: status_def)

lemma heard_error:
  assumes "base_inv sys" "few_sessions sys" "j < length (objects sys)" "k < 2 ^ 64" "heard k ins evs sys"
    and "chunk_for k e = []" "e \<noteq> Accepted k False"
  shows "heard k (ins @ (if of_nat j \<in> dom (map_of (sessions sys)) then [sys_packet RemovePlayer (of_nat j)] else []))
    (evs @ [e]) (OnError o1 j (finish j op sys))" (is "heard k ?ins _ ?sys")
proof -
  have j: "j < length (objects (finish j op sys))" using assms(3) by simp
  note st = status_update[OF OnError_effect(1)[OF j, of o1] j, of k]
  have fin: "status (finish j op sys) k = status sys k" "k \<noteq> j \<Longrightarrow> obj (finish j op sys) k = obj sys k"
    using assms(3) by (auto simp: status_def finish_objects nth_list_update)
  show ?thesis
  proof (cases "k = j")
    case True
    have "session_state (obj sys k) = Connected \<longleftrightarrow> of_nat j \<in> dom (map_of (sessions sys))"
      using base_registered[OF assms(1-3)] True by (simp add: domIff)
    moreover have "session_state (obj sys k) \<in> {Connecting, Connected, Disconnected}"
      using assms(1,3) True by (simp add: base_inv_def sess_ok_def)
    moreover have "status sys k = session_state (obj sys k)" using assms(3) True by (simp add: status_def)
    moreover have "status ?sys k = Disconnected" using st True by simp
    ultimately show ?thesis using assms(5-7) True
      by (auto simp: heard_def inputs_of_single split: if_splits) (rule exI)
  next
    case False
    have "(of_nat j :: size_t) \<noteq> of_nat k" using of_nat_size_inj[of j k] assms(2-4) False by auto
    then have "inputs_of k ?ins = inputs_of k ins" by (simp add: inputs_of_single)
    from heard_frame[OF assms(5-7) this] show ?thesis using st fin False by simp
  qed
qed


lemma heard_accept:
  assumes "base_inv sys" "few_sessions sys" "j < length (objects sys)" "OpAccept \<in> set (ops_of sys j)" "k < 2 ^ 64" "heard k ins evs sys"
  shows "heard k (ins @ [sys_packet CreatePlayer (of_nat j)]) (evs @ [Accepted j False]) (OnAccept o1 j False (finish j OpAccept sys))"
    (is "heard k ?ins _ ?sys")
proof -
  have j: "j < length (objects (finish j OpAccept sys))" using assms(3) by simp
  note o = OnAccept_effect(1)[OF j, of o1]
  note st = status_update[OF o j, of k]
  have s: "sess_ok (obj sys j)" using assms(1,3) by (simp add: base_inv_def)
  with assms(4) have c: "session_state (obj sys j) = Connecting" "session_reader (obj sys j) = reader_new"
    using s by (auto simp: sess_ok_def op_ok_def)
  show ?thesis
  proof (cases "k = j")
    case True
    have "session_reader (obj ?sys k) = reader_new"
      using o assms(3) c(2) True by (simp add: finish_objects ReadPacketHead_def SetState_def reader_new_def)
    moreover have "status sys k = Connecting" using c(1) assms(3) True by (simp add: status_def)
    moreover have "status ?sys k = Connected" using st True by (simp add: SetState_def)
    ultimately show ?thesis using assms(6) True reads.reads_nil[of reader_new]
      by (auto simp: heard_def inputs_of_single chunk_for_def)
  next
    case False
    have "(of_nat j :: size_t) \<noteq> of_nat k" using of_nat_size_inj[of j k] assms(2,3,5) False by auto
    then have "inputs_of k ?ins = inputs_of k ins" by (simp add: inputs_of_single)
    from heard_frame[OF assms(6) _ _ this] show ?thesis
      using st False assms(3) by (auto simp: chunk_for_def status_def finish_objects)
  qed
qed

lemma heard_read:
  assumes "base_inv sys" "few_sessions sys" "j < length (objects sys)" "OpRead n \<in> set (ops_of sys j)" "k < 2 ^ 64" "heard k ins evs sys"
    and "length chunk \<le> unat n" "OnReadData j chunk (finish j (OpRead n) sys) = Inr (sys', po)" "session_state (obj sys j) \<noteq> Disconnected"
  shows "heard k (ins @ (case po of None \<Rightarrow> [] | Some p \<Rightarrow> [ServerPacket_new p (of_nat j) Broadcast]))
    (evs @ [ReadDone j st chunk po]) sys'" (is "heard k ?ins _ _")
proof -
  have j: "j < length (objects (finish j (OpRead n) sys))" using assms(3) by simp
  have s: "sess_ok (obj sys j)" using assms(1,3) by (simp add: base_inv_def)
  with assms(4,9) have c: "session_state (obj sys j) = Connected" "n = read_limit (session_reader (obj sys j))"
    by (auto simp: sess_ok_def op_ok_def)
  from OnReadData_effect[OF assms(8) j] obtain r where r: "OnRead (session_reader (obj (finish j (OpRead n) sys) j)) chunk = Inr (r, po)"
    "objects sys' = (objects (finish j (OpRead n) sys))[j := next_read ((obj (finish j (OpRead n) sys) j)\<lparr>session_reader := r\<rparr>)]" by metis
  note st = status_update[OF r(2) j, of k]
  show ?thesis
  proof (cases "k = j")
    case True
    have rd: "session_reader (obj sys' k) = r" "OnRead (session_reader (obj sys j)) chunk = Inr (r, po)"
      using r assms(3) True by (simp_all add: finish_objects next_read_eq)
    have "status sys k = Connected" "status sys' k = Connected" using c(1) assms(3) True st by (simp_all add: status_def finish_objects)
    moreover from this(1) obtain ps where ps: "Accepted k False \<in> set evs" "reads reader_new (received k evs) ps (session_reader (obj sys k))"
      "inputs_of k ins = NetPacket_of CreatePlayer # ps" using assms(6) by (auto simp: heard_def)
    moreover have "reads reader_new (received k evs @ [chunk]) (ps @ emitted po) r"
      by (rule reads_snoc[OF ps(2)]) (use assms(7) c(2) rd(2) True in simp_all)
    moreover have "inputs_of k ?ins = NetPacket_of CreatePlayer # ps @ emitted po"
      using ps(3) True by (cases po) (simp_all add: inputs_of_single emitted_def)
    ultimately show ?thesis using rd(1) True by (auto simp: heard_def chunk_for_def)
  next
    case False
    have "(of_nat j :: size_t) \<noteq> of_nat k" using of_nat_size_inj[of j k] assms(2,3,5) False by auto
    then have "inputs_of k ?ins = inputs_of k ins" by (simp add: inputs_of_single split: option.split)
    from heard_frame[OF assms(6) _ _ this] show ?thesis
      using st False assms(3) by (auto simp: chunk_for_def status_def finish_objects)
  qed
qed


text \<open>The remaining events leave state and reader of every session alone.\<close>

lemma heard_quiet:
  assumes "heard k ins evs sys" "chunk_for k e = []" "e \<noteq> Accepted k False" "length (objects sys') = length (objects sys)"
    and "\<And>j. j < length (objects sys) \<Longrightarrow> session_state (obj sys' j) = session_state (obj sys j) \<and>
      session_reader (obj sys' j) = session_reader (obj sys j)"
  shows "heard k ins (evs @ [e]) sys'"
  by (rule heard_frame[OF assms(1-3) refl]) (use assms(4,5) in \<open>auto simp: status_def split: if_splits\<close>)

lemma tick_queues:
  assumes "Tick dt w = Inr w'"
  shows "net_in w' = game_in w" "qdata (game_in w') = []"
proof -
  from assms obtain w1 w2 w3 where w: "stop_players (swap_in_queues w) = Inr w1" "process_inputs dt w1 = Inr w2"
    "update_players dt w2 = Inr w3" "flush_out w3 = Inr w'" by (auto simp: Tick_def)
  have "net_subsystem w1 = net_subsystem (swap_in_queues w)"
    by (rule rfold_invariant[OF w(1)[unfolded stop_players_def]]) (auto dest: with_player_net)
  then show "net_in w' = game_in w" using process_inputs_more[OF w(2)] update_players_more[OF w(3)] w(4)
    by (simp add: flush_out_eq) (auto simp: set_out_queues_def)
  have "qdata (game_in w2) = []" by (rule process_inputs_consumes[OF w(2)])
  moreover have "game_in w3 = game_in w2"
    by (rule rfold_invariant[OF w(3)[unfolded update_players_steps]]) (auto simp: update_step_def split: option.splits)
  ultimately show "qdata (game_in w') = []" using w(4) by (simp add: flush_out_eq) (auto simp: set_out_queues_def)
qed


section \<open>Every run\<close>

lemma heard_shut:
  assumes "base_inv sys" "few_sessions sys" "j < length (objects sys)" "k < 2 ^ 64" "heard k (taken @ qdata (net_in sys)) evs sys"
    and "chunk_for k e = []" "e \<noteq> Accepted k False"
  shows "heard k (taken @ qdata (net_in (OnError o1 j (finish j op sys)))) (evs @ [e]) (OnError o1 j (finish j op sys)) \<and>
    game_subsystem (OnError o1 j (finish j op sys)) = game_subsystem sys"
proof -
  have j: "j < length (objects (finish j op sys))" using assms(3) by simp
  have "session_id (obj (finish j op sys) j) = of_nat j" using assms(1,3) by (simp add: base_inv_def finish_objects)
  with heard_error[OF assms, of o1 op] OnError_effect(5,7)[OF j, of o1] show ?thesis by (simp split: if_splits)
qed

lemma heard_step:
  assumes "sys_step sys e sys'" "on_time e" "base_inv sys" "few_sessions sys" "k < 2 ^ 64"
    and "heard k (taken @ qdata (net_in sys)) evs sys" "qdata (game_in sys) = []"
  shows "heard k (taken @ (if is_tick e then qdata (net_in sys) else []) @ qdata (net_in sys')) (evs @ [e]) sys' \<and> qdata (game_in sys') = []"
  using assms(1)
proof cases
  case (connection ec)
  have "net_subsystem sys' = net_subsystem sys" "game_subsystem sys' = game_subsystem sys"
    using connection by (simp_all add: OnConnection_def)
  moreover have "status sys' k = status sys k" "status sys k = Connected \<Longrightarrow> obj sys' k = obj sys k"
    using connection by (auto simp: OnConnection_def status_def nth_append Session_Run_def Session_new_def less_Suc_eq)
  ultimately show ?thesis using heard_frame[OF assms(6), of e] assms(7) connection by (simp add: chunk_for_def)
next
  case (accepted ptr ec o1)
  have j: "ptr < length (objects (finish ptr OpAccept sys))" using accepted by simp
  show ?thesis
  proof (cases ec)
    case True
    with heard_shut[OF assms(3,4) accepted(3) assms(5,6), of e o1 OpAccept] accepted assms(7) show ?thesis
      by (simp add: OnAccept_error chunk_for_def)
  next
    case False
    note f = OnAccept_effect[OF j, of o1]
    have i: "session_id (obj (finish ptr OpAccept sys) ptr) = of_nat ptr" using assms(3) accepted(3) by (simp add: base_inv_def finish_objects)
    from heard_accept[OF assms(3,4) accepted(3,4) assms(5,6), of o1] f i False accepted assms(7) show ?thesis by simp
  qed
next
  case (read_failed ptr n o1)
  from heard_shut[OF assms(3,4) read_failed(3) assms(5,6), of e o1 "OpRead n"] read_failed assms(7)
  show ?thesis by (simp add: chunk_for_def)
next
  case (read_done ptr n chunk po)
  have j: "ptr < length (objects (finish ptr (OpRead n) sys))" using read_done by simp
  have i: "session_id (obj (finish ptr (OpRead n) sys) ptr) = of_nat ptr" using assms(3) read_done(2) by (simp add: base_inv_def finish_objects)
  have "session_state (obj sys ptr) \<noteq> Disconnected" using assms(2) read_done(1) by (simp add: on_time_def)
  note h = heard_read[OF assms(3,4) read_done(2,3) assms(5,6) read_done(4,5) this, of "session_state (obj sys ptr)"]
  have "qdata (net_in sys') = qdata (net_in sys) @ (case po of None \<Rightarrow> [] | Some p \<Rightarrow> [ServerPacket_new p (of_nat ptr) Broadcast]) \<and>
    game_subsystem sys' = game_subsystem sys"
    by (rule OnReadData_effect[OF read_done(5) j]) (simp add: i split: option.split)
  with h assms(7) read_done(1) show ?thesis by simp
next
  case (write_finished ptr b ec o1)
  show ?thesis
  proof (cases ec)
    case True
    from heard_shut[OF assms(3,4) write_finished(3) assms(5,6), of e o1 "OpWrite b"] True write_finished assms(7)
    show ?thesis by (simp add: chunk_for_def OnWriteDone_def)
  next
    case False
    have "session_state (obj sys' m) = session_state (obj sys m) \<and> session_reader (obj sys' m) = session_reader (obj sys m)"
      if "m < length (objects sys)" for m
      using write_finished False that by (cases "m = ptr") (simp_all add: OnWriteDone_def finish_objects OnWrite_def StopSending_def Let_def)
    from heard_quiet[OF assms(6) _ _ _ this, of e] write_finished False assms(7) show ?thesis by (simp add: chunk_for_def OnWriteDone_def)
  qed
next
  case (close_finished ptr)
  have "session_state (obj sys' m) = session_state (obj sys m) \<and> session_reader (obj sys' m) = session_reader (obj sys m)"
    if "m < length (objects sys)" for m
    using close_finished that by (cases "m = ptr") (simp_all add: finish_objects)
  from heard_quiet[OF assms(6) _ _ _ this, of e] close_finished assms(7) show ?thesis by (simp add: chunk_for_def)
next
  case sent
  obtain p ps where d: "qdata (net_out sys) = p # ps"
    "pushed_to (MakeBuffer (packet p)) {ptr. \<exists>i. map_of (sessions sys) i = Some (Some ptr) \<and> targeted p i} (popped_out ps sys) sys'"
    by (rule sent_delivers[OF base_table[OF assms(3)] sent(2)])
  have "session_state (obj sys' m) = session_state (obj sys m) \<and> session_reader (obj sys' m) = session_reader (obj sys m)"
    if "m < length (objects sys)" for m
    using d(2) that by (simp add: pushed_to_def) (simp add: PushToSend_def)
  from heard_quiet[OF assms(6) _ _ _ this, of e] d(2) sent(1) assms(7) show ?thesis
    by (simp add: chunk_for_def pushed_to_def same_world_def)
next
  case (ticked dt)
  note t = Tick_system[OF ticked(2)] tick_queues[OF ticked(2)]
  have "heard k (taken @ qdata (net_in sys)) (evs @ [e]) sys'"
    by (rule heard_quiet[OF assms(6)]) (simp_all add: ticked(1) chunk_for_def t)
  then show ?thesis using t(4,5) assms(7) ticked(1) by simp
qed


lemma heard_run:
  "history sys0 evs taken sys \<Longrightarrow> system_start cfg = Inr sys0 \<Longrightarrow> list_all on_time evs \<Longrightarrow> few_sessions sys \<Longrightarrow> k < 2 ^ 64 \<Longrightarrow>
   heard k (taken @ qdata (net_in sys)) evs sys \<and> qdata (game_in sys) = []"
proof (induction rule: history.induct)
  case (history_nil sys)
  then show ?case
    by (auto simp: system_start_def World_new_def Server_new_def World.defs TSQueue_new_def heard_def status_def received_def)
next
  case (history_snoc sys0 evs taken sys e sys')
  have few: "few_sessions sys" using step_grows[OF history_snoc.hyps(2)] history_snoc.prems(3) by simp
  have "base_inv sys" by (rule base_inv_run[OF history_run[OF history_snoc.hyps(1)] base_inv_start[OF history_snoc.prems(1)] few])
  from heard_step[OF history_snoc.hyps(2) _ this few history_snoc.prems(4), of taken evs] history_snoc.IH history_snoc.prems few
  show ?case by simp
qed

text \<open>
  C4. The world hears from every client exactly what the client sent, in order. In every run in
  which no read delivers data after its session was closed, whatever the interleaving and however
  the byte stream was cut, the inputs handed over for a session (taken by ticks or still queued)
  are nothing for a session that was never accepted, and otherwise one \<open>CreatePlayer\<close>, the frames
  of all bytes received on the session, and, once the session is closed, one \<open>RemovePlayer\<close>.
  Bytes that a client wrote with \<open>MakeBuffer\<close> thus arrive as its packets.
\<close>

theorem world_hears_clients:
  assumes "system_start cfg = Inr sys0" "history sys0 evs taken sys" "list_all on_time evs" "few_sessions sys"
    and "k < length (objects sys)"
  shows "inputs_of k (taken @ qdata (net_in sys)) =
      (if Accepted k False \<in> set evs
       then [NetPacket_of CreatePlayer] @ frames (concat (received k evs)) @
         (if session_state (obj sys k) = Disconnected then [NetPacket_of RemovePlayer] else [])
       else []) \<and>
    (list_all sendable ps \<and> concat (received k evs) = concat (map MakeBuffer ps) \<longrightarrow> frames (concat (received k evs)) = ps)"
proof -
  have "k < 2 ^ 64" using assms(4,5) by simp
  from heard_run[OF assms(2,1,3,4) this] have "heard k (taken @ qdata (net_in sys)) evs sys" by simp
  then have "told (session_state (obj sys k)) (session_reader (obj sys k)) (Accepted k False \<in> set evs) (received k evs)
      (inputs_of k (taken @ qdata (net_in sys)))"
    using assms(5) by (simp add: heard_def status_def)
  moreover have "frames (concat cs) = ps" if "reads reader_new cs ps r" for cs ps r
    using reads_frames[OF that reader_inv_new] by (simp add: pending_new)
  ultimately have "inputs_of k (taken @ qdata (net_in sys)) =
      (if Accepted k False \<in> set evs
       then [NetPacket_of CreatePlayer] @ frames (concat (received k evs)) @
         (if session_state (obj sys k) = Disconnected then [NetPacket_of RemovePlayer] else [])
       else [])"
    by (cases "session_state (obj sys k)") (auto split: if_splits)
  then show ?thesis by (simp add: frames_stream)
qed


text \<open>A client connects, sends a \<open>MoveLeft\<close> packet and loses its connection.\<close>

definition wit_bytes :: "u8 list" where
  "wit_bytes = [0, 0x12, 0, 0, 0, 0]"

lemma wit_frames: "map (\<lambda>p. to_opcode (GetHeadOpcode p)) (frames wit_bytes) = [MoveLeft]"
  by code_simp

theorem world_hears_clients_witness:
  "\<exists>sys0 evs taken sys. system_start wit_cfg = Inr sys0 \<and> history sys0 evs taken sys \<and>
     inputs_of 0 (taken @ qdata (net_in sys)) = [NetPacket_of CreatePlayer] @ frames wit_bytes @ [NetPacket_of RemovePlayer]"
proof -
  obtain sys0 where s: "system_start wit_cfg = Inr sys0" using wit_start by blast
  from first_client[OF s] obtain sys where c: "sys_run sys0 [Connection False, Accepted 0 False] sys" "objects sys = [first_session]" by metis
  obtain r p where "OnRead reader_new wit_bytes = Inr (r, Some p)" using late_packet by (auto simp: wit_bytes_def)
  then have "\<exists>t po. OnReadData 0 wit_bytes (finish 0 (OpRead 6) sys) = Inr (t, po)"
    using c(2) by (simp add: OnReadData_def finish_objects first_session_facts Let_def)
  then obtain t po where t: "OnReadData 0 wit_bytes (finish 0 (OpRead 6) sys) = Inr (t, po)" by blast
  have st: "sys_step sys (ReadDone 0 Connected wit_bytes po) t"
    using read_done[OF _ _ _ t] c(2) by (simp add: first_session_facts wit_bytes_def)
  have k: "0 < length (objects (finish 0 (OpRead 6) sys))" using c(2) by simp
  have o1: "\<exists>q. objects t = [next_read ((finished (OpRead 6) first_session)\<lparr>session_reader := q\<rparr>)]"
    by (rule OnReadData_effect[OF t k]) (use c(2) in \<open>auto simp: finish_objects\<close>)
  then obtain q where q: "objects t = [next_read ((finished (OpRead 6) first_session)\<lparr>session_reader := q\<rparr>)]" by blast
  obtain n where n: "OpRead n \<in> set (ops_of t 0)" "length (objects t) = 1"
    using q by (intro that[of "read_limit q"]) (simp_all add: next_read_eq ws.read_ops)
  let ?e = "OnError True 0 (finish 0 (OpRead n) t)"
  have "sys_step t (ReadFailed 0) ?e" by (rule read_failed) (use n in simp_all)
  then have run: "sys_run sys0 [Connection False, Accepted 0 False, ReadDone 0 Connected wit_bytes po, ReadFailed 0] ?e"
    (is "sys_run _ ?evs _") using run_snoc[OF run_snoc[OF c(1) st]] by simp
  have k: "0 < length (objects (finish 0 (OpRead n) t))" using n by simp
  have e: "length (objects ?e) = 1" "session_state (obj ?e 0) = Disconnected" using OnError_effect(1)[OF k, of True] n by simp_all
  obtain taken where h: "history sys0 ?evs taken ?e" using run_history[OF run] by blast
  have "list_all on_time ?evs" by (simp add: on_time_def)
  from world_hears_clients[OF s h this, of 0] e have "inputs_of 0 (taken @ qdata (net_in ?e)) =
      [NetPacket_of CreatePlayer] @ frames wit_bytes @ [NetPacket_of RemovePlayer]"
    by (simp add: received_def chunk_for_def)
  with s h show ?thesis by blast
qed

end
