(* ===== verification/SafeRuns.thy ===== *)
theory SafeRuns
  imports Enclosure Players Inputs Failures
begin

text \<open>
  Whole runs of the server on a closed map: the coordinates of every player stay between the walls,
  and nothing the world thread does is undefined.
\<close>

declare of_int_uint [simp del]

section \<open>All players of a world\<close>

definition crowd :: "(Player \<Rightarrow> bool) \<Rightarrow> 'a World_scheme \<Rightarrow> bool" where
  "crowd P w \<longleftrightarrow> (\<forall>p. Some p \<in> snd ` set (players w) \<longrightarrow> P p)"

lemma crowd_entry: "crowd P w \<Longrightarrow> map_of (players w) i = Some (Some p) \<Longrightarrow> P p"
  unfolding crowd_def by (metis image_eqI map_of_SomeD snd_conv)

lemma set_update: "snd ` set (AList.update i v ps) \<subseteq> insert v (snd ` set ps)"
  by (induction ps) auto

lemma crowd_subset:
  assumes "crowd P w" "snd ` set (players w') \<subseteq> A \<union> snd ` set (players w)" "\<And>p. Some p \<in> A \<Longrightarrow> P p"
  shows "crowd P w'"
  using assms unfolding crowd_def by blast

lemma crowd_update:
  assumes "crowd P w"
  shows "P p \<Longrightarrow> crowd P (w\<lparr>players := AList.update i (Some p) (players w)\<rparr>)"
    "crowd P (w\<lparr>players := um_touch None i (players w)\<rparr>)" "crowd P (w\<lparr>players := AList.delete i (players w)\<rparr>)"
    "crowd P (push_out q w)" "crowd P (set_game_in g w)"
proof -
  show "P p \<Longrightarrow> crowd P (w\<lparr>players := AList.update i (Some p) (players w)\<rparr>)"
    using set_update[of i "Some p" "players w"] by (intro crowd_subset[OF assms, of _ "{Some p}"]) simp_all
  have "snd ` set (um_touch None i (players w)) \<subseteq> {None} \<union> snd ` set (players w)"
    using set_update[of i None "players w"] unfolding um_touch_def by (cases "map_of (players w) i") auto
  then show "crowd P (w\<lparr>players := um_touch None i (players w)\<rparr>)" by (intro crowd_subset[OF assms, of _ "{None}"]) simp_all
  have "set (AList.delete i (players w)) \<subseteq> set (players w)" by (auto simp: AList.delete_eq)
  then show "crowd P (w\<lparr>players := AList.delete i (players w)\<rparr>)" by (intro crowd_subset[OF assms, of _ "{}"]) auto
qed (use assms in \<open>simp_all add: crowd_def\<close>)

lemma crowd_with_player:
  assumes "crowd P w" "with_player i f w = Inr w'" "\<And>p. P p \<Longrightarrow> P (f p)"
  shows "crowd P w'"
  using assms crowd_entry[OF assms(1), of i] crowd_update(1)[OF assms(1)]
  by (auto simp: with_player_def split: option.splits)

lemma crowd_players: "players w' = players u \<Longrightarrow> crowd P u \<Longrightarrow> crowd P w'"
  by (simp add: crowd_def)

lemma with_player_scene: "with_player i f w = Inr w' \<Longrightarrow> world_config w' = world_config w \<and> tile_map w' = tile_map w"
  by (auto simp: with_player_def split: option.splits)

lemma AddPlayer_players: "World_AddPlayer p w = Inr w' \<Longrightarrow> players w' = AList.update (player_id p) (Some p) (players w)"
  by (auto simp: World_AddPlayer_def Let_def)

section \<open>A tick\<close>

lemma enclosed_cong: "world_config w' = world_config w \<Longrightarrow> tile_map w' = tile_map w \<Longrightarrow> enclosed w' = enclosed w"
  by (simp add: enclosed_def world_grid_def)

text \<open>A closed world with a place for new players, all players inside.\<close>

definition safe :: "'a World_scheme \<Rightarrow> bool" where
  "safe w \<longleftrightarrow> enclosed w \<and> (\<forall>i. placed (world_config w) (new_player (world_config w) i)) \<and> crowd (inside (world_config w)) w"

lemma safe_cong:
  "world_config w' = world_config w \<Longrightarrow> tile_map w' = tile_map w \<Longrightarrow> players w' = players w \<Longrightarrow> safe w' = safe w"
  by (simp add: safe_def crowd_def enclosed_def world_grid_def)

lemma inside_y: "inside cfg p \<Longrightarrow> of_int (uint (tile_size cfg)) \<le> f64_val (GetY p)"
  by (simp add: inside_def placed_def between_walls_def)

lemma inside_turned: "inside cfg p \<Longrightarrow> slow v \<Longrightarrow> inside cfg (SetVel v (GetVelY p) p)"
  by (simp add: inside_def)

lemma inside_jump:
  assumes "inside cfg p" "short dt"
  shows "inside cfg (if OnGround p then SetOnGround False (SetVel (GetVelX p) (f64_minus (f64_mul (f64_lit 400) dt)) p) else p)"
  using assms jump_falling[OF assms(2) inside_y[OF assms(1)]] by (simp add: inside_def)

lemma inside_new:
  assumes "placed cfg (new_player cfg i)" shows "inside cfg (new_player cfg i)"
proof -
  have "0 \<le> (f64_val (GetY (new_player cfg i)) - of_int (uint (tile_size cfg))) / 64"
    using assms by (simp add: placed_def between_walls_def)
  then have "falling cfg 16 (GetY (new_player cfg i)) f64_zero" by (simp add: falling_def)
  then show ?thesis using assms by (simp add: inside_def) (simp add: new_player_def Player_new_def)
qed

lemma stop_players_safe: "stop_players (w :: 'a World_scheme) = Inr w' \<Longrightarrow> safe w \<Longrightarrow> safe w' \<and> world_config w' = world_config w \<and> tile_map w' = tile_map w"
proof -
  assume run: "stop_players w = Inr w'" and s: "safe w"
  let ?P = "\<lambda>u. world_config u = world_config w \<and> tile_map u = tile_map w \<and> crowd (inside (world_config w)) u"
  have "?P w'"
  proof (rule rfold_invariant[OF run[unfolded stop_players_def]])
    show "?P w" using s by (simp add: safe_def)
    fix x and u t :: "'a World_scheme"
    assume u: "?P u" and step: "(case x of (i, e) \<Rightarrow> with_player i (\<lambda>p. SetVel f64_zero (GetVelY p) p)) u = Inr t"
    obtain i e where "x = (i, e)" by force
    with step have t: "with_player i (\<lambda>p. SetVel f64_zero (GetVelY p) p) u = Inr t" by simp
    have "crowd (inside (world_config w)) t"
      by (rule crowd_with_player[OF conjunct2[OF conjunct2[OF u]] t inside_turned[OF _ slow_zero]])
    then show "?P t" using u with_player_scene[OF t] by simp
  qed
  then show ?thesis using s enclosed_cong[of w' w] by (simp add: safe_def)
qed

lemma ProcessInput_safe:
  assumes "ProcessInput sp dt w = Inr w'" "safe w" "short dt"
  shows "safe w'"
proof -
  note c = ProcessInput_config[OF assms(1)]
  let ?w = "w\<lparr>players := um_touch None (GetID sp) (players w)\<rparr>" and ?P = "inside (world_config w)"
  have P: "crowd ?P ?w" using assms(2) crowd_update(2) unfolding safe_def by blast
  have new: "?P (new_player (world_config w) i)" for i using assms(2) inside_new by (simp add: safe_def)
  have "crowd ?P w'"
  proof (cases "to_opcode (GetHeadOpcode (fst (GetNetPacket sp)))")
    case CreatePlayer
    then have "World_AddPlayer (new_player (world_config w) (GetID sp)) ?w = Inr w'"
      using assms(1) by (simp add: ProcessInput_def Let_def)
    let ?p = "new_player (world_config w) (GetID sp)"
    have "players w' = players (?w\<lparr>players := AList.update (player_id ?p) (Some ?p) (players ?w)\<rparr>)"
      using AddPlayer_players[OF \<open>World_AddPlayer ?p ?w = Inr w'\<close>] by simp
    then show ?thesis by (rule crowd_players[OF _ crowd_update(1)[OF P new]])
  next
    case RemovePlayer
    then have "players w' = players (?w\<lparr>players := AList.delete (GetID sp) (players ?w)\<rparr>)"
      using assms(1) by (auto simp: ProcessInput_def World_RemovePlayer_def Let_def)
    then show ?thesis by (rule crowd_players[OF _ crowd_update(3)[OF P]])
  next
    case MoveLeft
    then show ?thesis using assms(1) crowd_with_player[OF P] inside_turned[OF _ speed_slow(2)[OF assms(3)]]
      by (auto simp: ProcessInput_def Let_def)
  next
    case MoveRight
    then show ?thesis using assms(1) crowd_with_player[OF P] inside_turned[OF _ speed_slow(1)[OF assms(3)]]
      by (auto simp: ProcessInput_def Let_def)
  next
    case Jump
    then show ?thesis using assms(1) crowd_with_player[OF P _ inside_jump[OF _ assms(3)]] by (auto simp: ProcessInput_def Let_def)
  qed (use assms(1) P in \<open>auto simp: ProcessInput_def Let_def\<close>)
  then show ?thesis using assms(2) c enclosed_cong[of w' w] by (simp add: safe_def)
qed

lemma process_inputs_safe: "process_inputs dt w = Inr w' \<Longrightarrow> safe w \<Longrightarrow> short dt \<Longrightarrow> safe w'"
proof (induction "qdata (game_in w)" arbitrary: w)
  case Nil
  then show ?case by (simp add: process_inputs_Nil)
next
  case (Cons sp sps)
  from Cons.prems(1) process_inputs_Cons[OF Cons.hyps(2)[symmetric], of dt] obtain w1 where
    w1: "ProcessInput sp dt (set_game_in \<lparr>qdata = sps\<rparr> w) = Inr w1" "process_inputs dt w1 = Inr w'" by auto
  then have g: "sps = qdata (game_in w1)" using ProcessInput_game_in[OF w1(1)] by simp
  have "safe (set_game_in \<lparr>qdata = sps\<rparr> w)" using Cons.prems(2) safe_cong[of "set_game_in \<lparr>qdata = sps\<rparr> w" w] by simp
  from Cons.hyps(1)[OF g w1(2) ProcessInput_safe[OF w1(1) this Cons.prems(3)] Cons.prems(3)] show ?case .
qed

definition same_crowd :: "'a World_scheme \<Rightarrow> 'a World_scheme \<Rightarrow> bool" where
  "same_crowd w u \<longleftrightarrow> world_config u = world_config w \<and> tile_map u = tile_map w \<and> crowd (inside (world_config w)) u"

lemma same_crowd_safe: "safe w \<Longrightarrow> same_crowd w w" "safe w \<Longrightarrow> same_crowd w u \<Longrightarrow> safe u"
  using enclosed_cong[of u w] by (simp_all add: safe_def same_crowd_def)

lemma update_step_safe:
  assumes "safe w" "short dt" "same_crowd w u" "x \<in> set (players w)" "snd x = Some p"
  shows "\<exists>t. update_step dt x u = Inr t \<and> same_crowd w t"
proof -
  have u: "world_config u = world_config w" "tile_map u = tile_map w" "crowd (inside (world_config w)) u"
    using assms(3) by (simp_all add: same_crowd_def)
  have "inside (world_config w) p" using assms(1,4,5) unfolding safe_def crowd_def by (metis image_eqI)
  from update_inside[OF _ this assms(2)] assms(1) obtain p' where
    p': "World_MovePlayer w (fallen dt p) = Inr p'" "inside (world_config w) p'" unfolding safe_def by blast
  have "World_MovePlayer u = World_MovePlayer w" by (rule MovePlayer_frame) (use u in simp_all)
  with assms(5) p'(1) have s: "update_step dt x u =
      Inr (push_out (move_packet p') (u\<lparr>players := AList.update (fst x) (Some p') (players u)\<rparr>))"
    by (simp add: update_step_def)
  have "crowd (inside (world_config w)) (push_out (move_packet p') (u\<lparr>players := AList.update (fst x) (Some p') (players u)\<rparr>))"
    using crowd_update(4)[OF crowd_update(1)[OF u(3) p'(2)]] .
  with s u show ?thesis by (simp add: same_crowd_def)
qed

text \<open>In a safe world without null entries the physics of a tick cannot fault.\<close>

lemma update_players_total:
  assumes "safe w" "short dt" "\<And>x. x \<in> set (players w) \<Longrightarrow> snd x \<noteq> None"
  shows "\<exists>w'. update_players dt w = Inr w'"
proof -
  have "\<exists>t. rfold (update_step dt) (players w) w = Inr t \<and> same_crowd w t"
    by (rule rfold_total) (use assms same_crowd_safe update_step_safe[OF assms(1,2)] in blast)+
  then show ?thesis by (auto simp: update_players_steps)
qed

lemma update_players_safe:
  assumes "update_players dt w = Inr w'" "safe w" "short dt"
  shows "safe w'" "world_config w' = world_config w"
proof -
  have c: "same_crowd w w'"
  proof (rule rfold_invariant[OF assms(1)[unfolded update_players_steps], of "same_crowd w", OF same_crowd_safe(1)[OF assms(2)]])
    fix x u t assume x: "x \<in> set (players w)" "same_crowd w u" and t: "update_step dt x u = Inr t"
    then obtain p where "snd x = Some p" by (auto simp: update_step_def split: option.splits)
    from update_step_safe[OF assms(2,3) x(2,1) this] t show "same_crowd w t" by simp
  qed
  show "safe w'" by (rule same_crowd_safe(2)[OF assms(2) c])
  show "world_config w' = world_config w" using c by (simp add: same_crowd_def)
qed

lemma flush_scene: "flush_out w = Inr w' \<Longrightarrow> players w' = players w \<and> world_config w' = world_config w \<and> tile_map w' = tile_map w"
  by (auto simp: flush_out_eq set_out_queues_def)

lemma swap_safe: "safe w \<Longrightarrow> safe (swap_in_queues w)"
  using safe_cong[of "swap_in_queues w" w] by simp

lemma Tick_safe:
  assumes "Tick dt w = Inr w'" "safe w" "short dt"
  shows "safe w'" "world_config w' = world_config w"
proof -
  from assms(1) obtain w1 w2 w3 where t: "stop_players (swap_in_queues w) = Inr w1" "process_inputs dt w1 = Inr w2"
    "update_players dt w2 = Inr w3" "flush_out w3 = Inr w'" by (auto simp: Tick_def)
  have s2: "safe w2" using process_inputs_safe[OF t(2) _ assms(3)] stop_players_safe[OF t(1) swap_safe[OF assms(2)]] by blast
  note u = update_players_safe[OF t(3) s2 assms(3)] and f = flush_scene[OF t(4)]
  show "safe w'" using u safe_cong[of w' w3] f by simp
  have "world_config (swap_in_queues w) = world_config w" by simp
  then show "world_config w' = world_config w"
    using f u process_inputs_player[OF t(2)] stop_players_safe[OF t(1) swap_safe[OF assms(2)]] by simp
qed

text \<open>A tick whose inputs address live players completes.\<close>

lemma Tick_total:
  assumes "world_ok w" "lives (live w) (qdata (net_in w)) = Some L" "safe w" "short dt"
  shows "\<exists>w'. Tick dt w = Inr w'"
proof -
  have ok: "world_ok (swap_in_queues w)" "live (swap_in_queues w) = live w" using assms(1) by (simp_all add: world_ok_def live_def)
  with stop_players_ok[OF ok(1)] obtain w1 where w1: "stop_players (swap_in_queues w) = Inr w1"
    "world_ok w1" "live w1 = live w" "same_frame (swap_in_queues w) w1" by auto
  have "lives (live w1) (qdata (game_in w1)) = Some L" using w1 assms(2) by (simp add: same_frame_def)
  from process_inputs_refines[OF w1(2) this, of dt] obtain w2 where w2: "process_inputs dt w1 = Inr w2" "world_ok w2" by blast
  have "safe w2" using process_inputs_safe[OF w2(1) _ assms(4)] stop_players_safe[OF w1(1) swap_safe[OF assms(3)]] by blast
  moreover have "\<And>x. x \<in> set (players w2) \<Longrightarrow> snd x \<noteq> None" using w2(2) by (fastforce simp: world_ok_def split: option.splits)
  ultimately obtain w3 where "update_players dt w2 = Inr w3" using update_players_total[OF _ assms(4)] by blast
  with w1(1) w2(1) show ?thesis by (simp add: Tick_def flush_out_eq)
qed

section \<open>Runs\<close>

text \<open>The events other than ticks leave the scene alone.\<close>

definition same_scene :: "System \<Rightarrow> System \<Rightarrow> bool" where
  "same_scene sys sys' \<longleftrightarrow> players sys' = players sys \<and> world_config sys' = world_config sys \<and> tile_map sys' = tile_map sys"

lemma session_scene:
  "same_scene sys (AddSession k sys)" "same_scene sys (CloseSession i sys)" "same_scene sys (PushPacket p sys)"
  "same_scene sys (on_session k f sys)" "same_scene sys (finish k op sys)"
  by (simp_all add: same_scene_def AddSession_def CloseSession_def finish_def Let_def split: option.split)

lemma scene_trans: "same_scene a b \<Longrightarrow> same_scene b c \<Longrightarrow> same_scene a c"
  by (simp add: same_scene_def)

lemma ProcessState_scene: "same_scene sys (ProcessState o1 k sys)"
proof (cases "session_state (obj sys k)")
  case Connected
  then show ?thesis using scene_trans[OF session_scene(1,4)] by (simp add: ProcessState_def)
next
  case Disconnecting
  then show ?thesis using scene_trans[OF scene_trans[OF session_scene(4) session_scene(2)] session_scene(4)]
    by (simp add: ProcessState_def Let_def)
qed (simp_all add: ProcessState_def same_scene_def)

lemma handler_scene:
  "same_scene sys (OnConnection ec sys)" "same_scene sys (OnAccept o1 k ec sys)" "same_scene sys (OnError o1 k sys)"
  "same_scene sys (OnWriteDone o1 k ec sys)"
proof -
  note s = scene_trans[OF session_scene(4) ProcessState_scene]
  show "same_scene sys (OnConnection ec sys)" by (simp add: OnConnection_def same_scene_def)
  show "same_scene sys (OnAccept o1 k ec sys)" unfolding OnAccept_def by (rule s)
  show e: "same_scene sys (OnError o1 k sys)" unfolding OnError_def by (rule s)
  then show "same_scene sys (OnWriteDone o1 k ec sys)" by (simp add: OnWriteDone_def session_scene)
qed

lemma read_scene: "OnReadData k chunk sys = Inr (sys', po) \<Longrightarrow> same_scene sys sys'"
  by (auto simp: OnReadData_def Let_def same_scene_def split: option.splits)

lemma step_scene: "sys_step sys e sys' \<Longrightarrow> \<not> is_tick e \<Longrightarrow> same_scene sys sys'"
proof (induction rule: sys_step.induct)
  case (read_done ptr sys n chunk sys' po)
  then show ?case using scene_trans[OF session_scene(5) read_scene] by blast
next
  case (sent sys sys')
  then obtain p ps where "route p (popped_out ps sys) = Inr sys'"
    by (cases "qdata (net_out sys)") (auto simp: Sender_def WaitAndPop_Cons, simp add: WaitAndPop_def)
  from route_world[OF this] show ?case by (simp add: same_world_def same_scene_def)
qed (use handler_scene scene_trans[OF session_scene(5) handler_scene(2)] scene_trans[OF session_scene(5) handler_scene(3)]
   scene_trans[OF session_scene(5) handler_scene(4)] session_scene in simp_all)

text \<open>Every tick is short.\<close>

definition steady :: "sys_event \<Rightarrow> bool" where
  "steady e \<longleftrightarrow> (case e of Ticked dt \<Rightarrow> short dt | _ \<Rightarrow> True)"

lemma safe_step:
  assumes "sys_step sys e sys'" "steady e" "safe sys"
  shows "safe sys' \<and> world_config sys' = world_config sys"
proof (cases "is_tick e")
  case True
  then obtain dt where "e = Ticked dt" by (auto simp: is_tick_def split: sys_event.splits)
  then have t: "Tick dt sys = Inr sys'" "short dt" using assms(1,2) by (auto simp: steady_def elim: sys_step.cases)
  show ?thesis using Tick_safe[OF t(1) assms(3) t(2)] by simp
next
  case False
  with step_scene[OF assms(1)] assms(3) safe_cong[of sys' sys] show ?thesis by (simp add: same_scene_def)
qed

lemma safe_run:
  "sys_run sys0 evs sys \<Longrightarrow> safe sys0 \<Longrightarrow> list_all steady evs \<Longrightarrow> safe sys \<and> world_config sys = world_config sys0"
  by (induction rule: sys_run.induct) (auto dest: safe_step)

text \<open>
  A configuration whose map is closed: every cell of the border is solid, and a new player stands
  between the walls.
\<close>

definition closed_map :: "GameConfig \<Rightarrow> bool" where
  "closed_map cfg \<longleftrightarrow> fitting cfg \<and> cell_count (grid_x cfg) (grid_y cfg) = Inr (length (map_data cfg)) \<and>
     (\<forall>i j. on_border (unat (grid_x cfg)) (unat (grid_y cfg)) i j \<longrightarrow> map_data cfg ! (j * unat (grid_x cfg) + i) \<noteq> 0) \<and>
     placed cfg (new_player cfg 0)"

lemma room_pos: "room E ext \<Longrightarrow> 0 < E"
proof -
  assume "room E ext"
  then obtain k :: nat where "2 ^ k + uint ext + 32 \<le> E" unfolding room_def by auto
  then show ?thesis using zero_less_power[of "2 :: int" k] uint_u8(1)[of ext] by linarith
qed

lemma fitting_grid:
  assumes "fitting cfg"
  shows "0 < tile_size cfg" "0 < grid_x cfg" "0 < grid_y cfg" "unat (grid_y cfg) < 256"
proof -
  have t: "0 < uint (tile_size cfg)" using assms by (simp add: fitting_def)
  have "0 < wall_x cfg" "0 < wall_y cfg" using assms unfolding fitting_def by (blast intro: room_pos)+
  then have "0 < uint (grid_x cfg) - 1" "0 < uint (grid_y cfg) - 1"
    using zero_less_mult_pos[OF _ t] by (simp_all only: wall_x_def wall_y_def)
  then show "0 < grid_x cfg" "0 < grid_y cfg" by (simp_all add: word_less_def)
  show "0 < tile_size cfg" using t by (simp add: word_less_def)
  have "uint (grid_y cfg) < 256" using assms unfolding fitting_def by blast
  then show "unat (grid_y cfg) < 256" by (simp only: unat_eq_nat_uint nat_less_iff uint_ge_0 of_nat_numeral)
qed

lemma safe_start:
  assumes "closed_map cfg" "system_start cfg = Inr sys"
  shows "safe sys" "world_config sys = cfg"
proof -
  have c: "cell_count (grid_x cfg) (grid_y cfg) = Inr (length (map_data cfg))" "fitting cfg" using assms(1) by (simp_all add: closed_map_def)
  then have len: "length (map_data cfg) = unat (grid_x cfg) * unat (grid_y cfg)"
    by (auto simp: cell_count_def nat_mult_distrib unat_eq_nat_uint[symmetric] split: if_splits)
  from World_new_map[OF c(1) order_refl] obtain u where u: "World_new \<lparr>net_in_queue = TSQueue_new, net_out_queue = TSQueue_new\<rparr>
      \<lparr>game_in_queue = TSQueue_new, game_out_queue = TSQueue_new\<rparr> cfg = Inr u" "world_config u = cfg" "players u = []"
    "grid_map (tile_size cfg) (unat (grid_x cfg)) (unat (grid_y cfg)) (tile_map u)"
    "\<forall>k<length (map_data cfg). tile_type (tile_map u ! k) = (if map_data cfg ! k \<noteq> 0 then Solid else Empty_tile)" by blast
  then have "sys = Server_new u" using assms(2) by (simp add: system_start_def)
  then have w: "world_config sys = cfg" "players sys = []"
    "grid_map (tile_size cfg) (unat (grid_x cfg)) (unat (grid_y cfg)) (tile_map sys)"
    "\<forall>k<length (map_data cfg). tile_type (tile_map sys ! k) = (if map_data cfg ! k \<noteq> 0 then Solid else Empty_tile)"
    using u by (simp_all add: Server_new_def World.defs)
  then show "world_config sys = cfg" by simp
  have "placed cfg (new_player cfg i) = placed cfg (new_player cfg 0)" for i
    by (simp add: placed_def new_player_def Player_new_def)
  moreover have "enclosed sys"
  proof -
    have "tile_type (tile_map sys ! (j * unat (grid_x cfg) + i)) \<noteq> Empty_tile"
      if b: "on_border (unat (grid_x cfg)) (unat (grid_y cfg)) i j" for i j
    proof -
      have "j * unat (grid_x cfg) + i < length (map_data cfg)" using b cell_in_grid len by (simp add: on_border_def)
      moreover have "map_data cfg ! (j * unat (grid_x cfg) + i) \<noteq> 0" using assms(1) b unfolding closed_map_def by blast
      ultimately show ?thesis using w(4) by simp
    qed
    moreover have "world_grid sys" using w(1,3) fitting_grid[OF c(2)] by (simp add: world_grid_def)
    ultimately show ?thesis using c(2) w(1) unfolding enclosed_def by blast
  qed
  moreover have "placed cfg (new_player cfg 0)" using assms(1) unfolding closed_map_def by blast
  ultimately show "safe sys" using w(1,2) by (simp add: safe_def crowd_def)
qed

text \<open>
  C2. On a closed map nobody gets through the walls. In every run of the server whose ticks are at
  most 20 ms long, whatever the clients send and however connections, reads, writes and ticks
  interleave, the coordinates of every player in the world are finite and its box lies between
  the first and the last row and column of tiles.
\<close>

theorem players_stay_inside:
  assumes "closed_map cfg" "system_start cfg = Inr sys0" "sys_run sys0 evs sys" "list_all steady evs"
    and "map_of (players sys) i = Some (Some p)"
  shows "is_fin (GetX p) \<and> of_int (uint (tile_size cfg)) \<le> f64_val (GetX p) \<and>
      f64_val (GetX p) + of_int (uint (pc_width (player_config cfg))) \<le> of_int (wall_x cfg) \<and>
    is_fin (GetY p) \<and> of_int (uint (tile_size cfg)) \<le> f64_val (GetY p) \<and>
      f64_val (GetY p) + of_int (uint (pc_height (player_config cfg))) \<le> of_int (wall_y cfg)"
proof -
  note s = safe_start[OF assms(1,2)]
  have "safe sys" "world_config sys = cfg" using safe_run[OF assms(3) s(1) assms(4)] s(2) by simp_all
  then have "placed cfg p" using crowd_entry[OF _ assms(5)] unfolding safe_def inside_def by blast
  then show ?thesis by (auto simp: placed_def between_walls_def le_diff_eq)
qed

text \<open>
  C3. On a closed map the server survives orderly clients, up to one known race. In every orderly
  run with ticks of at most 20 ms, the next tick returns and leaves exactly the players of the
  connected sessions, every outstanding read completes without fault, and a sender round can fail
  in one way only: the oldest packet is addressed to a session that has left the table.
\<close>

theorem orderly_runs_survive:
  assumes "closed_map cfg" "system_start cfg = Inr sys0" "sys_run sys0 evs sys" "list_all steady evs"
    and "list_all orderly evs" "few_sessions sys" "short dt"
  shows "(\<exists>sys'. Tick dt sys = Inr sys' \<and> live sys' = dom (map_of (sessions sys))) \<and>
    (\<forall>k n chunk. k < length (objects sys) \<longrightarrow> OpRead n \<in> set (ops_of sys k) \<longrightarrow> length chunk \<le> unat n \<longrightarrow>
       (\<exists>sys' po. OnReadData k chunk (finish k (OpRead n) sys) = Inr (sys', po))) \<and>
    (\<forall>f. Sender sys = Some (Inl f) \<longrightarrow> f = NullDeref \<and>
       (\<exists>p ps. qdata (net_out sys) = p # ps \<and> GetType p = Rpc \<and> GetID p \<notin> dom (map_of (sessions sys))))"
proof (intro conjI allI impI)
  note s = safe_start[OF assms(1,2)] and b0 = base_inv_start[OF assms(2)]
  have safe: "safe sys" using safe_run[OF assms(3) s(1) assms(4)] by simp
  have b: "base_inv sys" by (rule base_inv_run[OF assms(3) b0 assms(6)])
  have "play_inv sys" by (rule play_inv_run[OF assms(3) b0 play_inv_start[OF assms(2)] assms(5,6)])
  then have w: "world_ok sys" "lives (live sys) (qdata (net_in sys)) = Some (dom (map_of (sessions sys)))" "Empty (game_in sys)"
    by (simp_all add: play_inv_def Empty_def)
  show "\<exists>sys'. Tick dt sys = Inr sys' \<and> live sys' = dom (map_of (sessions sys))"
    using Tick_total[OF w(1,2) safe assms(7)] tick_result[OF w] by blast
  show "\<exists>sys' po. OnReadData k chunk (finish k (OpRead n) sys) = Inr (sys', po)"
    if "k < length (objects sys)" "OpRead n \<in> set (ops_of sys k)" "length chunk \<le> unat n" for k n chunk
    by (rule read_returns[OF b that])
  fix f
  assume f: "Sender sys = Some (Inl f)"
  then obtain p ps where p: "qdata (net_out sys) = p # ps" "route p (popped_out ps sys) = Inl f"
    by (cases "qdata (net_out sys)") (auto simp: Sender_def WaitAndPop_Cons, simp add: WaitAndPop_def)
  then have n: "GetType p = Rpc" "GetID p \<notin> dom (map_of (sessions sys))"
    using round_delivers[OF base_table[OF b], of p ps] by auto
  then show "f = NullDeref" using Sender_null[OF p(1)] f by simp
  show "\<exists>p ps. qdata (net_out sys) = p # ps \<and> GetType p = Rpc \<and> GetID p \<notin> dom (map_of (sessions sys))"
    using p(1) n by blast
qed

section \<open>The configuration in the repository\<close>

text \<open>The contents of \<open>config.json\<close>, \<open>map.json\<close> and \<open>player.json\<close>.\<close>

definition shipped :: GameConfig where
  "shipped = \<lparr>tick_rate = 60, game_threads = 4, tile_size = 32, grid_x = 25, grid_y = 25, map_data =
    [1, 1, 1, 1, 1, 1, 1, 1, 1, 1, 1, 1, 1, 1, 1, 1, 1, 1, 1, 1, 1, 1, 1, 1, 1,
     1, 0, 0, 0, 0, 0, 0, 0, 1, 1, 0, 0, 0, 1, 0, 0, 0, 0, 0, 0, 1, 1, 0, 0, 1,
     1, 0, 0, 0, 0, 0, 1, 0, 1, 0, 1, 0, 0, 0, 0, 0, 1, 1, 0, 1, 0, 0, 0, 0, 1,
     1, 0, 1, 0, 1, 0, 0, 1, 0, 0, 0, 0, 0, 0, 0, 0, 0, 0, 0, 1, 0, 0, 0, 0, 1,
     1, 1, 0, 0, 0, 0, 1, 0, 1, 0, 0, 1, 0, 0, 1, 0, 0, 0, 0, 0, 0, 0, 1, 0, 1,
     1, 0, 1, 0, 0, 0, 0, 1, 0, 1, 0, 0, 1, 0, 0, 0, 0, 1, 1, 0, 0, 1, 1, 0, 1,
     1, 0, 0, 1, 1, 0, 0, 0, 0, 1, 0, 0, 1, 0, 0, 0, 0, 0, 1, 1, 0, 1, 0, 1, 1,
     1, 0, 0, 0, 1, 1, 0, 0, 1, 0, 0, 0, 0, 1, 0, 0, 0, 0, 1, 0, 1, 1, 1, 0, 1,
     1, 0, 1, 1, 1, 1, 0, 0, 1, 0, 0, 1, 0, 0, 1, 0, 0, 0, 1, 0, 0, 0, 0, 0, 1,
     1, 0, 0, 1, 0, 0, 0, 0, 0, 0, 0, 0, 0, 0, 0, 0, 0, 1, 0, 0, 0, 0, 1, 0, 1,
     1, 0, 1, 0, 0, 0, 0, 0, 1, 0, 0, 0, 1, 0, 0, 0, 0, 1, 0, 0, 0, 0, 0, 0, 1,
     1, 1, 0, 1, 0, 1, 1, 0, 0, 0, 0, 0, 0, 0, 1, 0, 1, 0, 0, 0, 0, 0, 0, 1, 1,
     1, 0, 0, 0, 0, 0, 1, 0, 0, 1, 0, 0, 0, 0, 0, 0, 0, 1, 0, 0, 0, 0, 1, 0, 1,
     1, 0, 1, 0, 0, 0, 1, 0, 0, 0, 1, 0, 0, 0, 0, 1, 1, 0, 0, 0, 0, 0, 0, 0, 1,
     1, 0, 1, 0, 0, 0, 1, 1, 0, 0, 1, 0, 0, 0, 0, 0, 0, 0, 0, 0, 0, 0, 0, 0, 1,
     1, 1, 0, 0, 0, 0, 0, 0, 1, 0, 0, 0, 0, 0, 0, 0, 1, 0, 1, 1, 0, 0, 0, 0, 1,
     1, 0, 0, 0, 0, 0, 0, 0, 0, 0, 1, 0, 0, 0, 1, 0, 1, 0, 1, 0, 1, 0, 0, 1, 1,
     1, 0, 0, 0, 0, 0, 0, 0, 0, 0, 0, 1, 0, 1, 0, 1, 0, 0, 0, 0, 0, 0, 0, 0, 1,
     1, 0, 0, 0, 1, 0, 0, 0, 0, 0, 0, 0, 0, 0, 0, 0, 0, 0, 1, 0, 0, 1, 0, 0, 1,
     1, 0, 0, 0, 0, 1, 0, 0, 0, 0, 0, 1, 1, 0, 1, 0, 1, 0, 0, 0, 0, 0, 1, 0, 1,
     1, 0, 1, 0, 0, 0, 0, 1, 0, 0, 0, 0, 0, 0, 0, 1, 0, 0, 1, 0, 1, 0, 0, 0, 1,
     1, 1, 0, 0, 0, 1, 1, 1, 0, 0, 0, 0, 1, 0, 0, 1, 0, 0, 0, 0, 0, 1, 1, 0, 1,
     1, 1, 0, 0, 1, 0, 0, 0, 0, 0, 0, 0, 0, 0, 0, 0, 0, 1, 1, 0, 0, 1, 1, 0, 1,
     1, 0, 0, 0, 0, 0, 0, 0, 1, 0, 0, 1, 0, 1, 1, 1, 0, 1, 0, 0, 0, 1, 0, 0, 1,
     1, 1, 1, 1, 1, 1, 1, 1, 1, 1, 1, 1, 1, 1, 1, 1, 1, 1, 1, 1, 1, 1, 1, 1, 1],
     player_config = \<lparr>pc_width = 15, pc_height = 25, player_start_x = 1, player_start_y = 1, player_offset = 5\<rparr>\<rparr>"

lemma list_all_grid: "list_all (\<lambda>i. list_all (P i) [0..<m]) [0..<n] \<Longrightarrow> i < n \<Longrightarrow> j < m \<Longrightarrow> P i j"
  by (simp add: list_all_iff)

lemma shipped_border:
  "list_all (\<lambda>i. list_all (\<lambda>j. i = 0 \<or> Suc i = 25 \<or> j = 0 \<or> Suc j = 25 \<longrightarrow> map_data shipped ! (j * 25 + i) \<noteq> 0) [0..<25]) [0..<25]"
  by code_simp

lemma shipped_start:
  "is_fin (start_coord shipped 1)" "32 \<le> f64_val (start_coord shipped 1)" "f64_val (start_coord shipped 1) \<le> 743"
  by code_simp+

lemma shipped_length: "length (map_data shipped) = 625"
  by code_simp

lemma shipped_closed: "closed_map shipped"
proof -
  have s: "tile_size shipped = 32" "grid_x shipped = 25" "grid_y shipped = 25"
    "player_config shipped = \<lparr>pc_width = 15, pc_height = 25, player_start_x = 1, player_start_y = 1, player_offset = 5\<rparr>"
    by (simp_all add: shipped_def)
  have room: "room 768 15" "room 768 25" unfolding room_def by (auto intro!: bexI[of _ 9])
  have "wall_x shipped = 768" "wall_y shipped = 768" by (simp_all add: wall_x_def wall_y_def s)
  moreover from this room have "fitting shipped" by (simp add: fitting_def s)
  moreover have "placed shipped (new_player shipped 0)"
    using shipped_start calculation by (simp add: placed_def between_walls_def new_player_def Player_new_def s)
  moreover have "cell_count (grid_x shipped) (grid_y shipped) = Inr (length (map_data shipped))"
    by (simp add: cell_count_def s shipped_length)
  moreover have "map_data shipped ! (j * unat (grid_x shipped) + i) \<noteq> 0"
    if "on_border (unat (grid_x shipped)) (unat (grid_y shipped)) i j" for i j
  proof -
    have "i < 25" "j < 25" "i = 0 \<or> Suc i = 25 \<or> j = 0 \<or> Suc j = 25" using that by (simp_all add: on_border_def s)
    then have "map_data shipped ! (j * 25 + i) \<noteq> 0"
      using list_all_grid[OF shipped_border, of i j] by blast
    then show ?thesis by (simp add: s)
  qed
  ultimately show ?thesis unfolding closed_map_def by blast
qed

definition frame_time :: f64 where
  "frame_time = f64_lit (1 / 60)"

lemma frame_time_short: "short frame_time"
  unfolding short_def by (intro conjI) code_simp+

text \<open>A run in which a player has entered the world of the repository's map.\<close>

lemma shipped_run:
  obtains sys0 sys p where "system_start shipped = Inr sys0"
    "sys_run sys0 [Connection False, Accepted 0 False, Ticked frame_time] sys" "map_of (players sys) 0 = Some (Some p)"
    "length (objects sys) = 1" "dom (map_of (sessions sys)) = {0}"
proof -
  have "cell_count (grid_x shipped) (grid_y shipped) = Inr (length (map_data shipped))"
    using shipped_closed by (simp add: closed_map_def)
  from World_new_map[OF this order_refl] obtain v where "World_new \<lparr>net_in_queue = TSQueue_new, net_out_queue = TSQueue_new\<rparr>
      \<lparr>game_in_queue = TSQueue_new, game_out_queue = TSQueue_new\<rparr> shipped = Inr v" by blast
  then obtain sys0 where s: "system_start shipped = Inr sys0" by (simp add: system_start_def)
  from first_client[OF s] obtain u where u: "sys_run sys0 [Connection False, Accepted 0 False] u" "objects u = [first_session]"
    "map_of (sessions u) = [0 \<mapsto> Some 0]" "qdata (net_in u) = [sys_packet CreatePlayer 0]" "players u = []" "qdata (game_in u) = []" by metis
  have w: "world_ok u" "live u = {}" using u(5) by (simp_all add: world_ok_def live_def um_wf_def)
  then have l: "lives (live u) (qdata (net_in u)) = Some {0}" using u(4) by simp
  have "safe u" using safe_run[OF u(1) safe_start(1)[OF shipped_closed s]] by (simp add: steady_def)
  from Tick_total[OF w(1) l this frame_time_short] obtain t where t: "Tick frame_time u = Inr t" by blast
  have t': "world_ok t" "live t = {0}" using tick_result[OF w(1) l _ t] u(6) by (simp_all add: Empty_def)
  then have "0 \<in> dom (map_of (players t))" by (simp add: live_def)
  then obtain p where "map_of (players t) 0 = Some (Some p)" using t'(1) unfolding world_ok_iff by blast
  moreover have "sys_run sys0 [Connection False, Accepted 0 False, Ticked frame_time] t"
    using run_snoc[OF u(1) ticked[OF t]] by simp
  ultimately show thesis using that[of sys0 t p] s u(2,3) Tick_system[OF t] by simp
qed

theorem players_stay_inside_witness:
  "\<exists>sys0 sys p. system_start shipped = Inr sys0 \<and>
    sys_run sys0 [Connection False, Accepted 0 False, Ticked frame_time] sys \<and>
    map_of (players sys) 0 = Some (Some p) \<and> 32 \<le> f64_val (GetX p) \<and> f64_val (GetX p) + 15 \<le> of_int (wall_x shipped)"
proof -
  obtain sys0 sys p where r: "system_start shipped = Inr sys0"
    "sys_run sys0 [Connection False, Accepted 0 False, Ticked frame_time] sys" "map_of (players sys) 0 = Some (Some p)"
    by (rule shipped_run)
  have "list_all steady [Connection False, Accepted 0 False, Ticked frame_time]" using frame_time_short by (simp add: steady_def)
  from players_stay_inside[OF shipped_closed r(1,2) this r(3)] r show ?thesis by (auto simp: shipped_def)
qed

theorem orderly_runs_survive_witness:
  "\<exists>sys0 sys sys'. system_start shipped = Inr sys0 \<and>
    sys_run sys0 [Connection False, Accepted 0 False, Ticked frame_time] sys \<and> Tick frame_time sys = Inr sys' \<and> live sys' = {0}"
proof -
  obtain sys0 sys where r: "system_start shipped = Inr sys0"
    "sys_run sys0 [Connection False, Accepted 0 False, Ticked frame_time] sys" "length (objects sys) = 1"
    "dom (map_of (sessions sys)) = {0}" by (rule shipped_run)
  have "list_all steady [Connection False, Accepted 0 False, Ticked frame_time]"
    "list_all orderly [Connection False, Accepted 0 False, Ticked frame_time]" using frame_time_short by (simp_all add: steady_def orderly_def)
  from orderly_runs_survive[OF shipped_closed r(1,2) this _ frame_time_short] r show ?thesis by auto
qed

theorem update_keeps_inside_witness:
  "\<exists>sys0 p' w'. system_start shipped = Inr sys0 \<and> Update (new_player shipped 0) frame_time sys0 = Inr (p', w') \<and>
     inside shipped p'"
proof -
  obtain sys0 where s: "system_start shipped = Inr sys0" by (rule shipped_run)
  note w = safe_start[OF shipped_closed s]
  then have "enclosed sys0" "inside (world_config sys0) (new_player shipped 0)"
    using inside_new[of shipped 0] by (simp_all add: safe_def)
  from update_keeps_inside[OF this frame_time_short] s w(2) show ?thesis by auto
qed

end
