(* ===== verification/Delivery.thy ===== *)
theory Delivery
  imports Failures
begin

text \<open>
  The way from the sender to the sockets. A step of the system is, seen from one session, one of
  seven steps (\<open>sess_step\<close>). With handlers that run to their end no wake-up is lost: a connected
  session with something to send has exactly one write outstanding, and every completed write
  takes the oldest buffer off its stream.
\<close>

section \<open>One session\<close>

text \<open>The labels: whether a write completed, and the buffers pushed.\<close>

inductive sess_step :: "bool \<Rightarrow> u8 list list \<Rightarrow> Session \<Rightarrow> Session \<Rightarrow> bool" where
  sess_same: "sess_step False [] s s"
| sess_accept: "OpAccept \<in> set (sock_ops (session_socket s)) \<Longrightarrow>
    sess_step False [] s (ReadPacketHead (SetState Connected (finished OpAccept s)))"
| sess_shut: "op \<in> set (sock_ops (session_socket s)) \<Longrightarrow> sess_step False [] s (shut o1 (finished op s))"
| sess_read: "OpRead n \<in> set (sock_ops (session_socket s)) \<Longrightarrow>
    sess_step False [] s (next_read ((finished (OpRead n) s)\<lparr>session_reader := r\<rparr>))"
| sess_written: "OpWrite b \<in> set (sock_ops (session_socket s)) \<Longrightarrow>
    sess_step True [] s (OnWrite (finished (OpWrite b) s))"
| sess_closed: "sess_step False [] s (finished OpClose s)"
| sess_push: "sess_step False [b] s (PushToSend b s)"

inductive_cases sess_stepE: "sess_step w bs s s'"

lemma sess_shut_update:
  assumes "j < length (objects sys)" "op \<in> set (ops_of sys j)"
  shows "sess_step False [] (obj sys k) (obj (OnError o1 j (finish j op sys)) k)"
proof (cases "k = j")
  case True
  have j: "j < length (objects (finish j op sys))" using assms(1) by simp
  show ?thesis using sess_shut[OF assms(2), of o1] OnError_effect(1)[OF j, of o1] True assms(1) by (simp add: finish_objects)
next
  case False
  have j: "j < length (objects (finish j op sys))" using assms(1) by simp
  show ?thesis using OnError_effect(1)[OF j, of o1] False sess_same by (simp add: finish_objects)
qed

text \<open>A step of the system projects to a step of each session; the bytes pushed are those of a queued packet.\<close>

lemma step_projects:
  assumes "sys_step sys e sys'" "table_ok sys" "k < length (objects sys)"
  shows "\<exists>bs. sess_step (e = WriteFinished k False) bs (obj sys k) (obj sys' k) \<and>
    set bs \<subseteq> {MakeBuffer (packet p) | p. p \<in> set (qdata (net_out sys))}"
proof -
  let ?P = "\<lambda>w. sess_step w [] (obj sys k) (obj sys' k)"
  have "?P (e = WriteFinished k False) \<or>
    (\<exists>p. sess_step False [MakeBuffer (packet p)] (obj sys k) (obj sys' k) \<and> e = Sent \<and> p \<in> set (qdata (net_out sys)))"
    using assms(1)
  proof cases
    case (connection ec)
    then show ?thesis using assms(3) sess_same by (auto simp: OnConnection_def nth_append)
  next
    case (accepted ptr ec o1)
    have j: "ptr < length (objects (finish ptr OpAccept sys))" using accepted by simp
    show ?thesis
    proof (cases ec)
      case True
      then show ?thesis using accepted sess_shut_update[of ptr sys OpAccept k o1] by (simp add: OnAccept_error)
    next
      case False
      then show ?thesis using accepted OnAccept_effect(1)[OF j, of o1] sess_accept[of "obj sys k"] sess_same[of "obj sys k"]
        by (cases "k = ptr") (simp_all add: finish_objects)
    qed
  next
    case (read_failed ptr n o1)
    then show ?thesis using sess_shut_update[of ptr sys "OpRead n" k o1] by simp
  next
    case (read_done ptr n chunk po)
    have j: "ptr < length (objects (finish ptr (OpRead n) sys))" using read_done by simp
    from OnReadData_effect[OF read_done(5) j] obtain r where
      "objects sys' = (objects (finish ptr (OpRead n) sys))[ptr := next_read ((obj (finish ptr (OpRead n) sys) ptr)\<lparr>session_reader := r\<rparr>)]"
      by metis
    then show ?thesis using read_done sess_read[of n "obj sys k" r] sess_same[of "obj sys k"]
      by (cases "k = ptr") (simp_all add: finish_objects)
  next
    case (write_finished ptr b ec o1)
    show ?thesis
    proof (cases ec)
      case True
      then show ?thesis using write_finished sess_shut_update[of ptr sys "OpWrite b" k o1] by (simp add: OnWriteDone_def)
    next
      case False
      then show ?thesis using write_finished sess_written[of b "obj sys k"] sess_same[of "obj sys k"]
        by (cases "k = ptr") (simp_all add: OnWriteDone_def finish_objects)
    qed
  next
    case (close_finished ptr)
    then show ?thesis using sess_closed[of "obj sys k"] sess_same[of "obj sys k"]
      by (cases "k = ptr") (simp_all add: finish_objects)
  next
    case sent
    obtain p ps where d: "qdata (net_out sys) = p # ps"
      "pushed_to (MakeBuffer (packet p)) {ptr. \<exists>i. map_of (sessions sys) i = Some (Some ptr) \<and> targeted p i} (popped_out ps sys) sys'"
      by (rule sent_delivers[OF assms(2) sent(2)])
    show ?thesis
    proof (cases "\<exists>i. map_of (sessions sys) i = Some (Some k) \<and> targeted p i")
      case True
      with d(2) assms(3) have "obj sys' k = PushToSend (MakeBuffer (packet p)) (obj sys k)" by (auto simp: pushed_to_def)
      then show ?thesis using sess_push[of "MakeBuffer (packet p)" "obj sys k"] d(1) sent(1) by auto
    next
      case False
      with d(2) assms(3) have "obj sys' k = obj sys k" by (auto simp: pushed_to_def)
      then show ?thesis using sess_same[of "obj sys k"] sent(1) by simp
    qed
  next
    case (ticked dt)
    then show ?thesis using sess_same[of "obj sys k"] Tick_system(2)[OF ticked(2)] by simp
  qed
  then show ?thesis by (elim disjE exE conjE) (rule exI[of _ "[]"], simp, rule exI, rule conjI, simp, auto)
qed


section \<open>No lost wake-up\<close>

text \<open>
  Unless the session is closed: as many writes outstanding as the flag says, and buffers queued
  only while a write is outstanding.
\<close>

definition writes_ok :: "Session \<Rightarrow> bool" where
  "writes_ok s \<longleftrightarrow> session_state s = Disconnected \<or>
     (length (op_writes (sock_ops (session_socket s))) = (if sending s then 1 else 0) \<and>
      (qdata (out_queue s) \<noteq> [] \<longrightarrow> sending s))"

lemma op_writes_remove [simp]:
  "(\<And>b. op \<noteq> OpWrite b) \<Longrightarrow> op_writes (remove1 op ops) = op_writes ops"
  "op_writes (remove1 (OpWrite b) ops) = remove1 b (op_writes ops)"
  by (induction ops rule: op_writes.induct) auto

lemma Send_idle:
  assumes "IsConnected s" "\<not> sending s" "qdata (out_queue s) = b # bs"
  shows "Send s = s\<lparr>sending := True, out_queue := \<lparr>qdata = bs\<rparr>, session_socket := WSSocket_async_write b (session_socket s)\<rparr>"
  using assms by (simp add: Send_def Empty_def StartSending_def TryPop_Cons)

lemma Send_busy: "sending s \<Longrightarrow> Send s = s" and Send_empty: "qdata (out_queue s) = [] \<Longrightarrow> Send s = s"
  by (simp_all add: Send_def StartSending_def Empty_def)

lemma writes_ok_Send:
  assumes "session_state s \<noteq> Disconnected" "length (op_writes (sock_ops (session_socket s))) = (if sending s then 1 else 0)"
  shows "writes_ok (Send s)"
proof (cases "sending s \<or> qdata (out_queue s) = []")
  case True
  with assms show ?thesis by (auto simp: writes_ok_def Send_busy Send_empty)
next
  case False
  then obtain b bs where "qdata (out_queue s) = b # bs" by (meson list.exhaust)
  from Send_idle[OF _ _ this] False assms show ?thesis by (simp add: writes_ok_def IsConnected_def ws.write_ops)
qed

lemma OnWrite_Send: "OnWrite s = Send (StopSending s)"
  by (simp add: OnWrite_def Let_def StopSending_def Empty_def Send_empty)

lemma sess_ok_connecting: "sess_ok s \<Longrightarrow> OpAccept \<in> set (sock_ops (session_socket s)) \<Longrightarrow> session_state s = Connecting"
  by (auto simp: sess_ok_def op_ok_def)

lemma writes_ok_step:
  assumes "sess_step w bs s s'" "writes_ok s" "sess_ok s"
  shows "writes_ok s'"
  using assms(1)
proof cases
  case sess_accept
  with sess_ok_connecting[OF assms(3)] assms(2) show ?thesis
    by (simp add: writes_ok_def ReadPacketHead_def SetState_def ws.read_ops)
next
  case (sess_shut op o1)
  then show ?thesis by (simp add: writes_ok_def)
next
  case (sess_read n r)
  then show ?thesis using assms(2) by (simp add: writes_ok_def next_read_eq ws.read_ops)
next
  case (sess_written b)
  show ?thesis
  proof (cases "session_state s = Disconnected")
    case True
    then show ?thesis using sess_written by (simp add: writes_ok_def)
  next
    case False
    with assms(2) sess_written have "op_writes (sock_ops (session_socket s)) = [b]"
      by (cases "op_writes (sock_ops (session_socket s))") (auto simp: writes_ok_def simp flip: op_writes_set split: if_splits)
    with False sess_written show ?thesis by (simp add: OnWrite_Send) (rule writes_ok_Send, simp_all add: StopSending_def)
  qed
next
  case (sess_push b)
  show ?thesis
  proof (cases "session_state s = Disconnected")
    case False
    with assms(2) sess_push show ?thesis by (simp add: PushToSend_def) (rule writes_ok_Send, simp_all add: writes_ok_def)
  qed (simp add: sess_push writes_ok_def)
qed (use assms(2) in \<open>simp_all add: writes_ok_def\<close>)

text \<open>A session leaves \<open>Connected\<close> for good, and a completed write takes the oldest buffer off the stream.\<close>

lemma sess_step_state:
  assumes "sess_step w bs s s'" "sess_ok s"
  shows "session_state s = Disconnected \<Longrightarrow> session_state s' = Disconnected"
    "session_state s = Connected \<Longrightarrow> session_state s' \<in> {Connected, Disconnected}"
  using assms sess_ok_connecting[OF assms(2)] by (auto elim!: sess_stepE simp: SetState_def)

lemma sess_step_stream:
  assumes "sess_step w bs s s'" "writes_ok s" "session_state s' = Connected" "session_state s = Connected"
  shows "out_stream s' = drop (if w then 1 else 0) (out_stream s @ bs) \<and> (w \<longrightarrow> out_stream s \<noteq> [])"
  using assms(1)
proof cases
  case (sess_written b)
  with assms(2,4) have "op_writes (sock_ops (session_socket s)) = [b]"
    by (cases "op_writes (sock_ops (session_socket s))") (auto simp: writes_ok_def simp flip: op_writes_set split: if_splits)
  with sess_written show ?thesis by (simp add: OnWrite_Send Send_stream) (simp add: out_stream_def StopSending_def)
next
  case sess_accept
  then show ?thesis by (simp add: out_stream_def ReadPacketHead_def SetState_def ws.read_ops)
next
  case (sess_read n r)
  then show ?thesis by (simp add: out_stream_def next_read_eq ws.read_ops)
next
  case (sess_push b)
  then show ?thesis by (simp add: PushToSend_stream)
qed (use assms(3) in \<open>simp_all add: out_stream_def\<close>)


section \<open>Runs\<close>

definition all_writes_ok :: "System \<Rightarrow> bool" where
  "all_writes_ok sys \<longleftrightarrow> (\<forall>k < length (objects sys). writes_ok (obj sys k))"

lemma new_object:
  assumes "sys_step sys e sys'" "k < length (objects sys')" "\<not> k < length (objects sys)"
  shows "obj sys' k = Session_Run (Session_new (new_session_id sys))"
  using assms(1)
proof cases
  case (connection ec)
  with assms(2,3) show ?thesis by (cases ec) (simp_all add: OnConnection_objects nth_append less_Suc_eq)
qed (use assms(2,3) old_objects[OF assms(1)] in auto)

lemma all_writes_ok_step:
  assumes "sys_step sys e sys'" "base_inv sys" "all_writes_ok sys"
  shows "all_writes_ok sys'"
  unfolding all_writes_ok_def
proof (intro allI impI)
  fix k assume k: "k < length (objects sys')"
  show "writes_ok (obj sys' k)"
  proof (cases "k < length (objects sys)")
    case True
    from step_projects[OF assms(1) base_table[OF assms(2)] True] obtain w bs where
      "sess_step w bs (obj sys k) (obj sys' k)" by blast
    from writes_ok_step[OF this] show ?thesis using assms(2,3) True by (simp add: all_writes_ok_def base_inv_def)
  next
    case False
    have "writes_ok (Session_Run (Session_new i))" for i
      by (simp add: writes_ok_def Session_Run_def Session_new_def socket_defs TSQueue_new_def)
    then show ?thesis using new_object[OF assms(1) k False] by simp
  qed
qed

lemma all_writes_ok_run:
  "sys_run sys0 evs sys \<Longrightarrow> base_inv sys0 \<Longrightarrow> few_sessions sys \<Longrightarrow> all_writes_ok sys0 \<Longrightarrow> all_writes_ok sys"
proof (induction rule: sys_run.induct)
  case (run_snoc sys evs sys' e sys'')
  have few: "few_sessions sys'" using step_grows[OF run_snoc(2)] run_snoc.prems(2) by simp
  with run_snoc all_writes_ok_step[OF run_snoc(2)] base_inv_run[OF run_snoc(1) run_snoc.prems(1) few] show ?case by simp
qed

lemma all_writes_ok_start: "system_start cfg = Inr sys \<Longrightarrow> all_writes_ok sys"
  by (auto simp: system_start_def World_new_def Server_new_def World.defs all_writes_ok_def)

text \<open>A session that is connected at both ends of a run: the buffers it sent come off its stream in order.\<close>

lemma stream_run:
  assumes "sys_run sys evs sys'" "base_inv sys" "all_writes_ok sys" "few_sessions sys'" "k < length (objects sys)"
    and "session_state (obj sys k) = Connected"
  shows "session_state (obj sys' k) = Disconnected \<or>
    session_state (obj sys' k) = Connected \<and>
    (\<exists>new. count_list evs (WriteFinished k False) \<le> length (out_stream (obj sys k) @ new) \<and>
       out_stream (obj sys' k) = drop (count_list evs (WriteFinished k False)) (out_stream (obj sys k) @ new))"
  using assms
proof (induction rule: sys_run.induct)
  case (run_nil sys)
  then show ?case by (intro disjI2 conjI exI[of _ "[]"]) simp_all
next
  case (run_snoc sys evs sys' e sys'')
  have few: "few_sessions sys'" using step_grows[OF run_snoc(2)] run_snoc.prems(3) by simp
  have k: "k < length (objects sys')" using run_grows[OF run_snoc(1)] run_snoc.prems(4) by simp
  have inv: "base_inv sys'" "all_writes_ok sys'"
    using base_inv_run[OF run_snoc(1)] all_writes_ok_run[OF run_snoc(1)] run_snoc.prems few by simp_all
  then have s: "sess_ok (obj sys' k)" "writes_ok (obj sys' k)" using k by (simp_all add: base_inv_def all_writes_ok_def)
  from step_projects[OF run_snoc(2) base_table[OF inv(1)] k] obtain bs where
    st: "sess_step (e = WriteFinished k False) bs (obj sys' k) (obj sys'' k)" by blast
  note state = sess_step_state[OF st s(1)]
  from run_snoc.IH[OF run_snoc.prems(1,2) few run_snoc.prems(4,5)] show ?case
  proof (elim disjE conjE exE)
    fix new
    let ?c = "count_list evs (WriteFinished k False)" and ?w = "if e = WriteFinished k False then 1 else 0 :: nat"
    assume c: "session_state (obj sys' k) = Connected" "?c \<le> length (out_stream (obj sys k) @ new)"
      "out_stream (obj sys' k) = drop ?c (out_stream (obj sys k) @ new)"
    show ?thesis
    proof (cases "session_state (obj sys'' k) = Connected")
      case True
      note d = sess_step_stream[OF st s(2) True c(1)]
      then have "?c + ?w \<le> length (out_stream (obj sys k) @ new @ bs)" using c(2,3) by (auto simp: Suc_le_eq)
      moreover have "out_stream (obj sys'' k) = drop (?c + ?w) (out_stream (obj sys k) @ new @ bs)"
        using d drop_drop_append[OF c(2), of ?w bs] c(3) by (simp only: append.assoc)
      moreover have "count_list (evs @ [e]) (WriteFinished k False) = ?c + ?w" by simp
      ultimately show ?thesis using True by (intro disjI2 conjI exI[of _ "new @ bs"]) (simp_all only:)
    qed (use state(2)[OF c(1)] in blast)
  qed (use state(1) in blast)
qed

text \<open>
  C13. As long as no two threads are inside \<open>Send\<close> of one session at a time, what is queued for a
  connected session gets written. In every run of \<open>sys_step\<close>, where the completion handlers and
  the sender rounds, and so \<open>Send\<close> and \<open>OnWrite\<close>, run to their end one after the other, a session
  that stays connected has exactly one write outstanding while it has anything to send, whose
  completion is possible, and none otherwise; and after \<open>n\<close> completed writes the first \<open>n\<close> buffers
  of its stream, the old ones before the new ones, have left it, so everything queued is written
  after as many completions as there were buffers. Without that assumption a session can stall:
  see \<open>send_can_stall\<close> in \<open>Session\<close>, where calls of \<open>Send\<close> overlap.
\<close>

theorem queued_buffers_get_written:
  assumes "system_start cfg = Inr sys0" "sys_run sys0 evs0 sys" "sys_run sys evs sys'" "few_sessions sys'"
    and "k < length (objects sys)" "session_state (obj sys k) = Connected" "session_state (obj sys' k) = Connected"
  shows "op_writes (ops_of sys' k) = take 1 (out_stream (obj sys' k)) \<and>
    (out_stream (obj sys' k) \<noteq> [] \<longrightarrow> (\<exists>sys''. sys_step sys' (WriteFinished k False) sys'')) \<and>
    (\<exists>new. count_list evs (WriteFinished k False) \<le> length (out_stream (obj sys k) @ new) \<and>
       out_stream (obj sys' k) = drop (count_list evs (WriteFinished k False)) (out_stream (obj sys k) @ new))"
proof -
  have few: "few_sessions sys" using run_grows[OF assms(3)] assms(4) by simp
  note b = base_inv_start[OF assms(1)] all_writes_ok_start[OF assms(1)]
  have inv: "base_inv sys" "all_writes_ok sys"
    using base_inv_run[OF assms(2) b(1) few] all_writes_ok_run[OF assms(2) b(1) few b(2)] .
  have k: "k < length (objects sys')" using run_grows[OF assms(3)] assms(5) by simp
  have "writes_ok (obj sys' k)"
    using all_writes_ok_run[OF assms(3) inv(1) assms(4) inv(2)] k by (simp add: all_writes_ok_def)
  then have w: "op_writes (ops_of sys' k) = take 1 (out_stream (obj sys' k))"
    using assms(7) by (cases "op_writes (ops_of sys' k)") (auto simp: writes_ok_def out_stream_def split: if_splits)
  moreover have "\<exists>sys''. sys_step sys' (WriteFinished k False) sys''" if ne: "out_stream (obj sys' k) \<noteq> []"
  proof -
    obtain x where "x \<in> set (op_writes (ops_of sys' k))" using w ne by (cases "out_stream (obj sys' k)") auto
    then show ?thesis using write_finished[OF k, of x False True] by (auto simp: op_writes_set)
  qed
  ultimately show ?thesis using stream_run[OF assms(3) inv assms(4-6)] assms(7) by simp
qed


theorem queued_buffers_get_written_witness:
  "\<exists>sys0 sys sys' b. system_start wit_cfg = Inr sys0 \<and> sys_run sys0 sent_events sys \<and> sys_run sys [WriteFinished 0 False] sys' \<and>
     out_stream (obj sys 0) = [b] \<and> op_writes (ops_of sys' 0) = take 1 (out_stream (obj sys' 0))"
proof -
  obtain sys0 where s: "system_start wit_cfg = Inr sys0" using wit_start by blast
  obtain u b where u: "sys_run sys0 sent_events u" "objects u = [PushToSend b first_session]" by (rule sent_run[OF s])
  note pi = push_idle[OF first_session_facts(1,3,4), of b]
  have "out_stream first_session = []" by (simp add: out_stream_def first_session_facts)
  then have o1: "out_stream (obj u 0) = [b]" using u(2) by (simp add: PushToSend_stream)
  let ?e = "OnWriteDone True 0 False (finish 0 (OpWrite b) u)"
  have "sys_step u (WriteFinished 0 False) ?e"
    by (rule write_finished) (use pi u in \<open>simp_all add: first_session_facts\<close>)
  then have r: "sys_run u [WriteFinished 0 False] ?e" using run_snoc[OF run_nil, of u "WriteFinished 0 False" ?e] by simp
  have "session_state (obj ?e 0) = Connected" "length (objects ?e) = 1"
    using u(2) pi by (simp_all add: OnWriteDone_def finish_objects)
  then have "op_writes (ops_of ?e 0) = take 1 (out_stream (obj ?e 0))"
    using queued_buffers_get_written[OF s u(1) r, of 0] u(2) pi by (simp add: first_session_facts)
  with s u(1) r o1 show ?thesis by blast
qed

end
