(* ===== verification/Outputs.thy ===== *)
theory Outputs
  imports Delivery Inputs
begin

text \<open>
  The packets the server sends: how large the spawn packet gets, and that with at most five
  sessions every queued packet and every buffer handed to a session is a frame that the
  receiver's header check accepts.
\<close>

section \<open>The spawn packet\<close>

lemma length_player_bytes [simp]: "length (player_bytes p) = 26"
  by (simp add: player_bytes_def)

lemma spawn_entries:
  "rfold (\<lambda>(k, e) np. if k \<noteq> i then (case e of None \<Rightarrow> Inl NullDeref | Some p \<Rightarrow> Inr (put_player p np)) else Inr np) ps np0 = Inr np \<Longrightarrow>
   length (others i ps) = length (filter (\<lambda>x. fst x \<noteq> i) ps)"
  by (induction ps arbitrary: np0) (auto simp: others_def split: if_splits option.splits)

lemma length_concat_const: "(\<And>x. x \<in> set xs \<Longrightarrow> length (f x) = n) \<Longrightarrow> length (concat (map f xs)) = n * length xs"
  by (induction xs) simp_all

lemma length_other_keys:
  assumes "um_wf ps"
  shows "length (filter (\<lambda>x. fst x \<noteq> i) ps) = card (dom (map_of ps) - {i})"
proof -
  have d: "distinct (map fst (filter (\<lambda>x. fst x \<noteq> i) ps))" using assms by (simp add: um_wf_def distinct_map_filter)
  have "length (filter (\<lambda>x. fst x \<noteq> i) ps) = card (set (map fst (filter (\<lambda>x. fst x \<noteq> i) ps)))"
    using distinct_card[OF d] by simp
  also have "set (map fst (filter (\<lambda>x. fst x \<noteq> i) ps)) = dom (map_of ps) - {i}"
    by (auto simp: dom_map_of_conv_image_fst)
  finally show ?thesis .
qed

lemma spawn_packet_size:
  assumes "spawn_packet i ps = Inr np" "um_wf ps"
  shows "\<exists>b. body np = Some b \<and> length b = 8 + 26 * card (dom (map_of ps) - {i})" "GetHeadOpcode np = to_uint16 SpawnPlayers" "packet_ok np"
proof -
  have "length (concat (map player_bytes (others i ps))) = 26 * card (dom (map_of ps) - {i})"
    using spawn_entries[OF assms(1)[unfolded spawn_packet_def]] length_other_keys[OF assms(2)] by (simp add: length_concat_const)
  with spawn_packet_layout[OF assms(1)] show "\<exists>b. body np = Some b \<and> length b = 8 + 26 * card (dom (map_of ps) - {i})"
    "GetHeadOpcode np = to_uint16 SpawnPlayers" "packet_ok np" by simp_all
qed

lemma sendable_iff:
  assumes "body p = Some b" "packet_ok p" "GetHeadOpcode p < kMaxOpcode" "length b < 2 ^ 32"
  shows "sendable p \<longleftrightarrow> length b < 128"
proof
  assume "sendable p"
  then have "GetHeadSize p < kMaxPayloadSize" "GetHeadSize p = of_nat (length b)"
    using assms by (auto simp: sendable_def IsValidHeader_iff packet_ok_def GetBodySize_def)
  then show "length b < 128" using assms(4) by (simp add: kMaxPayloadSize_def word_less_nat_alt unat_of_nat)
qed (rule sendableI[OF assms(1-3)])

lemma spawn_sendable:
  assumes "spawn_packet i ps = Inr np" "um_wf ps" "card (dom (map_of ps) - {i}) < 2 ^ 27"
  shows "sendable np \<longleftrightarrow> card (dom (map_of ps) - {i}) \<le> 4"
proof -
  obtain b where b: "body np = Some b" "length b = 8 + 26 * card (dom (map_of ps) - {i})" using spawn_packet_size(1)[OF assms(1,2)] by blast
  have "GetHeadOpcode np < kMaxOpcode" using spawn_packet_size(2)[OF assms(1,2)] by (simp add: kMaxOpcode_def)
  from sendable_iff[OF b(1) spawn_packet_size(3)[OF assms(1,2)] this] show ?thesis using b(2) assms(3) by auto
qed

text \<open>
  C24. The spawn packet outgrows the protocol: its body has 8 bytes and 26 for every other player,
  so it passes the header check of the protocol, which allows less than 128 bytes, exactly up to
  four other players. The sixth player to join is sent a packet whose header says more than
  the check accepts.
\<close>

theorem spawn_packet_limit:
  assumes "um_wf (players w)" "World_AddPlayer p w = Inr w'" "card (live w - {player_id p}) < 2 ^ 27"
  shows "\<exists>spawn b. ServerPacket_new spawn (player_id p) Rpc \<in> set (qdata (game_out w')) \<and>
    GetHeadOpcode spawn = to_uint16 SpawnPlayers \<and> body spawn = Some b \<and>
    length b = 8 + 26 * card (live w - {player_id p}) \<and>
    (sendable spawn \<longleftrightarrow> card (live w - {player_id p}) \<le> 4)"
proof -
  define ps where "ps = AList.update (player_id p) (Some p) (players w)"
  obtain np where np: "spawn_packet (player_id p) ps = Inr np"
    "ServerPacket_new np (player_id p) Rpc \<in> set (qdata (game_out w'))"
    using assms(2) by (auto simp: World_AddPlayer_def Let_def ps_def)
  have wf: "um_wf ps" using assms(1) by (simp add: ps_def um.invar_store)
  have d: "dom (map_of ps) - {player_id p} = live w - {player_id p}" by (auto simp: ps_def live_def update_conv')
  obtain b where "body np = Some b" "length b = 8 + 26 * card (live w - {player_id p})"
    using spawn_packet_size(1)[OF np(1) wf] d by auto
  with np(2) spawn_packet_size(2)[OF np(1) wf] spawn_sendable[OF np(1) wf] assms(3) show ?thesis unfolding d by blast
qed


section \<open>The world's packets\<close>

text \<open>Players under distinct keys of \<open>N\<close>, and only acceptable packets queued.\<close>

definition tidy :: "size_t set \<Rightarrow> 'a World_scheme \<Rightarrow> bool" where
  "tidy N w \<longleftrightarrow> um_wf (players w) \<and> live w \<subseteq> N \<and> (\<forall>p \<in> set (qdata (game_out w)). sendable (packet p))"

lemma tidy_push_out: "sendable p \<Longrightarrow> tidy N w \<Longrightarrow> tidy N (push_out (ServerPacket_new p i t) w)"
  by (simp add: tidy_def live_def)

lemma tidy_players: "tidy N w \<Longrightarrow> i \<in> N \<Longrightarrow> tidy N (w\<lparr>players := AList.update i e (players w)\<rparr>)"
  by (auto simp: tidy_def live_def um.invar_store update_conv')

lemma tidy_erase: "tidy N w \<Longrightarrow> tidy N (w\<lparr>players := AList.delete i (players w)\<rparr>)"
  by (auto simp: tidy_def live_def um.invar_erase delete_conv')

lemma tidy_touch: "tidy N w \<Longrightarrow> i \<in> N \<Longrightarrow> tidy N (w\<lparr>players := um_touch e i (players w)\<rparr>)"
  using tidy_players[of N w i e] by (auto simp: um_touch_def split: option.splits)

lemma tidy_with_player: "with_player i f w = Inr w' \<Longrightarrow> tidy N w \<Longrightarrow> tidy N w'"
proof -
  assume w: "with_player i f w = Inr w'" "tidy N w"
  then have "i \<in> N" by (auto simp: with_player_def tidy_def live_def split: option.splits)
  with w tidy_players[of N w i] show ?thesis by (auto simp: with_player_def split: option.splits)
qed

lemma tidy_RemovePlayer: "tidy N w \<Longrightarrow> tidy N (World_RemovePlayer i w)"
  by (simp add: World_RemovePlayer_def tidy_push_out tidy_erase builders_sendable)

lemma tidy_AddPlayer:
  assumes "World_AddPlayer p w = Inr w'" "tidy N w" "player_id p \<in> N" "finite N" "card N \<le> 5"
  shows "tidy N w'"
proof -
  let ?ps = "AList.update (player_id p) (Some p) (players w)"
  obtain np where np: "spawn_packet (player_id p) ?ps = Inr np"
    "w' = push_out (ServerPacket_new (AddPlayerPacket (player_id p) (GetX p) (GetY p) (GetWidth p) (GetHeight p)) (player_id p) RpcOthers)
      (push_out (ServerPacket_new np (player_id p) Rpc)
        (push_out (ServerPacket_new (CreatePlayerPacket (player_id p) (GetX p) (GetY p) (GetWidth p) (GetHeight p)) (player_id p) Rpc)
          (w\<lparr>players := ?ps\<rparr>)))"
    using assms(1) by (auto simp: World_AddPlayer_def Let_def)
  have wf: "um_wf ?ps" using assms(2) by (simp add: tidy_def um.invar_store)
  have "dom (map_of ?ps) \<subseteq> N" using assms(2,3) by (auto simp: tidy_def live_def update_conv')
  then have "card (dom (map_of ?ps) - {player_id p}) \<le> card (N - {player_id p})" using assms(4) by (intro card_mono) auto
  also have "\<dots> \<le> 4" using assms(3-5) by simp
  finally have "card (dom (map_of ?ps) - {player_id p}) \<le> 4" .
  then have "sendable np" using spawn_sendable[OF np(1) wf] by simp
  with np(2) assms(2,3) show ?thesis by (simp add: tidy_push_out tidy_players builders_sendable)
qed

lemma tidy_ProcessInput:
  assumes "ProcessInput sp dt w = Inr w'" "tidy N w" "GetID sp \<in> N" "finite N" "card N \<le> 5"
  shows "tidy N w'"
proof -
  let ?w = "w\<lparr>players := um_touch None (GetID sp) (players w)\<rparr>"
  have t: "tidy N ?w" by (rule tidy_touch[OF assms(2,3)])
  have "player_id (new_player c (GetID sp)) = GetID sp" for c by (simp add: new_player_def Player_new_def)
  then have "World_AddPlayer (new_player c (GetID sp)) ?w = Inr w' \<Longrightarrow> tidy N w'" for c
    using tidy_AddPlayer[OF _ t _ assms(4,5), of "new_player c (GetID sp)" w'] assms(3) by simp
  with assms(1) t show ?thesis
    by (auto simp: ProcessInput_def Let_def tidy_RemovePlayer dest: tidy_with_player split: Opcodes.splits)
qed

lemma tidy_game_in [simp]: "tidy N (set_game_in q w) = tidy N w" "tidy N (swap_in_queues w) = tidy N w"
  by (simp_all add: tidy_def live_def)

lemma tidy_process_inputs:
  "process_inputs dt w = Inr w' \<Longrightarrow> tidy N w \<Longrightarrow> \<forall>p \<in> set (qdata (game_in w)). GetID p \<in> N \<Longrightarrow> finite N \<Longrightarrow> card N \<le> 5 \<Longrightarrow> tidy N w'"
proof (induction "qdata (game_in w)" arbitrary: w)
  case Nil
  then show ?case by (simp add: process_inputs_Nil)
next
  case (Cons sp sps)
  note q = Cons.hyps(2)[symmetric]
  from Cons.prems process_inputs_Cons[OF q, of dt] obtain w1 where
    w1: "ProcessInput sp dt (set_game_in \<lparr>qdata = sps\<rparr> w) = Inr w1" "process_inputs dt w1 = Inr w'" by auto
  then have g: "sps = qdata (game_in w1)" using ProcessInput_game_in[OF w1(1)] by simp
  have "tidy N w1" by (rule tidy_ProcessInput[OF w1(1)]) (use Cons.prems q in simp_all)
  from Cons.hyps(1)[OF g w1(2) this] Cons.prems q g show ?case by simp
qed

lemma tidy_Tick:
  assumes "Tick dt w = Inr w'" "tidy N w" "\<forall>p \<in> set (qdata (net_in w)). GetID p \<in> N" "finite N" "card N \<le> 5"
  shows "tidy N w' \<and> (\<forall>p \<in> set (qdata (net_out w')). sendable (packet p) \<or> p \<in> set (qdata (net_out w)))"
proof -
  from assms(1) obtain w1 w2 w3 where w: "stop_players (swap_in_queues w) = Inr w1" "process_inputs dt w1 = Inr w2"
    "update_players dt w2 = Inr w3" "flush_out w3 = Inr w'" by (auto simp: Tick_def)
  have "tidy N w1 \<and> game_in w1 = game_in (swap_in_queues w) \<and> net_subsystem w1 = net_subsystem (swap_in_queues w)"
    by (rule rfold_invariant[OF w(1)[unfolded stop_players_def]])
      (use assms(2) in \<open>auto dest: tidy_with_player with_player_net simp: with_player_def split: option.splits\<close>)
  then have w1: "tidy N w1" "game_in w1 = game_in (swap_in_queues w)" "net_subsystem w1 = net_subsystem (swap_in_queues w)" by simp_all
  have "tidy N w2" by (rule tidy_process_inputs[OF w(2) w1(1)]) (use w1(2) assms(3-5) in \<open>simp_all\<close>)
  have "tidy N w3 \<and> live w2 \<subseteq> N"
  proof (rule rfold_invariant[OF w(3)[unfolded update_players_steps], of "\<lambda>u. tidy N u \<and> live w2 \<subseteq> N"])
    show "tidy N w2 \<and> live w2 \<subseteq> N" using \<open>tidy N w2\<close> by (simp add: tidy_def)
    show "tidy N t \<and> live w2 \<subseteq> N" if "x \<in> set (players w2)" "tidy N u \<and> live w2 \<subseteq> N" "update_step dt x u = Inr t" for x u t
    proof -
      have "fst x \<in> live w2" using that(1) by (simp add: live_def dom_map_of_conv_image_fst)
      with that(2,3) show ?thesis
        by (auto simp: update_step_def move_packet_def builders_sendable intro!: tidy_push_out tidy_players split: option.splits)
    qed
  qed
  then have "tidy N w3" by simp
  moreover have "net_out w3 = net_out w"
    using w1(3) process_inputs_more[OF w(2)] update_players_more[OF w(3)] by simp
  ultimately show ?thesis using w(4) by (auto simp: flush_out_eq set_out_queues_def tidy_def live_def)
qed


section \<open>Every run\<close>

definition ids :: "System \<Rightarrow> size_t set" where
  "ids sys = of_nat ` {..<length (objects sys)}"

definition frames_only :: "u8 list list \<Rightarrow> bool" where
  "frames_only bs \<longleftrightarrow> set bs \<subseteq> MakeBuffer ` {p. sendable p}"

definition out_inv :: "System \<Rightarrow> bool" where
  "out_inv sys \<longleftrightarrow> tidy (ids sys) sys \<and> qdata (game_in sys) = [] \<and> (\<forall>p \<in> set (qdata (net_in sys)). GetID p \<in> ids sys) \<and>
     (\<forall>p \<in> set (qdata (net_out sys)). sendable (packet p)) \<and>
     (\<forall>k < length (objects sys). frames_only (out_stream (obj sys k)))"

lemma ids_card: "finite (ids sys)" "card (ids sys) \<le> length (objects sys)"
  using card_image_le[of "{..<length (objects sys)}" "of_nat :: nat \<Rightarrow> size_t"] by (simp_all add: ids_def)

text \<open>What a step other than a tick does to the world: it may queue inputs under ids of sessions.\<close>

lemma step_world:
  assumes "sys_step sys e sys'" "base_inv sys" "\<not> is_tick e"
  shows "players sys' = players sys \<and> game_subsystem sys' = game_subsystem sys \<and>
    set (qdata (net_out sys')) \<subseteq> set (qdata (net_out sys)) \<and>
    (\<forall>p \<in> set (qdata (net_in sys')). p \<in> set (qdata (net_in sys)) \<or> GetID p \<in> ids sys)"
proof -
  have i: "session_id (obj (finish j op sys) j) \<in> ids sys" if "j < length (objects sys)" for j op
    using assms(2) that by (simp add: base_inv_def finish_objects ids_def)
  have shut: ?thesis if "sys' = OnError o1 j (finish j op sys)" "j < length (objects sys)" for o1 j op
  proof -
    have j: "j < length (objects (finish j op sys))" using that(2) by simp
    from OnError_effect(5-8)[OF j, of o1] i[OF that(2)] that(1) show ?thesis by (auto simp: sys_packet_def GetID_def)
  qed
  show ?thesis
    using assms(1)
  proof cases
    case (connection ec)
    then show ?thesis by (simp add: OnConnection_def)
  next
    case (accepted ptr ec o1)
    show ?thesis
    proof (cases ec)
      case True
      with shut[of o1 ptr OpAccept] accepted show ?thesis by (simp add: OnAccept_error)
    next
      case False
      have j: "ptr < length (objects (finish ptr OpAccept sys))" using accepted by simp
      from OnAccept_effect(5-8)[OF j, of o1] i[OF accepted(3), of OpAccept] False accepted show ?thesis
        by (auto simp: sys_packet_def GetID_def)
    qed
  next
    case (read_failed ptr n o1)
    with shut[of o1 ptr "OpRead n"] show ?thesis by simp
  next
    case (read_done ptr n chunk po)
    have j: "ptr < length (objects (finish ptr (OpRead n) sys))" using read_done by simp
    show ?thesis
      by (rule OnReadData_effect[OF read_done(5) j]) (use i[OF read_done(2), of "OpRead n"] in \<open>auto simp: GetID_def split: option.splits\<close>)
  next
    case (write_finished ptr b ec o1)
    show ?thesis
    proof (cases ec)
      case True
      with shut[of o1 ptr "OpWrite b"] write_finished show ?thesis by (simp add: OnWriteDone_def)
    qed (use write_finished in \<open>simp add: OnWriteDone_def\<close>)
  next
    case (close_finished ptr)
    then show ?thesis by simp
  next
    case sent
    obtain p ps where "qdata (net_out sys) = p # ps"
      "pushed_to (MakeBuffer (packet p)) {ptr. \<exists>i. map_of (sessions sys) i = Some (Some ptr) \<and> targeted p i} (popped_out ps sys) sys'"
      by (rule sent_delivers[OF base_table[OF assms(2)] sent(2)])
    then show ?thesis by (auto simp: pushed_to_def same_world_def)
  next
    case (ticked dt)
    then show ?thesis using assms(3) by simp
  qed
qed

lemma sess_step_frames:
  assumes "sess_step w bs s s'"
  shows "set (out_stream s') \<subseteq> set (out_stream s) \<union> set bs"
  using assms
proof cases
  case sess_accept
  then show ?thesis by (auto simp: out_stream_def ReadPacketHead_def SetState_def ws.read_ops)
next
  case (sess_shut op o1)
  have "out_stream s' = op_writes (remove1 op (sock_ops (session_socket s))) @ qdata (out_queue s)"
    using sess_shut by (simp add: out_stream_def) (simp add: shut_def SetState_def)
  moreover have "set (op_writes (remove1 op ops)) \<subseteq> set (op_writes ops)" for ops
    using set_remove1_subset[of op ops] by (auto simp: op_writes_set)
  ultimately show ?thesis by (auto simp: out_stream_def)
next
  case (sess_read n r)
  then show ?thesis by (auto simp: out_stream_def next_read_eq ws.read_ops)
next
  case (sess_written b)
  then have "out_stream s' = out_stream (StopSending (finished (OpWrite b) s))" by (simp add: OnWrite_Send Send_stream)
  then show ?thesis using set_remove1_subset[of b] by (auto simp: out_stream_def StopSending_def)
next
  case (sess_push b)
  then show ?thesis by (simp add: PushToSend_stream)
qed (simp_all add: out_stream_def)

lemma out_inv_step:
  assumes "sys_step sys e sys'" "base_inv sys" "out_inv sys" "length (objects sys) \<le> 5"
  shows "out_inv sys'"
proof -
  have grow: "ids sys \<subseteq> ids sys'" using step_grows[OF assms(1)] by (auto simp: ids_def)
  have "frames_only (out_stream (obj sys' k))" if "k < length (objects sys')" for k
  proof (cases "k < length (objects sys)")
    case True
    from step_projects[OF assms(1) base_table[OF assms(2)] True] obtain w bs where
      st: "sess_step w bs (obj sys k) (obj sys' k)" "set bs \<subseteq> {MakeBuffer (packet p) | p. p \<in> set (qdata (net_out sys))}" by blast
    from sess_step_frames[OF st(1)] st(2) assms(3) True show ?thesis unfolding out_inv_def frames_only_def by blast
  next
    case False
    from new_object[OF assms(1) that this] show ?thesis
      by (simp add: frames_only_def out_stream_def Session_Run_def Session_new_def socket_defs TSQueue_new_def)
  qed
  moreover have "tidy (ids sys') sys' \<and> qdata (game_in sys') = [] \<and> (\<forall>p \<in> set (qdata (net_in sys')). GetID p \<in> ids sys') \<and>
    (\<forall>p \<in> set (qdata (net_out sys')). sendable (packet p))"
  proof (cases "is_tick e")
    case True
    with assms(1) obtain dt where t: "Tick dt sys = Inr sys'" by (auto elim: sys_step.cases)
    have c: "card (ids sys) \<le> 5" using ids_card(2)[of sys] assms(4) by simp
    have "ids sys' = ids sys" using Tick_system(2)[OF t] by (simp add: ids_def)
    moreover have "tidy (ids sys) sys' \<and> (\<forall>p \<in> set (qdata (net_out sys')). sendable (packet p) \<or> p \<in> set (qdata (net_out sys)))"
      by (rule tidy_Tick[OF t _ _ ids_card(1) c]) (use assms(3) in \<open>simp_all add: out_inv_def\<close>)
    moreover have "qdata (net_in sys') = qdata (game_in sys)" "qdata (game_in sys') = []" using tick_queues[OF t] by simp_all
    ultimately show ?thesis using assms(3) by (auto simp: out_inv_def)
  next
    case False
    note w = step_world[OF assms(1,2) False]
    have "\<forall>p \<in> set (qdata (net_in sys')). GetID p \<in> ids sys'"
      using w assms(3) grow unfolding out_inv_def by blast
    with w assms(3) grow show ?thesis by (auto simp: out_inv_def tidy_def live_def)
  qed
  ultimately show ?thesis by (simp add: out_inv_def)
qed


lemma out_inv_run:
  "sys_run sys0 evs sys \<Longrightarrow> base_inv sys0 \<Longrightarrow> out_inv sys0 \<Longrightarrow> length (objects sys) \<le> 5 \<Longrightarrow> out_inv sys"
proof (induction rule: sys_run.induct)
  case (run_snoc sys evs sys' e sys'')
  have few: "length (objects sys') \<le> 5" using step_grows[OF run_snoc(2)] run_snoc.prems(3) by simp
  have "base_inv sys'" by (rule base_inv_run[OF run_snoc(1) run_snoc.prems(1)]) (use few in simp)
  with out_inv_step[OF run_snoc(2)] run_snoc.IH run_snoc.prems few show ?case by simp
qed

lemma frames_only_packets:
  assumes "frames_only bs"
  obtains ps where "bs = map MakeBuffer ps" "list_all sendable ps"
proof -
  have "bs \<in> lists (MakeBuffer ` {p. sendable p})" using assms by (auto simp: frames_only_def)
  then obtain ps where "bs = map MakeBuffer ps" "ps \<in> lists {p. sendable p}" by (auto simp: lists_image)
  then show thesis by (intro that[of ps]) (auto simp: list_all_iff)
qed

lemma out_inv_start: "system_start cfg = Inr sys \<Longrightarrow> out_inv sys"
  by (auto simp: system_start_def World_new_def Server_new_def World.defs out_inv_def tidy_def live_def um_wf_def TSQueue_new_def)

text \<open>
  C16. With at most five connections, everything the server sends is well formed. In every run, each
  packet queued for the network has a body, a size that matches it and a header that the
  protocol's check accepts; and each buffer that a session has queued or handed to its socket is
  such a packet as \<open>MakeBuffer\<close> lays it out, so its bytes decode to exactly these packets.
\<close>

theorem outputs_well_formed:
  assumes "system_start cfg = Inr sys0" "sys_run sys0 evs sys" "length (objects sys) \<le> 5"
  shows "list_all (\<lambda>p. sendable (packet p)) (qdata (net_out sys)) \<and>
    (\<forall>k < length (objects sys). \<exists>ps. list_all sendable ps \<and> out_stream (obj sys k) = map MakeBuffer ps \<and>
       frames (concat (out_stream (obj sys k))) = ps)"
proof -
  have inv: "out_inv sys"
    by (rule out_inv_run[OF assms(2) base_inv_start[OF assms(1)] out_inv_start[OF assms(1)] assms(3)])
  have "\<exists>ps. list_all sendable ps \<and> out_stream (obj sys k) = map MakeBuffer ps \<and> frames (concat (out_stream (obj sys k))) = ps"
    if "k < length (objects sys)" for k
  proof -
    have "frames_only (out_stream (obj sys k))" using inv that by (simp add: out_inv_def)
    then obtain ps where ps: "out_stream (obj sys k) = map MakeBuffer ps" "list_all sendable ps" by (rule frames_only_packets)
    with frames_stream[OF ps(2)] show ?thesis by auto
  qed
  then show ?thesis using inv by (simp add: out_inv_def list_all_iff)
qed

theorem outputs_well_formed_witness:
  "\<exists>sys0 sys b ps. system_start wit_cfg = Inr sys0 \<and> sys_run sys0 sent_events sys \<and> out_stream (obj sys 0) = [b] \<and>
     list_all sendable ps \<and> [b] = map MakeBuffer ps"
proof -
  obtain sys0 where s: "system_start wit_cfg = Inr sys0" using wit_start by blast
  obtain u b where u: "sys_run sys0 sent_events u" "objects u = [PushToSend b first_session]" by (rule sent_run[OF s])
  have "out_stream (obj u 0) = [b]" using u(2) by (simp add: PushToSend_stream) (simp add: out_stream_def first_session_facts)
  with outputs_well_formed[OF s u(1)] u(2) s u(1) show ?thesis by fastforce
qed

text \<open>A world in which player 7 joins five others.\<close>

definition wit_five :: World where
  "wit_five = (wit_rest\<lparr>players := map (\<lambda>i. (i, Some (new_player wit_cfg i))) [1, 2, 3, 4, 5]\<rparr>)"

theorem spawn_packet_limit_witness:
  "\<exists>w' spawn. World_AddPlayer (new_player wit_cfg 7) wit_five = Inr w' \<and>
     ServerPacket_new spawn 7 Rpc \<in> set (qdata (game_out w')) \<and> GetBodySize spawn = 138 \<and> \<not> sendable spawn"
proof -
  have wf: "um_wf (players wit_five)" and id: "player_id (new_player wit_cfg 7) = 7"
    by (simp_all add: wit_five_def um_wf_def new_player_def Player_new_def)
  have l: "live wit_five - {7} = {1, 2, 3, 4, 5}" by (auto simp: live_def wit_five_def)
  have "\<exists>w'. World_AddPlayer (new_player wit_cfg 7) wit_five = Inr w'"
    by (simp add: World_AddPlayer_def spawn_packet_def wit_five_def id Let_def)
  then obtain w' where w': "World_AddPlayer (new_player wit_cfg 7) wit_five = Inr w'" by blast
  from spawn_packet_limit[OF wf w'] w' show ?thesis by (auto simp: id l GetBodySize_def)
qed

end
