(* ===== verification/Races.thy ===== *)
theory Races
  imports Server
begin

text \<open>
  Threads at the session table (\<open>AddSession\<close>, \<open>CloseSession\<close> and \<open>Sender\<close> of
  \<open>src/net/server/server.cpp\<close>), one step per access. \<open>AddSession\<close> and \<open>CloseSession\<close> hold
  \<open>sessions_mutex_\<close> around their accesses, the range-based loops of \<open>Sender\<close> hold nothing.
\<close>

section \<open>Steps\<close>

text \<open>
  Where a thread stands: outside; before the lock of \<open>AddSession\<close> or \<open>CloseSession\<close>; inside it and
  about to write; after the write and about to unlock; in a loop of \<open>Sender\<close>, its iterator at the
  first of the entries that are left.
\<close>

datatype table_pc = Outside
  | AddLock size_t nat | AddWrite size_t nat
  | CloseLock size_t | CloseWrite size_t
  | Unlock
  | Loop "(size_t \<times> nat option) list"

record table_state =
  table :: "(size_t, nat option) umap"
  mutex :: "nat option"
  pcs :: "nat \<Rightarrow> table_pc"

definition table_init :: table_state where
  "table_init = \<lparr>table = [], mutex = None, pcs = (\<lambda>_. Outside)\<rparr>"

definition set_pc :: "nat \<Rightarrow> table_pc \<Rightarrow> table_state \<Rightarrow> table_state" where
  "set_pc t pc s = s\<lparr>pcs := (pcs s)(t := pc)\<rparr>"

inductive table_step :: "table_state \<Rightarrow> table_state \<Rightarrow> bool" where
  add_call: "pcs s t = Outside \<Longrightarrow> table_step s (set_pc t (AddLock i ptr) s)"
| add_lock: "pcs s t = AddLock i ptr \<Longrightarrow> mutex s = None \<Longrightarrow> table_step s (set_pc t (AddWrite i ptr) (s\<lparr>mutex := Some t\<rparr>))"
| add_write: "pcs s t = AddWrite i ptr \<Longrightarrow>
    table_step s (set_pc t Unlock (s\<lparr>table := AList.update i (Some ptr) (table s)\<rparr>))"
| close_call: "pcs s t = Outside \<Longrightarrow> table_step s (set_pc t (CloseLock i) s)"
| close_lock: "pcs s t = CloseLock i \<Longrightarrow> mutex s = None \<Longrightarrow> table_step s (set_pc t (CloseWrite i) (s\<lparr>mutex := Some t\<rparr>))"
| close_write: "pcs s t = CloseWrite i \<Longrightarrow>
    table_step s (set_pc t Unlock (s\<lparr>table := AList.delete i (table s)\<rparr>))"
| unlock: "pcs s t = Unlock \<Longrightarrow> table_step s (set_pc t Outside (s\<lparr>mutex := None\<rparr>))"
| loop_begin: "pcs s t = Outside \<Longrightarrow> table_step s (set_pc t (Loop (table s)) s)"
| loop_next: "pcs s t = Loop (x # xs) \<Longrightarrow> table_step s (set_pc t (Loop xs) s)"
| loop_end: "pcs s t = Loop [] \<Longrightarrow> table_step s (set_pc t Outside s)"

inductive table_reach :: "table_state \<Rightarrow> bool" where
  table_start: "table_reach table_init"
| table_more: "table_reach s \<Longrightarrow> table_step s s' \<Longrightarrow> table_reach s'"

section \<open>Writers exclude each other\<close>

fun inside :: "table_pc \<Rightarrow> bool" where
  "inside (AddWrite i ptr) = True"
| "inside (CloseWrite i) = True"
| "inside Unlock = True"
| "inside pc = False"

definition mutex_inv :: "table_state \<Rightarrow> bool" where
  "mutex_inv s \<longleftrightarrow> um_wf (table s) \<and> (\<forall>t. inside (pcs s t) \<longleftrightarrow> mutex s = Some t)"

lemma set_pc_simps [simp]:
  "table (set_pc t pc s) = table s" "mutex (set_pc t pc s) = mutex s" "pcs (set_pc t pc s) = (pcs s)(t := pc)"
  by (simp_all add: set_pc_def)

lemma mutex_inv_keep:
  assumes "mutex_inv s" "inside pc = inside (pcs s t)" "um_wf tab"
  shows "mutex_inv (set_pc t pc (s\<lparr>table := tab\<rparr>))"
  using assms by (simp add: mutex_inv_def)

lemma mutex_inv_stay: "mutex_inv s \<Longrightarrow> inside pc = inside (pcs s t) \<Longrightarrow> mutex_inv (set_pc t pc s)"
  by (simp add: mutex_inv_def)

lemma mutex_inv_lock: "mutex_inv s \<Longrightarrow> mutex s = None \<Longrightarrow> inside pc \<Longrightarrow> mutex_inv (set_pc t pc (s\<lparr>mutex := Some t\<rparr>))"
  by (simp add: mutex_inv_def)

lemma mutex_inv_unlock: "mutex_inv s \<Longrightarrow> inside (pcs s t) \<Longrightarrow> \<not> inside pc \<Longrightarrow> mutex_inv (set_pc t pc (s\<lparr>mutex := None\<rparr>))"
  by (simp add: mutex_inv_def)

lemma mutex_inv_step: "table_step s s' \<Longrightarrow> mutex_inv s \<Longrightarrow> mutex_inv s'"
proof (induction rule: table_step.induct)
  case (add_write s t i ptr)
  then show ?case by (intro mutex_inv_keep) (simp_all add: mutex_inv_def um.invar_store)
next
  case (close_write s t i)
  then show ?case by (intro mutex_inv_keep) (simp_all add: mutex_inv_def um.invar_erase)
next
  case (unlock s t)
  then show ?case by (intro mutex_inv_unlock) simp_all
qed (simp_all add: mutex_inv_lock mutex_inv_stay)

lemma table_reach_inv: "table_reach s \<Longrightarrow> mutex_inv s"
proof (induction rule: table_reach.induct)
  case table_start
  show ?case by (simp add: mutex_inv_def table_init_def um_wf_def)
next
  case (table_more s s')
  then show ?case by (blast intro: mutex_inv_step)
qed

text \<open>The functions of theory \<open>Server\<close> are uninterrupted runs of the relation.\<close>

lemma two_steps: "table_step a b \<Longrightarrow> table_step b c \<Longrightarrow> table_step\<^sup>*\<^sup>* a c"
  by (meson r_into_rtranclp rtranclp.rtrancl_into_rtrancl)

lemma add_uninterrupted:
  assumes "table s = sessions sys" "mutex s = None" "pcs s t = Outside"
  shows "table_step\<^sup>*\<^sup>* s (s\<lparr>table := sessions (AddSession ptr sys)\<rparr>)"
proof -
  let ?i = "session_id (obj sys ptr)"
  have "table_step\<^sup>*\<^sup>* s (set_pc t (AddWrite ?i ptr) ((set_pc t (AddLock ?i ptr) s)\<lparr>mutex := Some t\<rparr>))" (is "table_step\<^sup>*\<^sup>* s ?a")
    by (rule two_steps[OF add_call[OF assms(3)] add_lock]) (simp_all add: assms(2))
  moreover have "table_step ?a (set_pc t Unlock (?a\<lparr>table := AList.update ?i (Some ptr) (table ?a)\<rparr>))" (is "table_step ?a ?b")
    by (rule add_write) simp
  moreover have "table_step ?b (set_pc t Outside (?b\<lparr>mutex := None\<rparr>))" by (rule unlock) simp
  moreover have "set_pc t Outside (?b\<lparr>mutex := None\<rparr>) = s\<lparr>table := sessions (AddSession ptr sys)\<rparr>"
    using assms by (cases s) (auto simp: set_pc_def AddSession_def Let_def)
  ultimately show ?thesis by (metis rtranclp.rtrancl_into_rtrancl)
qed

lemma close_uninterrupted:
  assumes "table s = sessions sys" "mutex s = None" "pcs s t = Outside"
  shows "table_step\<^sup>*\<^sup>* s (s\<lparr>table := sessions (CloseSession i sys)\<rparr>)"
proof -
  have "table_step\<^sup>*\<^sup>* s (set_pc t (CloseWrite i) ((set_pc t (CloseLock i) s)\<lparr>mutex := Some t\<rparr>))" (is "table_step\<^sup>*\<^sup>* s ?a")
    by (rule two_steps[OF close_call[OF assms(3)] close_lock]) (simp_all add: assms(2))
  moreover have "table_step ?a (set_pc t Unlock (?a\<lparr>table := AList.delete i (table ?a)\<rparr>))" (is "table_step ?a ?b")
    by (rule close_write) simp
  moreover have "table_step ?b (set_pc t Outside (?b\<lparr>mutex := None\<rparr>))" by (rule unlock) simp
  moreover have "sessions (CloseSession i sys) = AList.delete i (sessions sys)"
    by (auto simp: CloseSession_def map_of_eq_None_iff intro: delete_id[symmetric] split: option.split)
  then have "set_pc t Outside (?b\<lparr>mutex := None\<rparr>) = s\<lparr>table := sessions (CloseSession i sys)\<rparr>"
    using assms by (cases s) (auto simp: set_pc_def)
  ultimately show ?thesis by (metis rtranclp.rtrancl_into_rtrancl)
qed

text \<open>
  C31. The mutex keeps the writers of the session table apart: in every reachable state of any
  number of threads at most one thread is between lock and unlock of \<open>AddSession\<close> and
  \<open>CloseSession\<close>, the mutex is held exactly by that thread, and the table has distinct keys.
\<close>

theorem table_writers_exclusive:
  assumes "table_reach s" "inside (pcs s t)"
  shows "(\<forall>u. inside (pcs s u) \<longleftrightarrow> u = t) \<and> mutex s = Some t \<and> um_wf (table s)"
  using table_reach_inv[OF assms(1)] assms(2) by (auto simp: mutex_inv_def)

section \<open>The sender is not excluded\<close>

text \<open>Thread 0 registers session 5, thread 1 starts a broadcast, thread 0 closes the session.\<close>

definition reading_state :: table_state where
  "reading_state = \<lparr>table = [(5, Some 0)], mutex = Some 0,
     pcs = ((\<lambda>_. Outside)(0 := CloseWrite 5))(1 := Loop [(5, Some 0)])\<rparr>"

lemma table_moreI: "table_reach s \<Longrightarrow> table_step s s' \<Longrightarrow> s' = u \<Longrightarrow> table_reach u"
  using table_more by simp

lemma reading_reachable: "table_reach reading_state"
proof -
  note steps = set_pc_def table_init_def
  have "table_reach \<lparr>table = [], mutex = None, pcs = (\<lambda>_. Outside)(0 := AddLock 5 0)\<rparr>"
    by (rule table_moreI[OF table_start add_call[of _ 0]]) (simp_all add: steps)
  from table_moreI[OF this add_lock[of _ 0 5 0]]
  have "table_reach \<lparr>table = [], mutex = Some 0, pcs = (\<lambda>_. Outside)(0 := AddWrite 5 0)\<rparr>" by (simp add: steps)
  from table_moreI[OF this add_write[of _ 0 5 0]]
  have "table_reach \<lparr>table = [(5, Some 0)], mutex = Some 0, pcs = (\<lambda>_. Outside)(0 := Unlock)\<rparr>" by (simp add: steps)
  from table_moreI[OF this unlock[of _ 0]]
  have "table_reach \<lparr>table = [(5, Some 0)], mutex = None, pcs = (\<lambda>_. Outside)\<rparr>" by (simp add: steps fun_upd_idem)
  from table_moreI[OF this loop_begin[of _ 1]]
  have "table_reach \<lparr>table = [(5, Some 0)], mutex = None, pcs = (\<lambda>_. Outside)(1 := Loop [(5, Some 0)])\<rparr>" by (simp add: steps)
  from table_moreI[OF this close_call[of _ 0 5]]
  have "table_reach \<lparr>table = [(5, Some 0)], mutex = None, pcs = ((\<lambda>_. Outside)(1 := Loop [(5, Some 0)]))(0 := CloseLock 5)\<rparr>"
    by (simp add: steps)
  from table_moreI[OF this close_lock[of _ 0 5]] show ?thesis
    by (simp add: steps reading_state_def fun_upd_twist)
qed

text \<open>
  C21. \<open>Sender\<close> is not protected against them: there is a reachable state in which one thread is
  about to erase an entry while a broadcast of another thread is about to read the same entry,
  and, one step later, the iterator of the broadcast points to an entry that is no longer in the
  table, whose node the container has freed.
\<close>

theorem sender_iterator_dangles:
  "\<exists>s s'. table_reach s \<and> pcs s 0 = CloseWrite 5 \<and> pcs s 1 = Loop [(5, Some 0)] \<and> table s = [(5, Some 0)] \<and>
     table_step s s' \<and> pcs s' 1 = Loop [(5, Some 0)] \<and> table s' = []"
proof (intro exI conjI)
  show "table_reach reading_state" by (rule reading_reachable)
  show "table_step reading_state (set_pc 0 Unlock (reading_state\<lparr>table := AList.delete 5 (table reading_state)\<rparr>))"
    by (rule close_write) (simp add: reading_state_def)
qed (simp_all add: reading_state_def)

theorem table_writers_exclusive_witness:
  "table_reach reading_state \<and> mutex reading_state = Some 0 \<and> \<not> inside (pcs reading_state 1)"
  using table_writers_exclusive[OF reading_reachable, of 0] reading_reachable by (simp add: reading_state_def)

end
