(* ===== verification/Startup.thy ===== *)
theory Startup
  imports SystemRuns
begin

text \<open>
  The program's entry point (\<open>src/main.cpp\<close>): arguments, configuration, construction of the
  subsystems, the world and the server, listening, and the threads. The file system with the JSON
  parser, the TLS context, the address parser and the acceptor are parameters. The uncaught
  exceptions of the libraries are the fault \<open>Thrown\<close>.
\<close>

section \<open>\<open>main\<close>\<close>

text \<open>\<open>GameThread\<close> runs \<open>GameLoop\<close>, \<open>SenderThread\<close> runs \<open>Sender\<close>, \<open>IoThread\<close> runs the I/O service.\<close>

datatype thread = GameThread | SenderThread | IoThread

text \<open>The I/O service gets a concurrency hint; the last thread of the list is the main thread.\<close>

record Process =
  server_state :: System
  ioc_hint :: int
  threads :: "thread list"

datatype outcome = EXIT_FAILURE | Running Process

definition thread_count :: "u8 \<Rightarrow> int" where
  "thread_count configured = max 1 (uint configured)"

text \<open>The loops that start the threads, and the call of \<open>run\<close> by the main thread.\<close>

definition start_threads :: "int \<Rightarrow> int \<Rightarrow> thread list" where
  "start_threads net io = [GameThread] @ replicate (nat net) SenderThread @ replicate (nat (io - 1)) IoThread @ [IoThread]"

text \<open>
  \<open>cert_files\<close>: whether the context accepts the certificate and key files. \<open>make_address\<close>: whether
  the text is an address. \<open>fails\<close>: the calls for which the acceptor reports an error.
\<close>

definition main ::
  "(string \<Rightarrow> json option) \<Rightarrow> string \<Rightarrow> (string \<Rightarrow> string \<Rightarrow> bool) \<Rightarrow> (string \<Rightarrow> bool) \<Rightarrow>
   (string \<Rightarrow> u16 \<Rightarrow> acceptor_op \<Rightarrow> bool) \<Rightarrow> string list \<Rightarrow> outcome res" where
  "main load cwd cert_files make_address fails argv =
     (if length argv \<noteq> 2 then Inr EXIT_FAILURE
      else rbind (GetInstance load cwd None (argv ! 1)) (\<lambda>(config, _).
           rbind (system_start (game_config config)) (\<lambda>sys.
             let io = thread_count (io_threads (net_config config));
                 net = thread_count (net_threads (net_config config))
             in if \<not> cert_files ''certs/server.crt'' ''certs/server.key'' then Inl Thrown
                else if \<not> make_address (ip (net_config config)) then Inl Thrown
                else if \<not> fst (StartListen (fails (ip (net_config config)) (port (net_config config))))
                then Inr EXIT_FAILURE
                else Inr (Running \<lparr>server_state = sys, ioc_hint = io, threads = start_threads net io\<rparr>))))"

section \<open>Every configuration that loads starts\<close>

definition map_of_config :: "GameConfig \<Rightarrow> Tile list \<Rightarrow> bool" where
  "map_of_config cfg ts \<longleftrightarrow> grid_map (tile_size cfg) (unat (grid_x cfg)) (unat (grid_y cfg)) ts \<and>
     (\<forall>k < length (map_data cfg). tile_type (ts ! k) = (if map_data cfg ! k \<noteq> 0 then Solid else Empty_tile))"

lemma loaded_starts:
  assumes "InitGameConfig load cwd f = Inr cfg"
  shows "\<exists>sys. system_start cfg = Inr sys \<and> map_of_config cfg (tile_map sys)"
proof -
  from InitGameConfig_map[OF assms] have "cell_count (grid_x cfg) (grid_y cfg) = Inr (length (map_data cfg))" by metis
  from World_new_map[OF this order_refl] obtain w where
    w: "World_new \<lparr>net_in_queue = TSQueue_new, net_out_queue = TSQueue_new\<rparr> \<lparr>game_in_queue = TSQueue_new, game_out_queue = TSQueue_new\<rparr> cfg = Inr w"
    "map_of_config cfg (tile_map w)" unfolding map_of_config_def by metis
  have "tile_map (Server_new w) = tile_map w" by (simp add: Server_new_def World.defs)
  with w show ?thesis by (simp add: system_start_def)
qed

lemma thread_count_bounds: "1 \<le> thread_count n" "thread_count n \<le> 255"
proof -
  have "uint n < 2 ^ 8" using uint_bounded[of n] by simp
  then show "thread_count n \<le> 255" by (simp add: thread_count_def)
qed (simp add: thread_count_def)

lemma start_threads_count:
  assumes "1 \<le> io"
  shows "count_list (start_threads net io) GameThread = 1"
    "count_list (start_threads net io) SenderThread = nat net" "count_list (start_threads net io) IoThread = nat io"
proof -
  have count: "count_list (replicate n x) y = (if x = y then n else 0)" for n :: nat and x y :: thread
    by (induction n) auto
  show "count_list (start_threads net io) GameThread = 1" "count_list (start_threads net io) SenderThread = nat net"
    "count_list (start_threads net io) IoThread = nat io"
    using assms by (simp_all add: start_threads_def count nat_diff_distrib)
qed

text \<open>
  C36. Every configuration that loads starts: with one argument, a loadable configuration,
  readable certificates and a valid address, construction reads no cell outside the map, and the
  program runs exactly when no acceptor call fails and otherwise exits with a failure code. A
  running program has one game thread, between 1 and 255 sender threads and as many I/O
  threads as the I/O service was told, also for a configured count of 0; the world has the map of
  the file, no players and no sessions.
\<close>

theorem main_starts:
  assumes "Config_new load cwd f = Inr c" "cert_files ''certs/server.crt'' ''certs/server.key''"
    and "make_address (ip (net_config c))"
  shows "\<exists>sys. main load cwd cert_files make_address fails [prog, f] =
      (if \<exists>op. fails (ip (net_config c)) (port (net_config c)) op then Inr EXIT_FAILURE
       else Inr (Running \<lparr>server_state = sys, ioc_hint = thread_count (io_threads (net_config c)),
         threads = start_threads (thread_count (net_threads (net_config c))) (thread_count (io_threads (net_config c)))\<rparr>)) \<and>
    base_inv sys \<and> play_inv sys \<and> players sys = [] \<and> sessions sys = [] \<and>
    map_of_config (game_config c) (tile_map sys) \<and>
    (let ts = start_threads (thread_count (net_threads (net_config c))) (thread_count (io_threads (net_config c)))
     in count_list ts GameThread = 1 \<and> count_list ts SenderThread \<in> {1..255} \<and>
        int (count_list ts IoThread) = thread_count (io_threads (net_config c)) \<and> last ts = IoThread)"
proof -
  from assms(1) have "InitGameConfig load cwd f = Inr (game_config c)" by (auto simp: Config_new_def)
  from loaded_starts[OF this] obtain sys where s: "system_start (game_config c) = Inr sys"
    "map_of_config (game_config c) (tile_map sys)" by blast
  have "players sys = []" "sessions sys = []"
    using s(1) by (auto simp: system_start_def World_new_def Server_new_def World.defs)
  moreover have "main load cwd cert_files make_address fails [prog, f] =
      (if \<exists>op. fails (ip (net_config c)) (port (net_config c)) op then Inr EXIT_FAILURE
       else Inr (Running \<lparr>server_state = sys, ioc_hint = thread_count (io_threads (net_config c)),
         threads = start_threads (thread_count (net_threads (net_config c))) (thread_count (io_threads (net_config c)))\<rparr>))"
    using assms s(1) by (simp add: main_def GetInstance_def StartListen_stops_at_error Let_def)
  moreover have "last (start_threads net io) = IoThread" for net io by (simp add: start_threads_def)
  ultimately show ?thesis
    using s(2) base_inv_start[OF s(1)] play_inv_start[OF s(1)] thread_count_bounds[of "net_threads (net_config c)"]
      thread_count_bounds[of "io_threads (net_config c)"] start_threads_count
    by (intro exI[of _ sys]) (simp add: Let_def nat_le_iff)
qed

lemma wit_config_loads:
  "Config_new wit_load ''/ep'' ''config.json'' = Inr
     \<lparr>net_config = \<lparr>ip = ''0.0.0.0'', port = 27998, io_threads = 4, net_threads = 1\<rparr>, game_config = wit_game,
      accounts_db_config = \<lparr>db_name = ''EndlessPeak'', db_host = ''localhost'', db_user = ''user'',
        db_password = ''user123'', db_table_name = ''accounts''\<rparr>\<rparr>"
  by (simp add: Config_new_def wit_game_loads InitNetConfig_def InitAccountsDBConfig_def wit_config_simps)

theorem main_starts_witness:
  "\<exists>sys. main wit_load ''/ep'' (\<lambda>_ _. True) (\<lambda>_. True) (\<lambda>_ _ _. False) [''server'', ''config.json''] =
     Inr (Running \<lparr>server_state = sys, ioc_hint = 4,
       threads = [GameThread, SenderThread, IoThread, IoThread, IoThread, IoThread]\<rparr>) \<and> sessions sys = []"
proof -
  have t: "thread_count 4 = 4" "thread_count 1 = 1" by (simp_all add: thread_count_def)
  have l: "start_threads 1 4 = [GameThread, SenderThread, IoThread, IoThread, IoThread, IoThread]"
    by (simp add: start_threads_def eval_nat_numeral)
  from main_starts[OF wit_config_loads, of "\<lambda>_ _. True" "\<lambda>_. True" "\<lambda>_ _ _. False" "''server''"]
  show ?thesis by (auto simp: t l)
qed

end
