(* ===== verification/Crypto.thy ===== *)
theory Crypto
  imports Prelude
begin

text \<open>
  Password hashing (\<open>src/cryptography/sha256.hpp\<close>, \<open>.cpp\<close>). OpenSSL is a parameter: the record
  \<open>OpenSSL\<close> holds the three functions the code calls. \<open>openssl_ok\<close> states what their manual
  pages promise and the theorems use: a derived key has the requested length, \<open>CRYPTO_memcmp\<close> returns
  0 exactly for equal bytes, and \<open>RAND_bytes\<close> writes within its buffer. Strings are byte lists.
\<close>

section \<open>The library\<close>

text \<open>
  \<open>PKCS5_PBKDF2_HMAC\<close> takes password and salt with their lengths, the iteration count and the key
  length; \<open>None\<close> stands for the return value 0. \<open>CRYPTO_memcmp\<close> compares the first \<open>n\<close> bytes.
  \<open>RAND_bytes\<close> gets the buffer and returns its code with the contents of the buffer.
\<close>

record OpenSSL =
  PKCS5_PBKDF2_HMAC :: "u8 list \<Rightarrow> int \<Rightarrow> u8 list \<Rightarrow> int \<Rightarrow> int \<Rightarrow> int \<Rightarrow> u8 list option"
  CRYPTO_memcmp :: "u8 list \<Rightarrow> u8 list \<Rightarrow> nat \<Rightarrow> int"
  RAND_bytes :: "u8 list \<Rightarrow> int \<Rightarrow> int \<times> u8 list"

definition openssl_ok :: "OpenSSL \<Rightarrow> bool" where
  "openssl_ok ssl \<longleftrightarrow>
     (\<forall>pw n salt m it len h. PKCS5_PBKDF2_HMAC ssl pw n salt m it len = Some h \<longrightarrow> int (length h) = len) \<and>
     (\<forall>a b n. n \<le> length a \<longrightarrow> n \<le> length b \<longrightarrow> (CRYPTO_memcmp ssl a b n = 0 \<longleftrightarrow> take n a = take n b)) \<and>
     (\<forall>buf n rc bs. RAND_bytes ssl buf n = (rc, bs) \<longrightarrow> length bs = length buf)"

section \<open>Operations\<close>

definition kNumIterations :: u32 where "kNumIterations = 10000"

definition kHashLength :: u32 where "kHashLength = 32"

definition kSaltLength :: u32 where "kSaltLength = 16"

text \<open>\<open>static_cast<int>\<close> of a size.\<close>

definition int_of_size :: "nat \<Rightarrow> int" where
  "int_of_size n = sint (of_nat n :: 32 word)"

text \<open>A negative length makes the constructor of the vector throw.\<close>

definition Hash :: "OpenSSL \<Rightarrow> u8 list \<Rightarrow> u8 list \<Rightarrow> int \<Rightarrow> int \<Rightarrow> u8 list option res" where
  "Hash ssl password salt iterations hash_length =
     (if hash_length < 0 then Inl Thrown
      else Inr (PKCS5_PBKDF2_HMAC ssl password (int_of_size (length password)) salt (int_of_size (length salt))
                  iterations hash_length))"

text \<open>The default arguments.\<close>

definition Hash_default :: "OpenSSL \<Rightarrow> u8 list \<Rightarrow> u8 list \<Rightarrow> u8 list option res" where
  "Hash_default ssl password salt = Hash ssl password salt (sint kNumIterations) (sint kHashLength)"

text \<open>The comparison reads as many bytes of the expected hash as the computed one has.\<close>

definition VerifyHash :: "OpenSSL \<Rightarrow> u8 list \<Rightarrow> u8 list \<Rightarrow> u8 list \<Rightarrow> bool res" where
  "VerifyHash ssl password expected_hash salt =
     rbind (Hash_default ssl password salt) (\<lambda>hash.
       case hash of
         None \<Rightarrow> Inr False
       | Some h \<Rightarrow>
          (if length expected_hash < length h then Inl OutOfBounds
           else Inr (CRYPTO_memcmp ssl h expected_hash (length h) = 0)))"

definition GenerateSalt :: "OpenSSL \<Rightarrow> nat \<Rightarrow> u8 list option" where
  "GenerateSalt ssl sz =
     (let salt = replicate sz 0; (rc, bytes) = RAND_bytes ssl salt (int_of_size sz)
      in if rc = -1 then None else Some bytes)"

section \<open>Checking a password\<close>

lemma Hash_default_eq:
  "Hash_default ssl pw salt =
     Inr (PKCS5_PBKDF2_HMAC ssl pw (int_of_size (length pw)) salt (int_of_size (length salt)) 10000 32)"
  by (simp add: Hash_default_def Hash_def kNumIterations_def kHashLength_def)

lemma hash_length: "openssl_ok ssl \<Longrightarrow> Hash_default ssl pw salt = Inr (Some h) \<Longrightarrow> length h = 32"
  by (simp add: Hash_default_eq openssl_ok_def) (metis nat_int nat_numeral)

lemma verify_iff:
  assumes "openssl_ok ssl" "Hash_default ssl pw salt = Inr (Some h)"
  shows "VerifyHash ssl pw e salt = (if length e < 32 then Inl OutOfBounds else Inr (take 32 e = h))"
  using assms hash_length[OF assms] by (auto simp: VerifyHash_def openssl_ok_def)

text \<open>
  C40. \<open>VerifyHash\<close> accepts exactly the stored hash of the password: against an expected hash of
  at least 32 bytes it returns whether the first 32 bytes are the derived key, further bytes
  are ignored, and against a shorter one it reads past its end.
\<close>

theorem VerifyHash_exact:
  assumes "openssl_ok ssl" "Hash_default ssl pw salt = Inr (Some h)"
  shows "VerifyHash ssl pw h salt = Inr True \<and>
    VerifyHash ssl pw e salt = (if length e < 32 then Inl OutOfBounds else Inr (take 32 e = h))"
  using verify_iff[OF assms, of h] verify_iff[OF assms, of e] hash_length[OF assms] by simp

text \<open>A stand-in for the library: the key is the password cut or filled to the length asked for.\<close>

definition wit_ssl :: OpenSSL where
  "wit_ssl = \<lparr>PKCS5_PBKDF2_HMAC = (\<lambda>pw n salt m it len. if 0 \<le> len then Some (take (nat len) (pw @ replicate (nat len) 0)) else None),
     CRYPTO_memcmp = (\<lambda>a b n. if take n a = take n b then 0 else 1),
     RAND_bytes = (\<lambda>buf n. (0, buf))\<rparr>"

lemma wit_ssl_ok: "openssl_ok wit_ssl"
  by (auto simp: openssl_ok_def wit_ssl_def)

theorem VerifyHash_exact_witness:
  "VerifyHash wit_ssl [1, 2] (1 # 2 # replicate 30 0) [9] = Inr True \<and> VerifyHash wit_ssl [1, 2] [1, 2] [9] = Inl OutOfBounds"
proof -
  have "Hash_default wit_ssl [1, 2] [9] = Inr (Some (1 # 2 # replicate 30 0))"
    by (simp add: Hash_default_eq wit_ssl_def)
  from VerifyHash_exact[OF wit_ssl_ok this, of "[1, 2]"] show ?thesis by simp
qed

text \<open>
  A failed random generator goes unnoticed: \<open>RAND_bytes\<close> also reports failure by 0, which
  \<open>GenerateSalt\<close> takes for success, so the salt is whatever the buffer holds, all zeros when
  the generator left it alone.
\<close>

lemma failed_salt_is_zero:
  "RAND_bytes ssl (replicate n 0) (int_of_size n) = (0, replicate n 0) \<Longrightarrow> GenerateSalt ssl n = Some (replicate n 0)"
  by (simp add: GenerateSalt_def)

end
