(* ===== verification/Database.thy ===== *)
theory Database
  imports Crypto Protocol
begin

text \<open>
  The account database (\<open>src/db\<close>): the connection handle, the prepared statements, and adding,
  reading and removing an account. The MariaDB client library is a parameter: the record \<open>MySQL\<close>
  holds the functions the code calls, over a state \<open>'d\<close> of library and server; a handle is a
  number, a null pointer \<open>None\<close>. The library must not be called with a null statement, so such a
  call is the fault \<open>NullDeref\<close>. Strings and buffers are byte lists, SQL texts are strings.
\<close>

section \<open>The library\<close>

datatype enum_field_types = MYSQL_TYPE_STRING | MYSQL_TYPE_BLOB | MYSQL_TYPE_LONGLONG

record MYSQL_BIND =
  buffer_type :: enum_field_types
  buffer :: "u8 list"
  buffer_length :: nat

text \<open>
  Results are as in C: 0 or \<open>False\<close> for success, except for handles. \<open>mysql_stmt_fetch\<close> also
  gives, for each column, the contents of the bound buffer and the length it reports.
\<close>

record 'd MySQL =
  mysql_init :: "'d \<Rightarrow> nat option \<times> 'd"
  mysql_real_connect :: "nat option \<Rightarrow> string \<Rightarrow> string \<Rightarrow> string \<Rightarrow> string \<Rightarrow> 'd \<Rightarrow> bool \<times> 'd"
  mysql_close :: "nat \<Rightarrow> 'd \<Rightarrow> 'd"
  mysql_stmt_init :: "nat option \<Rightarrow> 'd \<Rightarrow> nat option \<times> 'd"
  mysql_stmt_prepare :: "nat \<Rightarrow> string \<Rightarrow> 'd \<Rightarrow> int \<times> 'd"
  mysql_stmt_close :: "nat \<Rightarrow> 'd \<Rightarrow> bool \<times> 'd"
  mysql_stmt_bind_param :: "nat \<Rightarrow> MYSQL_BIND list \<Rightarrow> 'd \<Rightarrow> bool \<times> 'd"
  mysql_stmt_execute :: "nat \<Rightarrow> 'd \<Rightarrow> int \<times> 'd"
  mysql_stmt_bind_result :: "nat \<Rightarrow> MYSQL_BIND list \<Rightarrow> 'd \<Rightarrow> bool \<times> 'd"
  mysql_stmt_store_result :: "nat \<Rightarrow> 'd \<Rightarrow> int \<times> 'd"
  mysql_stmt_fetch :: "nat \<Rightarrow> 'd \<Rightarrow> int \<times> (nat \<Rightarrow> u8 list \<times> nat) \<times> 'd"

definition MYSQL_NO_DATA :: int where "MYSQL_NO_DATA = 100"

definition MYSQL_DATA_TRUNCATED :: int where "MYSQL_DATA_TRUNCATED = 101"

section \<open>\<open>SQLConnection\<close>\<close>

record SQLConnection =
  db_handle :: "nat option"

definition SQLConnection_new :: SQLConnection where
  "SQLConnection_new = \<lparr>db_handle = None\<rparr>"

definition SQLConnection_destroy :: "'d MySQL \<Rightarrow> SQLConnection \<Rightarrow> 'd \<Rightarrow> 'd" where
  "SQLConnection_destroy api c d = (case db_handle c of None \<Rightarrow> d | Some h \<Rightarrow> mysql_close api h d)"

definition SQLConnection_move :: "SQLConnection \<Rightarrow> SQLConnection \<times> SQLConnection" where
  "SQLConnection_move other = (\<lparr>db_handle = db_handle other\<rparr>, other\<lparr>db_handle := None\<rparr>)"

text \<open>\<open>self\<close> says whether both sides are one object.\<close>

definition SQLConnection_move_assign :: "bool \<Rightarrow> SQLConnection \<Rightarrow> SQLConnection \<Rightarrow> SQLConnection \<times> SQLConnection" where
  "SQLConnection_move_assign self this other =
     (if self then (this, other) else (this\<lparr>db_handle := db_handle other\<rparr>, other\<lparr>db_handle := None\<rparr>))"

definition SQL_Init :: "'d MySQL \<Rightarrow> SQLConnection \<Rightarrow> 'd \<Rightarrow> bool \<times> SQLConnection \<times> 'd" where
  "SQL_Init api c d = (let (h, d1) = mysql_init api d in (h \<noteq> None, c\<lparr>db_handle := h\<rparr>, d1))"

definition SQL_Connect :: "'d MySQL \<Rightarrow> SQLConnection \<Rightarrow> string \<Rightarrow> string \<Rightarrow> string \<Rightarrow> string \<Rightarrow> 'd \<Rightarrow> bool \<times> 'd" where
  "SQL_Connect api c host user password db_name d =
     mysql_real_connect api (db_handle c) host user password db_name d"

text \<open>The local object is destroyed on every way out; on success it has been moved from.\<close>

definition SQL_Load :: "'d MySQL \<Rightarrow> string \<Rightarrow> string \<Rightarrow> string \<Rightarrow> string \<Rightarrow> 'd \<Rightarrow> SQLConnection option \<times> 'd" where
  "SQL_Load api host user password db_name d =
     (case SQL_Init api SQLConnection_new d of
        (False, db, d1) \<Rightarrow> (None, SQLConnection_destroy api db d1)
      | (True, db, d1) \<Rightarrow>
         (case SQL_Connect api db host user password db_name d1 of
            (False, d2) \<Rightarrow> (None, SQLConnection_destroy api db d2)
          | (True, d2) \<Rightarrow>
             (let (moved, rest) = SQLConnection_move db in (Some moved, SQLConnection_destroy api rest d2))))"

section \<open>\<open>LoginDataBase\<close>\<close>

datatype LoginSTMT = AddUser | GetUserByName | GetUserByID | RemoveUserByName

fun stmt_index :: "LoginSTMT \<Rightarrow> nat" where
  "stmt_index AddUser = 1"
| "stmt_index GetUserByName = 2"
| "stmt_index GetUserByID = 3"
| "stmt_index RemoveUserByName = 4"

definition kNumStmts :: nat where "kNumStmts = 255"
definition kLoginSize :: nat where "kLoginSize = 64"
definition kPasswordHashSize :: nat where "kPasswordHashSize = 255"
definition kPasswordSaltSize :: nat where "kPasswordSaltSize = 64"
definition kPasswordAlgoSize :: nat where "kPasswordAlgoSize = 16"

record LoginData =
  ld_id :: u64
  ld_login :: "u8 list"
  ld_password_hash :: "u8 list"
  ld_password_salt :: "u8 list"
  ld_password_algo :: "u8 list"
  login_length :: nat
  hash_length :: nat
  salt_length :: nat
  algo_length :: nat

record LoginDataBase =
  connection :: SQLConnection
  stmts :: "nat option list"

definition InitStmts :: "nat \<Rightarrow> LoginDataBase \<Rightarrow> LoginDataBase" where
  "InitStmts n ldb = ldb\<lparr>stmts := replicate n None\<rparr>"

definition set_stmt :: "LoginSTMT \<Rightarrow> nat option \<Rightarrow> LoginDataBase \<Rightarrow> LoginDataBase res" where
  "set_stmt code v ldb =
     (if stmt_index code < length (stmts ldb) then Inr (ldb\<lparr>stmts := (stmts ldb)[stmt_index code := v]\<rparr>)
      else Inl OutOfBounds)"

text \<open>After a failed \<open>mysql_stmt_init\<close> the function goes on with the null statement.\<close>

definition PrepareSTMT :: "'d MySQL \<Rightarrow> LoginSTMT \<Rightarrow> string \<Rightarrow> LoginDataBase \<times> 'd \<Rightarrow> (LoginDataBase \<times> 'd) res" where
  "PrepareSTMT api code sql = (\<lambda>(ldb, d).
     (case mysql_stmt_init api (db_handle (connection ldb)) d of
        (None, d1) \<Rightarrow> rbind (set_stmt code None ldb) (\<lambda>_. Inl NullDeref)
      | (Some h, d1) \<Rightarrow>
         (case mysql_stmt_prepare api h sql d1 of
            (rc, d2) \<Rightarrow>
              (if rc \<noteq> 0
               then (let (err, d3) = mysql_stmt_close api h d2 in rbind (set_stmt code None ldb) (\<lambda>l. Inr (l, d3)))
               else rbind (set_stmt code (Some h) ldb) (\<lambda>l. Inr (l, d2))))))"

definition sql_AddUser :: string where
  "sql_AddUser = ''INSERT INTO  accounts (login, password_hash, password_salt, password_algo) VALUES (?, ?, ?, ?);''"

definition sql_GetUserByName :: string where
  "sql_GetUserByName = ''SELECT id, login, password_hash, password_salt, password_algo FROM accounts WHERE login = ? LIMIT 1;''"

definition sql_RemoveUserByName :: string where
  "sql_RemoveUserByName = ''DELETE FROM accounts WHERE login = ? LIMIT 1;''"

definition PrepareStatements :: "'d MySQL \<Rightarrow> LoginDataBase \<times> 'd \<Rightarrow> (LoginDataBase \<times> 'd) res" where
  "PrepareStatements api s =
     rbind (PrepareSTMT api AddUser sql_AddUser s) (\<lambda>s1.
     rbind (PrepareSTMT api GetUserByName sql_GetUserByName s1) (\<lambda>s2.
     PrepareSTMT api RemoveUserByName sql_RemoveUserByName s2))"

definition LoginDataBase_new :: "'d MySQL \<Rightarrow> SQLConnection \<Rightarrow> 'd \<Rightarrow> (LoginDataBase \<times> 'd) res" where
  "LoginDataBase_new api c d =
     (let (own, rest) = SQLConnection_move c
      in PrepareStatements api (InitStmts kNumStmts \<lparr>connection = own, stmts = []\<rparr>, d))"

text \<open>The destructor closes the statements; the connection member is destroyed after its body.\<close>

definition LoginDataBase_destroy :: "'d MySQL \<Rightarrow> LoginDataBase \<Rightarrow> 'd \<Rightarrow> 'd" where
  "LoginDataBase_destroy api ldb d =
     SQLConnection_destroy api (connection ldb)
       (foldl (\<lambda>d st. case st of None \<Rightarrow> d | Some h \<Rightarrow> snd (mysql_stmt_close api h d)) d (stmts ldb))"

definition get_stmt :: "LoginSTMT \<Rightarrow> LoginDataBase \<Rightarrow> nat option res" where
  "get_stmt code ldb = vec_at (stmts ldb) (stmt_index code)"

definition param :: "enum_field_types \<Rightarrow> u8 list \<Rightarrow> MYSQL_BIND" where
  "param t bs = \<lparr>buffer_type = t, buffer = bs, buffer_length = length bs\<rparr>"

text \<open>The text \<open>sha256\<close>.\<close>

definition algo_sha256 :: "u8 list" where
  "algo_sha256 = [0x73, 0x68, 0x61, 0x32, 0x35, 0x36]"

text \<open>Without a statement, the log message asks for the error text of the null statement.\<close>

definition DB_Insert :: "'d MySQL \<Rightarrow> OpenSSL \<Rightarrow> LoginDataBase \<Rightarrow> u8 list \<Rightarrow> u8 list \<Rightarrow> 'd \<Rightarrow> (bool \<times> 'd) res" where
  "DB_Insert api ssl ldb login password d =
     rbind (get_stmt AddUser ldb) (\<lambda>st. case st of
       None \<Rightarrow> Inl NullDeref
     | Some stmt \<Rightarrow>
        (case GenerateSalt ssl (unat kSaltLength) of
           None \<Rightarrow> Inr (False, d)
         | Some salt \<Rightarrow>
            rbind (Hash_default ssl password salt) (\<lambda>hash. case hash of
              None \<Rightarrow> Inr (False, d)
            | Some h \<Rightarrow>
               (let (err, d1) = mysql_stmt_bind_param api stmt
                      [param MYSQL_TYPE_STRING login, param MYSQL_TYPE_BLOB h, param MYSQL_TYPE_BLOB salt,
                       param MYSQL_TYPE_STRING algo_sha256] d
                in if err then Inr (False, d1)
                   else (let (rc, d2) = mysql_stmt_execute api stmt d1 in Inr (rc = 0, d2))))))"

definition result_buffer :: "enum_field_types \<Rightarrow> nat \<Rightarrow> MYSQL_BIND" where
  "result_buffer t n = \<lparr>buffer_type = t, buffer = replicate n 0, buffer_length = n\<rparr>"

definition get_results :: "MYSQL_BIND list" where
  "get_results = [result_buffer MYSQL_TYPE_LONGLONG 8, result_buffer MYSQL_TYPE_STRING kLoginSize,
     result_buffer MYSQL_TYPE_BLOB kPasswordHashSize, result_buffer MYSQL_TYPE_BLOB kPasswordSaltSize,
     result_buffer MYSQL_TYPE_STRING kPasswordAlgoSize]"

definition DB_Get :: "'d MySQL \<Rightarrow> LoginDataBase \<Rightarrow> u8 list \<Rightarrow> 'd \<Rightarrow> (LoginData option \<times> 'd) res" where
  "DB_Get api ldb login d =
     rbind (get_stmt GetUserByName ldb) (\<lambda>st. case st of
       None \<Rightarrow> Inr (None, d)
     | Some stmt \<Rightarrow> Inr
        (case mysql_stmt_bind_param api stmt [param MYSQL_TYPE_STRING login] d of
           (True, d1) \<Rightarrow> (None, d1)
         | (False, d1) \<Rightarrow>
        (case mysql_stmt_execute api stmt d1 of (rc, d2) \<Rightarrow> if rc \<noteq> 0 then (None, d2) else
        (case mysql_stmt_bind_result api stmt get_results d2 of
           (True, d3) \<Rightarrow> (None, d3)
         | (False, d3) \<Rightarrow>
        (case mysql_stmt_store_result api stmt d3 of (rc, d4) \<Rightarrow> if rc \<noteq> 0 then (None, d4) else
        (case mysql_stmt_fetch api stmt d4 of (rc, cols, d5) \<Rightarrow>
          if rc = MYSQL_NO_DATA then (None, d5)
          else if rc \<noteq> 0 then (None, d5)
          else (Some \<lparr>ld_id = of_bytes (fst (cols 0)), ld_login = fst (cols 1), ld_password_hash = fst (cols 2),
                  ld_password_salt = fst (cols 3), ld_password_algo = fst (cols 4), login_length = snd (cols 1),
                  hash_length = snd (cols 2), salt_length = snd (cols 3), algo_length = snd (cols 4)\<rparr>, d5)))))))"

definition DB_Remove :: "'d MySQL \<Rightarrow> LoginDataBase \<Rightarrow> u8 list \<Rightarrow> 'd \<Rightarrow> (bool \<times> 'd) res" where
  "DB_Remove api ldb login d =
     rbind (get_stmt RemoveUserByName ldb) (\<lambda>st. case st of
       None \<Rightarrow> Inr (False, d)
     | Some stmt \<Rightarrow>
        (let (err, d1) = mysql_stmt_bind_param api stmt [param MYSQL_TYPE_STRING login] d
         in if err then Inr (False, d1)
            else (let (rc, d2) = mysql_stmt_execute api stmt d1 in Inr (rc = 0, d2))))"

end
