(* ===== verification/DatabaseLogic.thy ===== *)
theory DatabaseLogic
  imports Database
begin

text \<open>
  What the account database promises, on top of what MariaDB documents for the three statements
  the code prepares and the table of \<open>db/accounts.sql\<close>. Every call may fail. The state of library
  and server is seen through five functions: the rows of the accounts table, the text and the
  parameters of a statement, the rows it has not delivered and the sizes of its result buffers;
  two more give the collation of the login column and the number of characters of a login.
\<close>

section \<open>The server as the code relies on it\<close>

record account =
  acc_id :: u64
  acc_login :: "u8 list"
  acc_hash :: "u8 list"
  acc_salt :: "u8 list"
  acc_algo :: "u8 list"

record 'd db_view =
  accounts :: "'d \<Rightarrow> account set"
  sql_text :: "'d \<Rightarrow> nat \<Rightarrow> string option"
  params :: "'d \<Rightarrow> nat \<Rightarrow> u8 list list"
  rows :: "'d \<Rightarrow> nat \<Rightarrow> account list"
  caps :: "'d \<Rightarrow> nat \<Rightarrow> nat list"
  same_login :: "u8 list \<Rightarrow> u8 list \<Rightarrow> bool"
  characters :: "u8 list \<Rightarrow> nat"

definition columns :: "account \<Rightarrow> u8 list list" where
  "columns a = [bytes_of (acc_id a), acc_login a, acc_hash a, acc_salt a, acc_algo a]"

definition fits :: "nat list \<Rightarrow> account \<Rightarrow> bool" where
  "fits cs a \<longleftrightarrow> list_all2 (\<lambda>c bs. length bs \<le> c) cs (columns a)"

text \<open>The contents of a buffer of \<open>n\<close> zero bytes after \<open>bs\<close> was stored, as far as it fits.\<close>

definition filled :: "nat \<Rightarrow> u8 list \<Rightarrow> u8 list" where
  "filled n bs = take n (bs @ replicate n 0)"

abbreviation same_tables :: "'d db_view \<Rightarrow> 'd \<Rightarrow> 'd \<Rightarrow> bool" where
  "same_tables v d d' \<equiv> accounts v d' = accounts v d \<and> sql_text v d' = sql_text v d"

text \<open>Binding parameters: on success they are stored with the statement.\<close>

definition binds_params :: "'d MySQL \<Rightarrow> 'd db_view \<Rightarrow> bool" where
  "binds_params api v \<longleftrightarrow> (\<forall>h ps d err d'. mysql_stmt_bind_param api h ps d = (err, d') \<longrightarrow>
     same_tables v d d' \<and> (\<not> err \<longrightarrow> params v d' h = map buffer ps))"

text \<open>
  The changes a statement makes. \<open>INSERT\<close> adds one row with the bound values; the unique key
  refuses a login that is equal to a stored one under the collation of the column, and
  \<open>VARCHAR(64)\<close> one of more than 64 characters (strict mode, the default). \<open>DELETE\<close> removes a row
  whose login is equal under the collation, if there is one.
\<close>

definition inserted :: "'d db_view \<Rightarrow> u8 list \<Rightarrow> u8 list \<Rightarrow> u8 list \<Rightarrow> u8 list \<Rightarrow> 'd \<Rightarrow> 'd \<Rightarrow> bool" where
  "inserted v l hs s a d d' \<longleftrightarrow> (\<forall>b \<in> accounts v d. \<not> same_login v (acc_login b) l) \<and> characters v l \<le> 64 \<and>
     (\<exists>i. accounts v d' = insert \<lparr>acc_id = i, acc_login = l, acc_hash = hs, acc_salt = s, acc_algo = a\<rparr> (accounts v d))"

definition deleted :: "'d db_view \<Rightarrow> u8 list \<Rightarrow> 'd \<Rightarrow> 'd \<Rightarrow> bool" where
  "deleted v l d d' \<longleftrightarrow>
     (if \<exists>a \<in> accounts v d. same_login v (acc_login a) l
      then \<exists>a \<in> accounts v d. same_login v (acc_login a) l \<and> accounts v d' = accounts v d - {a}
      else accounts v d' = accounts v d)"

text \<open>
  Execution. A statement that succeeded has made its change; one that failed has made none or,
  when only the answer was lost, all of it. A \<open>SELECT\<close> that succeeded has at most one row, a
  matching one, and none only if no row matches.
\<close>

definition executes :: "'d MySQL \<Rightarrow> 'd db_view \<Rightarrow> bool" where
  "executes api v \<longleftrightarrow>
     (\<forall>h d rc d'. mysql_stmt_execute api h d = (rc, d') \<longrightarrow> sql_text v d' = sql_text v d \<and>
        (\<forall>l hs s a. sql_text v d h = Some sql_AddUser \<longrightarrow> params v d h = [l, hs, s, a] \<longrightarrow>
           inserted v l hs s a d d' \<or> rc \<noteq> 0 \<and> accounts v d' = accounts v d) \<and>
        (\<forall>l. sql_text v d h = Some sql_RemoveUserByName \<longrightarrow> params v d h = [l] \<longrightarrow>
           deleted v l d d' \<or> rc \<noteq> 0 \<and> accounts v d' = accounts v d) \<and>
        (\<forall>l. sql_text v d h = Some sql_GetUserByName \<longrightarrow> params v d h = [l] \<longrightarrow>
           accounts v d' = accounts v d \<and>
           (rc = 0 \<longrightarrow> (rows v d' h = [] \<and> (\<forall>a \<in> accounts v d. \<not> same_login v (acc_login a) l)) \<or>
              (\<exists>a \<in> accounts v d. same_login v (acc_login a) l \<and> rows v d' h = [a]))))"

text \<open>
  Results. Binding the buffers and storing the rows may fail. A fetch returns 0 when it has
  filled the buffers with the next row and reported the full lengths, \<open>MYSQL_NO_DATA\<close> when there
  is no row, \<open>MYSQL_DATA_TRUNCATED\<close> when a value of the row does not fit, and 1 for an error.
\<close>

definition fetches :: "'d MySQL \<Rightarrow> 'd db_view \<Rightarrow> bool" where
  "fetches api v \<longleftrightarrow>
     (\<forall>h rs d err d'. mysql_stmt_bind_result api h rs d = (err, d') \<longrightarrow> same_tables v d d' \<and>
        (\<not> err \<longrightarrow> rows v d' h = rows v d h \<and> caps v d' h = map buffer_length rs)) \<and>
     (\<forall>h d rc d'. mysql_stmt_store_result api h d = (rc, d') \<longrightarrow> same_tables v d d' \<and>
        (rc = 0 \<longrightarrow> rows v d' h = rows v d h \<and> caps v d' h = caps v d h)) \<and>
     (\<forall>h d rc cols d'. mysql_stmt_fetch api h d = (rc, cols, d') \<longrightarrow> same_tables v d d' \<and>
        (rc = MYSQL_NO_DATA \<longrightarrow> rows v d h = []) \<and>
        (rc = MYSQL_DATA_TRUNCATED \<longrightarrow> (\<exists>a as. rows v d h = a # as \<and> \<not> fits (caps v d h) a)) \<and>
        (rc = 0 \<longrightarrow> (\<exists>a as. rows v d h = a # as \<and> fits (caps v d h) a \<and>
           (\<forall>k < 5. cols k = (filled (caps v d h ! k) (columns a ! k), length (columns a ! k))))))"

definition mysql_ok :: "'d MySQL \<Rightarrow> 'd db_view \<Rightarrow> bool" where
  "mysql_ok api v \<longleftrightarrow> equivp (same_login v) \<and> binds_params api v \<and> executes api v \<and> fetches api v"

definition has_stmt :: "'d db_view \<Rightarrow> LoginDataBase \<Rightarrow> 'd \<Rightarrow> LoginSTMT \<Rightarrow> string \<Rightarrow> bool" where
  "has_stmt v ldb d code sql \<longleftrightarrow> (\<exists>h. get_stmt code ldb = Inr (Some h) \<and> sql_text v d h = Some sql)"

lemma has_stmt_cong: "sql_text v d' = sql_text v d \<Longrightarrow> has_stmt v ldb d' = has_stmt v ldb d"
  by (simp add: has_stmt_def fun_eq_iff)

lemma bind_law: "mysql_ok api v \<Longrightarrow> mysql_stmt_bind_param api h ps d = (err, d') \<Longrightarrow>
    same_tables v d d' \<and> (\<not> err \<longrightarrow> params v d' h = map buffer ps)"
  unfolding mysql_ok_def binds_params_def by blast

lemma execute_law:
  assumes "mysql_ok api v" "mysql_stmt_execute api h d = (rc, d')"
  shows "sql_text v d' = sql_text v d"
    "sql_text v d h = Some sql_AddUser \<Longrightarrow> params v d h = [l, hs, s, a] \<Longrightarrow>
       inserted v l hs s a d d' \<or> rc \<noteq> 0 \<and> accounts v d' = accounts v d"
    "sql_text v d h = Some sql_RemoveUserByName \<Longrightarrow> params v d h = [l] \<Longrightarrow>
       deleted v l d d' \<or> rc \<noteq> 0 \<and> accounts v d' = accounts v d"
    "sql_text v d h = Some sql_GetUserByName \<Longrightarrow> params v d h = [l] \<Longrightarrow> accounts v d' = accounts v d"
    "sql_text v d h = Some sql_GetUserByName \<Longrightarrow> params v d h = [l] \<Longrightarrow> rc = 0 \<Longrightarrow>
       (rows v d' h = [] \<and> (\<forall>a \<in> accounts v d. \<not> same_login v (acc_login a) l)) \<or>
       (\<exists>a \<in> accounts v d. same_login v (acc_login a) l \<and> rows v d' h = [a])"
proof -
  have "executes api v" using assms(1) by (simp add: mysql_ok_def)
  note law = this[unfolded executes_def, THEN spec[of _ h], THEN spec[of _ d], THEN spec[of _ rc], THEN spec[of _ d'], THEN mp, OF assms(2)]
  note parts = law[THEN conjunct2, THEN conjunct1] law[THEN conjunct2, THEN conjunct2, THEN conjunct1]
    law[THEN conjunct2, THEN conjunct2, THEN conjunct2]
  show "sql_text v d' = sql_text v d" by (rule law[THEN conjunct1])
  show "inserted v l hs s a d d' \<or> rc \<noteq> 0 \<and> accounts v d' = accounts v d"
    if "sql_text v d h = Some sql_AddUser" "params v d h = [l, hs, s, a]" using parts(1) that by simp
  show "deleted v l d d' \<or> rc \<noteq> 0 \<and> accounts v d' = accounts v d"
    if "sql_text v d h = Some sql_RemoveUserByName" "params v d h = [l]" using parts(2) that by simp
  show "accounts v d' = accounts v d"
    if "sql_text v d h = Some sql_GetUserByName" "params v d h = [l]" using parts(3) that by simp
  show "(rows v d' h = [] \<and> (\<forall>a \<in> accounts v d. \<not> same_login v (acc_login a) l)) \<or>
       (\<exists>a \<in> accounts v d. same_login v (acc_login a) l \<and> rows v d' h = [a])"
    if "sql_text v d h = Some sql_GetUserByName" "params v d h = [l]" "rc = 0" using parts(3) that by simp
qed

lemma result_laws:
  assumes "mysql_ok api v"
  shows "mysql_stmt_bind_result api h rs d = (err, d') \<Longrightarrow> same_tables v d d' \<and>
      (\<not> err \<longrightarrow> rows v d' h = rows v d h \<and> caps v d' h = map buffer_length rs)"
    and "mysql_stmt_store_result api h d = (rc, d') \<Longrightarrow> same_tables v d d' \<and>
      (rc = 0 \<longrightarrow> rows v d' h = rows v d h \<and> caps v d' h = caps v d h)"
proof -
  note law = assms[unfolded mysql_ok_def fetches_def, THEN conjunct2, THEN conjunct2, THEN conjunct2]
  note bind = law[THEN conjunct1] and store = law[THEN conjunct2, THEN conjunct1]
  show "mysql_stmt_bind_result api h rs d = (err, d') \<Longrightarrow> same_tables v d d' \<and>
      (\<not> err \<longrightarrow> rows v d' h = rows v d h \<and> caps v d' h = map buffer_length rs)"
    by (rule bind[THEN spec[of _ h], THEN spec[of _ rs], THEN spec[of _ d], THEN spec[of _ err], THEN spec[of _ d'], THEN mp])
  show "mysql_stmt_store_result api h d = (rc, d') \<Longrightarrow> same_tables v d d' \<and>
      (rc = 0 \<longrightarrow> rows v d' h = rows v d h \<and> caps v d' h = caps v d h)"
    by (rule store[THEN spec[of _ h], THEN spec[of _ d], THEN spec[of _ rc], THEN spec[of _ d'], THEN mp])
qed

lemma fetch_law:
  assumes "mysql_ok api v" "mysql_stmt_fetch api h d = (rc, cols, d')"
  shows "same_tables v d d' \<and>
    (rc = MYSQL_NO_DATA \<longrightarrow> rows v d h = []) \<and>
    (rc = MYSQL_DATA_TRUNCATED \<longrightarrow> (\<exists>a as. rows v d h = a # as \<and> \<not> fits (caps v d h) a)) \<and>
    (rc = 0 \<longrightarrow> (\<exists>a as. rows v d h = a # as \<and> fits (caps v d h) a \<and>
       (\<forall>k < 5. cols k = (filled (caps v d h ! k) (columns a ! k), length (columns a ! k)))))"
proof -
  have "fetches api v" using assms(1) by (simp add: mysql_ok_def)
  then show ?thesis
    by (rule fetches_def[THEN iffD1, THEN conjunct2, THEN conjunct2, THEN spec[of _ h], THEN spec[of _ d], THEN spec[of _ rc],
          THEN spec[of _ cols], THEN spec[of _ d'], THEN mp, OF _ assms(2)])
qed

section \<open>Adding and removing an account\<close>

lemma salt_length: "openssl_ok ssl \<Longrightarrow> GenerateSalt ssl n = Some salt \<Longrightarrow> length salt = n"
  by (auto simp: GenerateSalt_def openssl_ok_def Let_def split: prod.splits if_splits)

lemma Insert_outcome:
  assumes "mysql_ok api v" "has_stmt v ldb d AddUser sql_AddUser" "DB_Insert api ssl ldb login pw d = Inr (ok, d')"
  shows "sql_text v d' = sql_text v d \<and>
    ((\<exists>salt h. GenerateSalt ssl 16 = Some salt \<and> Hash_default ssl pw salt = Inr (Some h) \<and> inserted v login h salt algo_sha256 d d') \<or>
     \<not> ok \<and> accounts v d' = accounts v d)"
proof -
  obtain st where st: "get_stmt AddUser ldb = Inr (Some st)" "sql_text v d st = Some sql_AddUser"
    using assms(2) by (auto simp: has_stmt_def)
  have n: "unat kSaltLength = 16" by (simp add: kSaltLength_def)
  show ?thesis
  proof (cases "\<exists>salt h. GenerateSalt ssl 16 = Some salt \<and> Hash_default ssl pw salt = Inr (Some h)")
    case False
    then show ?thesis using assms(3) st(1) by (auto simp: DB_Insert_def n split: option.splits)
  next
    case True
    then obtain salt h where sh: "GenerateSalt ssl 16 = Some salt" "Hash_default ssl pw salt = Inr (Some h)" by blast
    let ?ps = "[param MYSQL_TYPE_STRING login, param MYSQL_TYPE_BLOB h, param MYSQL_TYPE_BLOB salt, param MYSQL_TYPE_STRING algo_sha256]"
    obtain err d1 where b: "mysql_stmt_bind_param api st ?ps d = (err, d1)" by fastforce
    obtain rc d2 where e: "mysql_stmt_execute api st d1 = (rc, d2)" by fastforce
    have r: "if err then \<not> ok \<and> d' = d1 else ok = (rc = 0) \<and> d' = d2"
      using assms(3) st(1) sh b e by (auto simp: DB_Insert_def n)
    note law = bind_law[OF assms(1) b] execute_law(1)[OF assms(1) e] execute_law(2)[OF assms(1) e, of login h salt algo_sha256]
    show ?thesis
    proof (cases err)
      case False
      have "map buffer ?ps = [login, h, salt, algo_sha256]" by (simp add: param_def)
      with False law st(2) have "sql_text v d2 = sql_text v d"
        "inserted v login h salt algo_sha256 d1 d2 \<or> rc \<noteq> 0 \<and> accounts v d2 = accounts v d" by auto
      moreover have "inserted v login h salt algo_sha256 d1 d2 = inserted v login h salt algo_sha256 d d2"
        using law(1) by (simp add: inserted_def)
      ultimately show ?thesis using r False sh by auto
    qed (use r law(1) in simp)
  qed
qed

lemma Remove_outcome:
  assumes "mysql_ok api v" "has_stmt v ldb d RemoveUserByName sql_RemoveUserByName" "DB_Remove api ldb login d = Inr (ok, d')"
  shows "sql_text v d' = sql_text v d \<and> (deleted v login d d' \<or> \<not> ok \<and> accounts v d' = accounts v d)"
proof -
  obtain st where st: "get_stmt RemoveUserByName ldb = Inr (Some st)" "sql_text v d st = Some sql_RemoveUserByName"
    using assms(2) by (auto simp: has_stmt_def)
  obtain err d1 where b: "mysql_stmt_bind_param api st [param MYSQL_TYPE_STRING login] d = (err, d1)" by fastforce
  obtain rc d2 where e: "mysql_stmt_execute api st d1 = (rc, d2)" by fastforce
  have r: "if err then \<not> ok \<and> d' = d1 else ok = (rc = 0) \<and> d' = d2"
    using assms(3) st(1) b e by (auto simp: DB_Remove_def)
  note law = bind_law[OF assms(1) b] execute_law(1)[OF assms(1) e] execute_law(3)[OF assms(1) e, of login]
  show ?thesis
  proof (cases err)
    case False
    with law st(2) have "sql_text v d2 = sql_text v d" "deleted v login d1 d2 \<or> rc \<noteq> 0 \<and> accounts v d2 = accounts v d"
      by (auto simp: param_def)
    moreover have "deleted v login d1 d2 = deleted v login d d2" using law(1) by (simp add: deleted_def)
    ultimately show ?thesis using r False by auto
  qed (use r law(1) in simp)
qed

section \<open>Reading an account\<close>

text \<open>What a read returns for an account that is in the table.\<close>

definition read_account :: "account \<Rightarrow> LoginData" where
  "read_account a = \<lparr>ld_id = of_bytes (filled 8 (bytes_of (acc_id a))), ld_login = filled kLoginSize (acc_login a),
     ld_password_hash = filled kPasswordHashSize (acc_hash a), ld_password_salt = filled kPasswordSaltSize (acc_salt a),
     ld_password_algo = filled kPasswordAlgoSize (acc_algo a), login_length = length (acc_login a),
     hash_length = length (acc_hash a), salt_length = length (acc_salt a), algo_length = length (acc_algo a)\<rparr>"

text \<open>The five library calls of a read all succeed, where a fetch may find no row or truncate one.\<close>

definition answers :: "'d MySQL \<Rightarrow> LoginDataBase \<Rightarrow> u8 list \<Rightarrow> 'd \<Rightarrow> bool" where
  "answers api ldb login d \<longleftrightarrow> (case get_stmt GetUserByName ldb of
       Inr (Some h) \<Rightarrow>
         (let (err1, d1) = mysql_stmt_bind_param api h [param MYSQL_TYPE_STRING login] d;
              (rc2, d2) = mysql_stmt_execute api h d1;
              (err3, d3) = mysql_stmt_bind_result api h get_results d2;
              (rc4, d4) = mysql_stmt_store_result api h d3;
              (rc5, cols, d5) = mysql_stmt_fetch api h d4
          in \<not> err1 \<and> rc2 = 0 \<and> \<not> err3 \<and> rc4 = 0 \<and> (rc5 = 0 \<or> rc5 = MYSQL_NO_DATA \<or> rc5 = MYSQL_DATA_TRUNCATED))
     | _ \<Rightarrow> False)"

abbreviation readable :: "account \<Rightarrow> bool" where
  "readable \<equiv> fits (map buffer_length get_results)"

lemma get_caps: "map buffer_length get_results = [8, kLoginSize, kPasswordHashSize, kPasswordSaltSize, kPasswordAlgoSize]"
  by (simp add: get_results_def result_buffer_def)

lemma Get_outcome:
  assumes "mysql_ok api v" "has_stmt v ldb d GetUserByName sql_GetUserByName"
  shows "\<exists>r d'. DB_Get api ldb login d = Inr (r, d') \<and> same_tables v d d' \<and>
    (case r of
       Some row \<Rightarrow> answers api ldb login d \<and> (\<exists>a \<in> accounts v d. same_login v (acc_login a) login \<and> readable a \<and> row = read_account a)
     | None \<Rightarrow> answers api ldb login d \<longrightarrow> (\<forall>a \<in> accounts v d. \<not> same_login v (acc_login a) login) \<or>
         (\<exists>a \<in> accounts v d. same_login v (acc_login a) login \<and> \<not> readable a))"
proof -
  obtain st where st: "get_stmt GetUserByName ldb = Inr (Some st)" "sql_text v d st = Some sql_GetUserByName"
    using assms(2) by (auto simp: has_stmt_def)
  obtain e1 d1 where c1: "mysql_stmt_bind_param api st [param MYSQL_TYPE_STRING login] d = (e1, d1)" by fastforce
  obtain r2 d2 where c2: "mysql_stmt_execute api st d1 = (r2, d2)" by fastforce
  obtain e3 d3 where c3: "mysql_stmt_bind_result api st get_results d2 = (e3, d3)" by fastforce
  obtain r4 d4 where c4: "mysql_stmt_store_result api st d3 = (r4, d4)" by fastforce
  obtain r5 cols d5 where c5: "mysql_stmt_fetch api st d4 = (r5, cols, d5)" by (metis prod_cases3)
  note calls = st(1) c1 c2 c3 c4 c5
  note l1 = bind_law[OF assms(1) c1] and l3 = result_laws(1)[OF assms(1) c3] and l4 = result_laws(2)[OF assms(1) c4]
    and l5 = fetch_law[OF assms(1) c5]
  have ans: "answers api ldb login d \<longleftrightarrow> \<not> e1 \<and> r2 = 0 \<and> \<not> e3 \<and> r4 = 0 \<and> (r5 = 0 \<or> r5 = MYSQL_NO_DATA \<or> r5 = MYSQL_DATA_TRUNCATED)"
    by (simp add: answers_def calls)
  show ?thesis
  proof (cases "e1")
    case True
    then show ?thesis using l1 by (simp add: DB_Get_def calls ans)
  next
    case e1: False
    then have l2: "same_tables v d1 d2" "r2 = 0 \<Longrightarrow>
        (rows v d2 st = [] \<and> (\<forall>a \<in> accounts v d. \<not> same_login v (acc_login a) login)) \<or>
        (\<exists>a \<in> accounts v d. same_login v (acc_login a) login \<and> rows v d2 st = [a])"
      using execute_law(1)[OF assms(1) c2] execute_law(4,5)[OF assms(1) c2, of login] l1 st(2) by (simp_all add: param_def)
    have same: "same_tables v d d2" "same_tables v d d3" "same_tables v d d4" "same_tables v d d5"
      using l1 l2(1) l3 l4 l5 by simp_all
    show ?thesis
    proof (cases "r2 = 0 \<and> \<not> e3 \<and> r4 = 0")
      case False
      then show ?thesis using same e1 by (auto simp: DB_Get_def calls ans split: bool.split)
    next
      case ok: True
      have caps: "caps v d4 st = map buffer_length get_results" and rw: "rows v d4 st = rows v d2 st" using l3 l4 ok by simp_all
      have nums: "MYSQL_NO_DATA \<noteq> 0" "MYSQL_DATA_TRUNCATED \<noteq> 0" "MYSQL_DATA_TRUNCATED \<noteq> MYSQL_NO_DATA"
        by (simp_all add: MYSQL_NO_DATA_def MYSQL_DATA_TRUNCATED_def)
      show ?thesis
      proof (cases "r5 = 0")
        case True
        then obtain a as where a: "rows v d4 st = a # as" "readable a"
          "\<forall>k < 5. cols k = (filled (map buffer_length get_results ! k) (columns a ! k), length (columns a ! k))"
          using l5 caps by auto
        have "cols 0 = (filled 8 (bytes_of (acc_id a)), 8)" "cols 1 = (filled kLoginSize (acc_login a), length (acc_login a))"
          "cols 2 = (filled kPasswordHashSize (acc_hash a), length (acc_hash a))"
          "cols 3 = (filled kPasswordSaltSize (acc_salt a), length (acc_salt a))"
          "cols 4 = (filled kPasswordAlgoSize (acc_algo a), length (acc_algo a))"
          using a(3) by (simp_all add: columns_def get_caps)
        then have "DB_Get api ldb login d = Inr (Some (read_account a), d5)"
          using e1 ok True nums by (simp add: DB_Get_def calls read_account_def)
        moreover have "a \<in> accounts v d \<and> same_login v (acc_login a) login" using l2(2) ok a(1) rw by auto
        moreover have "answers api ldb login d" using ans e1 ok True by blast
        ultimately show ?thesis using a(2) same(4) by auto
      next
        case False
        then have g: "DB_Get api ldb login d = Inr (None, d5)" using e1 ok by (simp add: DB_Get_def calls)
        have "(\<forall>a \<in> accounts v d. \<not> same_login v (acc_login a) login) \<or>
            (\<exists>a \<in> accounts v d. same_login v (acc_login a) login \<and> \<not> readable a)" if "answers api ldb login d"
        proof -
          have "r5 = MYSQL_NO_DATA \<or> r5 = MYSQL_DATA_TRUNCATED" using that ans False by blast
          then show ?thesis using l5 l2(2) ok rw caps by auto
        qed
        with g same(4) show ?thesis by (intro exI[of _ None] exI[of _ d5]) simp
      qed
    qed
  qed
qed

lemma filled_prefix: "length bs \<le> n \<Longrightarrow> take (length bs) (filled n bs) = bs"
  by (simp add: filled_def)

lemma readable_iff:
  "readable a \<longleftrightarrow> length (acc_login a) \<le> 64 \<and> length (acc_hash a) \<le> 255 \<and>
     length (acc_salt a) \<le> 64 \<and> length (acc_algo a) \<le> 16"
  by (simp add: fits_def get_caps columns_def kLoginSize_def kPasswordHashSize_def kPasswordSaltSize_def kPasswordAlgoSize_def)

text \<open>An account that was stored for a password, and a row that belongs to login and password.\<close>

definition stored_for :: "OpenSSL \<Rightarrow> u8 list \<Rightarrow> account \<Rightarrow> bool" where
  "stored_for ssl pw a \<longleftrightarrow> Hash_default ssl pw (acc_salt a) = Inr (Some (acc_hash a)) \<and> length (acc_salt a) = 16 \<and>
     acc_algo a = algo_sha256"

definition row_for :: "OpenSSL \<Rightarrow> u8 list \<Rightarrow> u8 list \<Rightarrow> LoginData \<Rightarrow> bool" where
  "row_for ssl login pw row \<longleftrightarrow> take (login_length row) (ld_login row) = login \<and>
     take (algo_length row) (ld_password_algo row) = algo_sha256 \<and>
     VerifyHash ssl pw (take (hash_length row) (ld_password_hash row)) (take (salt_length row) (ld_password_salt row)) = Inr True"

lemma stored_readable:
  assumes "openssl_ok ssl" "stored_for ssl pw a"
  shows "readable a \<longleftrightarrow> length (acc_login a) \<le> 64" "length (acc_login a) \<le> 64 \<Longrightarrow> row_for ssl (acc_login a) pw (read_account a)"
proof -
  have h: "Hash_default ssl pw (acc_salt a) = Inr (Some (acc_hash a))" using assms(2) by (simp add: stored_for_def)
  have len: "length (acc_hash a) = 32" "length (acc_salt a) = 16" "acc_algo a = algo_sha256" "length algo_sha256 = 6"
    using hash_length[OF assms(1) h] assms(2) by (simp_all add: stored_for_def algo_sha256_def)
  then show "readable a \<longleftrightarrow> length (acc_login a) \<le> 64" by (simp add: readable_iff)
  show "length (acc_login a) \<le> 64 \<Longrightarrow> row_for ssl (acc_login a) pw (read_account a)"
    using len filled_prefix[of "acc_hash a" 255] filled_prefix[of "acc_salt a" 64] filled_prefix[of algo_sha256 16]
      verify_iff[OF assms(1) h, of "acc_hash a"]
    by (simp add: row_for_def read_account_def filled_prefix kLoginSize_def kPasswordHashSize_def kPasswordSaltSize_def kPasswordAlgoSize_def)
qed

text \<open>After a successful insertion the only account a read of that login can meet is the new one.\<close>

lemma inserted_only:
  assumes "mysql_ok api v" "inserted v login h salt algo d d'"
  obtains a where "accounts v d' = insert a (accounts v d)" "acc_login a = login" "acc_hash a = h" "acc_salt a = salt" "acc_algo a = algo"
    "\<And>l b. same_login v login l \<Longrightarrow> b \<in> accounts v d' \<Longrightarrow> same_login v (acc_login b) l \<longleftrightarrow> b = a"
proof -
  have eq: "equivp (same_login v)" using assms(1) by (simp add: mysql_ok_def)
  obtain i where i: "accounts v d' = insert \<lparr>acc_id = i, acc_login = login, acc_hash = h, acc_salt = salt, acc_algo = algo\<rparr> (accounts v d)"
    "\<forall>b \<in> accounts v d. \<not> same_login v (acc_login b) login" using assms(2) by (auto simp: inserted_def)
  show thesis
  proof (rule that[OF i(1)])
    fix l b
    assume l: "same_login v login l" and b: "b \<in> accounts v d'"
    have "\<not> same_login v (acc_login b) l" if "b \<in> accounts v d"
      using i(2) that l equivp_transp[OF eq] equivp_symp[OF eq] by blast
    with l b i(1) show "same_login v (acc_login b) l \<longleftrightarrow>
        b = \<lparr>acc_id = i, acc_login = login, acc_hash = h, acc_salt = salt, acc_algo = algo\<rparr>" by auto
  qed simp_all
qed

text \<open>
  C37. A registered account can log in. After \<open>Insert\<close> has returned true for a login of at most 64
  bytes, \<open>Get\<close> returns a row exactly when none of the library calls it makes reports an error,
  and that row has the login and the algorithm as stored, and the password it was registered
  with verifies against the hash and the salt that come back.
\<close>

theorem register_then_login:
  assumes "openssl_ok ssl" "mysql_ok api v" "has_stmt v ldb d AddUser sql_AddUser"
    and "has_stmt v ldb d GetUserByName sql_GetUserByName"
    and "length login \<le> 64" "DB_Insert api ssl ldb login pw d = Inr (True, d')"
  shows "\<exists>r d''. DB_Get api ldb login d' = Inr (r, d'') \<and> (r \<noteq> None \<longleftrightarrow> answers api ldb login d') \<and>
    (\<forall>row. r = Some row \<longrightarrow> take (login_length row) (ld_login row) = login \<and>
       take (algo_length row) (ld_password_algo row) = algo_sha256 \<and>
       VerifyHash ssl pw (take (hash_length row) (ld_password_hash row)) (take (salt_length row) (ld_password_salt row)) = Inr True)"
proof -
  from Insert_outcome[OF assms(2,3,6)] obtain salt h where i: "sql_text v d' = sql_text v d" "GenerateSalt ssl 16 = Some salt"
    "Hash_default ssl pw salt = Inr (Some h)" "inserted v login h salt algo_sha256 d d'" by auto
  obtain a where a: "acc_login a = login" "acc_hash a = h" "acc_salt a = salt" "acc_algo a = algo_sha256" "a \<in> accounts v d'"
    "\<And>b. b \<in> accounts v d' \<Longrightarrow> same_login v (acc_login b) login \<longleftrightarrow> b = a"
    using inserted_only[OF assms(2) i(4)] assms(2) unfolding mysql_ok_def by (metis equivp_reflp insertI1)
  have "stored_for ssl pw a" using a(2-4) i(3) salt_length[OF assms(1) i(2)] by (simp add: stored_for_def)
  from stored_readable[OF assms(1) this] a(1) assms(5) have r: "readable a" "row_for ssl login pw (read_account a)" by simp_all
  have "has_stmt v ldb d' GetUserByName sql_GetUserByName" using assms(4) has_stmt_cong[OF i(1)] by simp
  from Get_outcome[OF assms(2) this, of login] obtain res d'' where g: "DB_Get api ldb login d' = Inr (res, d'')"
    "case res of
       Some row \<Rightarrow> answers api ldb login d' \<and> (\<exists>a \<in> accounts v d'. same_login v (acc_login a) login \<and> readable a \<and> row = read_account a)
     | None \<Rightarrow> answers api ldb login d' \<longrightarrow> (\<forall>a \<in> accounts v d'. \<not> same_login v (acc_login a) login) \<or>
         (\<exists>a \<in> accounts v d'. same_login v (acc_login a) login \<and> \<not> readable a)" by blast
  show ?thesis
  proof (cases res)
    case None
    with g(2) a(5,6) r(1) have "\<not> answers api ldb login d'" by auto
    with g(1) None show ?thesis by simp
  next
    case (Some row)
    with g(2) a(6) have "answers api ldb login d'" "row = read_account a" by auto
    with g(1) Some r(2) show ?thesis by (simp add: row_for_def)
  qed
qed


section \<open>Preparing the statements\<close>

text \<open>
  Statement handles: \<open>mysql_stmt_init\<close> gives a handle without a text, \<open>mysql_stmt_prepare\<close> gives it
  one or fails, \<open>mysql_stmt_close\<close> takes it away; other handles keep theirs.
\<close>

definition prepares :: "'d MySQL \<Rightarrow> 'd db_view \<Rightarrow> bool" where
  "prepares api v \<longleftrightarrow>
     (\<forall>c d st d'. mysql_stmt_init api c d = (st, d') \<longrightarrow> sql_text v d' = sql_text v d \<and>
        (case st of None \<Rightarrow> True | Some h \<Rightarrow> sql_text v d h = None)) \<and>
     (\<forall>h sql d rc d'. mysql_stmt_prepare api h sql d = (rc, d') \<longrightarrow>
        sql_text v d' = (if rc = 0 then (sql_text v d)(h \<mapsto> sql) else sql_text v d)) \<and>
     (\<forall>h d e d'. mysql_stmt_close api h d = (e, d') \<longrightarrow> sql_text v d' = (sql_text v d)(h := None))"

text \<open>A slot holds no statement or one prepared with the text that belongs to it.\<close>

definition slot_ok :: "'d db_view \<Rightarrow> LoginDataBase \<times> 'd \<Rightarrow> LoginSTMT \<Rightarrow> string \<Rightarrow> bool" where
  "slot_ok v s code sql \<longleftrightarrow> (get_stmt code (fst s) = Inr None \<or> has_stmt v (fst s) (snd s) code sql)"

lemma stmt_index_inj: "stmt_index a = stmt_index b \<Longrightarrow> a = b"
  by (cases a; cases b) simp_all

lemma get_set_stmt:
  assumes "set_stmt code x ldb = Inr ldb'"
  shows "get_stmt code ldb' = Inr x" "code' \<noteq> code \<Longrightarrow> get_stmt code' ldb' = get_stmt code' ldb" "length (stmts ldb') = length (stmts ldb)"
  using assms stmt_index_inj[of code code'] by (auto simp: set_stmt_def get_stmt_def vec_at_def nth_list_update split: if_splits)

lemma prepare_slot:
  assumes "prepares api v" "PrepareSTMT api code sql s = Inr s'"
  shows "slot_ok v s' code sql" "code' \<noteq> code \<Longrightarrow> slot_ok v s code' sql' \<Longrightarrow> slot_ok v s' code' sql'"
    "length (stmts (fst s')) = length (stmts (fst s))"
proof -
  obtain ldb d where s: "s = (ldb, d)" by (cases s)
  obtain h d1 where i: "mysql_stmt_init api (db_handle (connection ldb)) d = (Some h, d1)"
    using assms(2) s by (auto simp: PrepareSTMT_def split: prod.splits option.splits)
  obtain rc d2 where p: "mysql_stmt_prepare api h sql d1 = (rc, d2)" by fastforce
  obtain e d3 where c: "mysql_stmt_close api h d2 = (e, d3)" by fastforce
  have t: "sql_text v d h = None" "sql_text v d2 = (if rc = 0 then (sql_text v d)(h \<mapsto> sql) else sql_text v d)"
    "sql_text v d3 = (sql_text v d2)(h := None)"
    using assms(1) i p c unfolding prepares_def by (fastforce split: option.splits)+
  obtain ldb' where l: "set_stmt code (if rc = 0 then Some h else None) ldb = Inr ldb'" "s' = (ldb', if rc = 0 then d2 else d3)"
    using assms(2) s i p c by (auto simp: PrepareSTMT_def split: if_splits)
  note g = get_set_stmt[OF l(1)]
  show "slot_ok v s' code sql" using g(1) t l(2) by (auto simp: slot_ok_def has_stmt_def)
  show "length (stmts (fst s')) = length (stmts (fst s))" using g(3) l(2) s by simp
  show "slot_ok v s' code' sql'" if "code' \<noteq> code" "slot_ok v s code' sql'"
  proof -
    have "sql_text v (snd s') x = sql_text v d x" if "sql_text v d x = Some sql'" for x
      using that t l(2) by (cases "x = h") simp_all
    with that(2) g(2)[OF that(1)] l(2) s show ?thesis by (auto simp: slot_ok_def has_stmt_def)
  qed
qed

text \<open>
  When the constructor returns, each of the three slots is empty or holds a statement
  prepared with the SQL text that belongs to it; a statement whose preparation failed is closed
  and not kept.
\<close>

lemma constructor_prepares:
  assumes "prepares api v" "LoginDataBase_new api c d = Inr (ldb, d')"
  shows "length (stmts ldb) = kNumStmts \<and> slot_ok v (ldb, d') AddUser sql_AddUser \<and>
    slot_ok v (ldb, d') GetUserByName sql_GetUserByName \<and> slot_ok v (ldb, d') RemoveUserByName sql_RemoveUserByName"
proof -
  let ?s = "(InitStmts kNumStmts \<lparr>connection = fst (SQLConnection_move c), stmts = []\<rparr>, d)"
  obtain s1 s2 where s: "PrepareSTMT api AddUser sql_AddUser ?s = Inr s1" "PrepareSTMT api GetUserByName sql_GetUserByName s1 = Inr s2"
    "PrepareSTMT api RemoveUserByName sql_RemoveUserByName s2 = Inr (ldb, d')"
    using assms(2) by (auto simp: LoginDataBase_new_def PrepareStatements_def SQLConnection_move_def)
  note p = prepare_slot[OF assms(1) s(1)] prepare_slot[OF assms(1) s(2)] prepare_slot[OF assms(1) s(3)]
  show ?thesis using p(1,3,4,6,7,9) p(5)[of AddUser sql_AddUser] p(8)[of AddUser sql_AddUser] p(8)[of GetUserByName sql_GetUserByName]
    by (simp add: InitStmts_def)
qed

section \<open>The connection handle\<close>

text \<open>
  \<open>Load\<close> on every path: without a handle it returns nothing and calls nothing else; when the
  connection is refused it closes the handle it got and returns nothing; otherwise the handle
  is in the connection it returns and is not closed, and destroying that connection, but not
  the moved-from one, closes it.
\<close>

lemma Load_owns_handle:
  "SQL_Load api host user pw name d =
     (case mysql_init api d of
        (None, d1) \<Rightarrow> (None, d1)
      | (Some h, d1) \<Rightarrow>
         (case mysql_real_connect api (Some h) host user pw name d1 of
            (False, d2) \<Rightarrow> (None, mysql_close api h d2)
          | (True, d2) \<Rightarrow> (Some \<lparr>db_handle = Some h\<rparr>, d2))) \<and>
   SQLConnection_destroy api \<lparr>db_handle = Some h\<rparr> d = mysql_close api h d \<and>
   SQLConnection_destroy api (snd (SQLConnection_move c)) d = d"
  by (auto simp: SQL_Load_def SQL_Init_def SQL_Connect_def SQLConnection_new_def SQLConnection_destroy_def SQLConnection_move_def
      split: prod.splits option.splits bool.splits)

text \<open>Move assignment drops the handle of the target without closing it.\<close>

lemma move_assign_leaks:
  "(case SQLConnection_move_assign False \<lparr>db_handle = Some h\<rparr> other of
      (this, rest) \<Rightarrow> SQLConnection_destroy api this (SQLConnection_destroy api rest d)) = SQLConnection_destroy api other d"
  by (simp add: SQLConnection_move_assign_def SQLConnection_destroy_def split: option.splits)

section \<open>A concrete database\<close>

text \<open>
  A stand-in for server and library: logins are equal up to spaces at the end, and characters
  are counted as in UTF-8.
\<close>

record wdb =
  w_acc :: "account list"
  w_text :: "nat \<Rightarrow> string option"
  w_par :: "nat \<Rightarrow> u8 list list"
  w_rows :: "nat \<Rightarrow> account list"
  w_caps :: "nat \<Rightarrow> nat list"
  w_next :: nat

definition unpadded :: "u8 list \<Rightarrow> u8 list" where
  "unpadded l = rev (dropWhile (\<lambda>b. b = 0x20) (rev l))"

definition pad_equal :: "u8 list \<Rightarrow> u8 list \<Rightarrow> bool" where
  "pad_equal a b \<longleftrightarrow> unpadded a = unpadded b"

definition utf8_length :: "u8 list \<Rightarrow> nat" where
  "utf8_length l = length (filter (\<lambda>b. \<not> (0x80 \<le> b \<and> b < 0xC0)) l)"

definition w_sql :: "wdb \<Rightarrow> nat \<Rightarrow> string option" where
  "w_sql d h = (if h < w_next d then w_text d h else None)"

definition w_matches :: "u8 list \<Rightarrow> wdb \<Rightarrow> account list" where
  "w_matches l d = filter (\<lambda>a. pad_equal (acc_login a) l) (w_acc d)"

definition w_execute :: "nat \<Rightarrow> wdb \<Rightarrow> int \<times> wdb" where
  "w_execute h d =
     (if w_sql d h = Some sql_AddUser
      then (case w_par d h of [l, hs, s, a] \<Rightarrow>
              if w_matches l d \<noteq> [] \<or> 64 < utf8_length l then (1, d)
              else (0, d\<lparr>w_acc := \<lparr>acc_id = 0, acc_login = l, acc_hash = hs, acc_salt = s, acc_algo = a\<rparr> # w_acc d\<rparr>)
            | _ \<Rightarrow> (1, d))
      else if w_sql d h = Some sql_GetUserByName
      then (case w_par d h of [l] \<Rightarrow> (0, d\<lparr>w_rows := (w_rows d)(h := take 1 (w_matches l d))\<rparr>) | _ \<Rightarrow> (1, d))
      else if w_sql d h = Some sql_RemoveUserByName
      then (case w_par d h of
              [l] \<Rightarrow> (0, case w_matches l d of [] \<Rightarrow> d | a # as \<Rightarrow> d\<lparr>w_acc := removeAll a (w_acc d)\<rparr>)
            | _ \<Rightarrow> (1, d))
      else (1, d))"

definition w_fetch :: "nat \<Rightarrow> wdb \<Rightarrow> int \<times> (nat \<Rightarrow> u8 list \<times> nat) \<times> wdb" where
  "w_fetch h d = (case w_rows d h of
       [] \<Rightarrow> (MYSQL_NO_DATA, \<lambda>_. ([], 0), d)
     | a # as \<Rightarrow> (if fits (w_caps d h) a then 0 else MYSQL_DATA_TRUNCATED,
         \<lambda>k. (filled (w_caps d h ! k) (columns a ! k), length (columns a ! k)), d))"

definition wit_api :: "wdb MySQL" where
  "wit_api = \<lparr>mysql_init = (\<lambda>d. (Some 0, d)), mysql_real_connect = (\<lambda>c host user pw name d. (True, d)), mysql_close = (\<lambda>h d. d),
     mysql_stmt_init = (\<lambda>c d. (Some (w_next d), d\<lparr>w_next := Suc (w_next d), w_text := (w_text d)(w_next d := None)\<rparr>)),
     mysql_stmt_prepare = (\<lambda>h sql d. if h < w_next d then (0, d\<lparr>w_text := (w_text d)(h \<mapsto> sql)\<rparr>) else (1, d)),
     mysql_stmt_close = (\<lambda>h d. (False, d\<lparr>w_text := (w_text d)(h := None)\<rparr>)),
     mysql_stmt_bind_param = (\<lambda>h ps d. (False, d\<lparr>w_par := (w_par d)(h := map buffer ps)\<rparr>)),
     mysql_stmt_execute = w_execute,
     mysql_stmt_bind_result = (\<lambda>h rs d. (False, d\<lparr>w_caps := (w_caps d)(h := map buffer_length rs)\<rparr>)),
     mysql_stmt_store_result = (\<lambda>h d. (0, d)), mysql_stmt_fetch = w_fetch\<rparr>"

definition wit_view :: "wdb db_view" where
  "wit_view = \<lparr>accounts = (\<lambda>d. set (w_acc d)), sql_text = w_sql, params = w_par, rows = w_rows, caps = w_caps,
     same_login = pad_equal, characters = utf8_length\<rparr>"

lemma sql_distinct [simp]:
  "sql_AddUser \<noteq> sql_GetUserByName" "sql_GetUserByName \<noteq> sql_AddUser" "sql_AddUser \<noteq> sql_RemoveUserByName"
  "sql_RemoveUserByName \<noteq> sql_AddUser" "sql_GetUserByName \<noteq> sql_RemoveUserByName" "sql_RemoveUserByName \<noteq> sql_GetUserByName"
  by (simp_all add: sql_AddUser_def sql_GetUserByName_def sql_RemoveUserByName_def)

lemma w_sql_frame [simp]:
  "w_sql (d\<lparr>w_acc := a\<rparr>) = w_sql d" "w_sql (d\<lparr>w_par := b\<rparr>) = w_sql d" "w_sql (d\<lparr>w_rows := r\<rparr>) = w_sql d" "w_sql (d\<lparr>w_caps := c\<rparr>) = w_sql d"
  by (rule ext, simp add: w_sql_def)+

lemma w_matches_iff:
  "w_matches l d = [] \<longleftrightarrow> (\<forall>a \<in> set (w_acc d). \<not> pad_equal (acc_login a) l)"
  "w_matches l d = a # as \<Longrightarrow> a \<in> set (w_acc d) \<and> pad_equal (acc_login a) l"
  by (auto simp: w_matches_def filter_empty_conv filter_eq_Cons_iff)

lemma wit_insert_law:
  assumes "w_sql d h = Some sql_AddUser" "w_par d h = [l, hs, s, a]" "w_execute h d = (rc, d')"
  shows "inserted wit_view l hs s a d d' \<or> rc \<noteq> 0 \<and> w_acc d' = w_acc d"
  using assms by (auto simp: w_execute_def inserted_def wit_view_def w_matches_iff split: if_splits)

lemma wit_delete_law:
  assumes "w_sql d h = Some sql_RemoveUserByName" "w_par d h = [l]" "w_execute h d = (rc, d')"
  shows "deleted wit_view l d d'"
proof (cases "w_matches l d")
  case Nil
  then have "\<not> (\<exists>a \<in> set (w_acc d). pad_equal (acc_login a) l)" "d' = d"
    using assms w_matches_iff(1)[of l d] by (simp_all add: w_execute_def)
  then show ?thesis by (simp add: deleted_def wit_view_def)
next
  case (Cons b bs)
  from w_matches_iff(2)[OF this] Cons assms show ?thesis by (auto simp: w_execute_def deleted_def wit_view_def)
qed

lemma wit_select_law:
  assumes "w_sql d h = Some sql_GetUserByName" "w_par d h = [l]" "w_execute h d = (rc, d')"
  shows "w_acc d' = w_acc d \<and> ((w_rows d' h = [] \<and> (\<forall>a \<in> set (w_acc d). \<not> pad_equal (acc_login a) l)) \<or>
    (\<exists>a \<in> set (w_acc d). pad_equal (acc_login a) l \<and> w_rows d' h = [a]))"
proof (cases "w_matches l d")
  case Nil
  then show ?thesis using assms by (auto simp: w_execute_def w_matches_iff)
next
  case (Cons b bs)
  from w_matches_iff(2)[OF this] Cons assms show ?thesis by (auto simp: w_execute_def)
qed

lemma w_execute_sql: "w_execute h d = (rc, d') \<Longrightarrow> w_sql d' = w_sql d"
  by (auto simp: w_execute_def split: if_splits list.splits)

lemma wit_mysql_ok: "mysql_ok wit_api wit_view"
proof -
  have "equivp pad_equal" by (intro equivpI reflpI sympI transpI) (simp_all add: pad_equal_def)
  then have "equivp (same_login wit_view)" by (simp add: wit_view_def)
  moreover have "binds_params wit_api wit_view" by (simp add: binds_params_def wit_api_def wit_view_def)
  moreover have "executes wit_api wit_view"
    unfolding executes_def
  proof (intro allI impI conjI)
    fix h d rc d'
    assume "mysql_stmt_execute wit_api h d = (rc, d')"
    then have e: "w_execute h d = (rc, d')" by (simp add: wit_api_def)
    show "sql_text wit_view d' = sql_text wit_view d" using w_execute_sql[OF e] by (simp add: wit_view_def)
    show "inserted wit_view l hs s a d d' \<or> rc \<noteq> 0 \<and> accounts wit_view d' = accounts wit_view d"
      if "sql_text wit_view d h = Some sql_AddUser" "params wit_view d h = [l, hs, s, a]" for l hs s a
      using wit_insert_law[OF _ _ e, of l hs s a] that by (auto simp: wit_view_def)
    show "deleted wit_view l d d' \<or> rc \<noteq> 0 \<and> accounts wit_view d' = accounts wit_view d"
      if "sql_text wit_view d h = Some sql_RemoveUserByName" "params wit_view d h = [l]" for l
      using wit_delete_law[OF _ _ e, of l] that by (simp add: wit_view_def)
    note sel = wit_select_law[OF _ _ e]
    show "accounts wit_view d' = accounts wit_view d"
      if "sql_text wit_view d h = Some sql_GetUserByName" "params wit_view d h = [l]" for l
      using sel[of l] that by (simp add: wit_view_def)
    show "(rows wit_view d' h = [] \<and> (\<forall>a \<in> accounts wit_view d. \<not> same_login wit_view (acc_login a) l)) \<or>
        (\<exists>a \<in> accounts wit_view d. same_login wit_view (acc_login a) l \<and> rows wit_view d' h = [a])"
      if "sql_text wit_view d h = Some sql_GetUserByName" "params wit_view d h = [l]" for l
      using sel[of l] that by (simp add: wit_view_def)
  qed
  moreover have "fetches wit_api wit_view"
    by (auto simp: fetches_def wit_api_def wit_view_def w_fetch_def MYSQL_NO_DATA_def MYSQL_DATA_TRUNCATED_def
        split: list.splits if_splits)
  ultimately show ?thesis by (simp add: mysql_ok_def)
qed

lemma wit_prepares: "prepares wit_api wit_view"
  by (auto simp: prepares_def wit_api_def wit_view_def w_sql_def fun_eq_iff split: if_splits)

definition wit_db :: wdb where
  "wit_db = \<lparr>w_acc = [], w_text = [0 \<mapsto> sql_AddUser, 1 \<mapsto> sql_GetUserByName, 2 \<mapsto> sql_RemoveUserByName],
     w_par = (\<lambda>_. []), w_rows = (\<lambda>_. []), w_caps = (\<lambda>_. []), w_next = 3\<rparr>"

definition wit_ldb :: LoginDataBase where
  "wit_ldb = \<lparr>connection = \<lparr>db_handle = Some 0\<rparr>, stmts = [None, Some 0, Some 1, None, Some 2]\<rparr>"

lemma wit_stmts:
  "has_stmt wit_view wit_ldb wit_db AddUser sql_AddUser" "has_stmt wit_view wit_ldb wit_db GetUserByName sql_GetUserByName"
  "has_stmt wit_view wit_ldb wit_db RemoveUserByName sql_RemoveUserByName"
  by (simp_all add: has_stmt_def wit_ldb_def get_stmt_def wit_view_def w_sql_def wit_db_def)

lemma wit_insert: "utf8_length login \<le> 64 \<Longrightarrow> \<exists>d'. DB_Insert wit_api wit_ssl wit_ldb login [2] wit_db = Inr (True, d')"
proof -
  assume l: "utf8_length login \<le> 64"
  have g: "GenerateSalt wit_ssl n = Some (replicate n 0)" for n by (simp add: GenerateSalt_def wit_ssl_def)
  have "w_matches login (wit_db\<lparr>w_par := p\<rparr>) = []" for p by (simp add: w_matches_def wit_db_def)
  moreover have "w_sql wit_db 0 = Some sql_AddUser" by (simp add: w_sql_def wit_db_def)
  ultimately show ?thesis using l
    by (simp add: DB_Insert_def wit_ldb_def get_stmt_def g Hash_default_eq) (simp add: wit_ssl_def wit_api_def w_execute_def param_def)
qed

text \<open>The library of the example always answers.\<close>

lemma w_fetch_code: "fst (w_fetch h d) = 0 \<or> fst (w_fetch h d) = MYSQL_NO_DATA \<or> fst (w_fetch h d) = MYSQL_DATA_TRUNCATED"
  by (simp add: w_fetch_def split: list.split)

lemma wit_answers: "w_sql d 1 = Some sql_GetUserByName \<Longrightarrow> answers wit_api wit_ldb login d"
proof -
  assume s: "w_sql d 1 = Some sql_GetUserByName"
  have get: "get_stmt GetUserByName wit_ldb = Inr (Some 1)" by (simp add: wit_ldb_def get_stmt_def)
  show ?thesis using w_fetch_code s by (simp add: answers_def get Let_def case_prod_beta) (simp add: wit_api_def w_execute_def param_def)
qed

lemma wit_short: "utf8_length [1] \<le> 64"
  by code_simp

theorem register_then_login_witness:
  "\<exists>d' row d''. DB_Insert wit_api wit_ssl wit_ldb [1] [2] wit_db = Inr (True, d') \<and> DB_Get wit_api wit_ldb [1] d' = Inr (Some row, d'') \<and>
     take (login_length row) (ld_login row) = [1]"
proof -
  obtain d' where i: "DB_Insert wit_api wit_ssl wit_ldb [1] [2] wit_db = Inr (True, d')"
    using wit_insert[of "[1]"] wit_short by blast
  have "sql_text wit_view d' = sql_text wit_view wit_db" using Insert_outcome[OF wit_mysql_ok wit_stmts(1) i] by blast
  then have "answers wit_api wit_ldb [1] d'" by (intro wit_answers) (simp add: wit_view_def w_sql_def wit_db_def)
  with register_then_login[OF wit_ssl_ok wit_mysql_ok wit_stmts(1,2) _ i] i show ?thesis by auto
qed

text \<open>Thirty-three characters of two bytes.\<close>

definition wit_long :: "u8 list" where
  "wit_long = concat (replicate 33 [0xC3, 0xA9])"

lemma wit_long_facts: "length wit_long = 66" "utf8_length wit_long = 33"
  by code_simp+


lemma constructor_prepares_witness:
  "\<exists>ldb d'. LoginDataBase_new wit_api \<lparr>db_handle = Some 0\<rparr> (wit_db\<lparr>w_next := 0\<rparr>) = Inr (ldb, d') \<and> length (stmts ldb) = kNumStmts"
proof -
  have "\<exists>ldb d'. LoginDataBase_new wit_api \<lparr>db_handle = Some 0\<rparr> (wit_db\<lparr>w_next := 0\<rparr>) = Inr (ldb, d')"
    by (simp add: LoginDataBase_new_def SQLConnection_move_def PrepareStatements_def PrepareSTMT_def InitStmts_def set_stmt_def
        kNumStmts_def wit_api_def)
  then show ?thesis using constructor_prepares[OF wit_prepares] by blast
qed

end
