(* ===== verification/Accounts.thy ===== *)
theory Accounts
  imports DatabaseLogic
begin

text \<open>
  The account database over a whole run of \<open>Insert\<close>, \<open>Remove\<close> and \<open>Get\<close> calls with any results,
  failures included: it refines an abstract store, a map from logins to passwords in which two
  logins that are equal under the collation of the column are never both present.
\<close>

section \<open>Runs of the three operations\<close>

text \<open>A call with its arguments and result; for \<open>Get\<close> also whether all library calls succeeded.\<close>

datatype db_call =
    Inserted "u8 list" "u8 list" bool
  | Removed "u8 list" bool
  | Got "u8 list" bool "LoginData option"

inductive db_step :: "'d MySQL \<Rightarrow> OpenSSL \<Rightarrow> LoginDataBase \<Rightarrow> 'd \<Rightarrow> db_call \<Rightarrow> 'd \<Rightarrow> bool"
  for api :: "'d MySQL" and ssl :: OpenSSL and ldb :: LoginDataBase where
  insert_call: "DB_Insert api ssl ldb l pw d = Inr (ok, d') \<Longrightarrow> db_step api ssl ldb d (Inserted l pw ok) d'"
| remove_call: "DB_Remove api ldb l d = Inr (ok, d') \<Longrightarrow> db_step api ssl ldb d (Removed l ok) d'"
| get_call: "DB_Get api ldb l d = Inr (r, d') \<Longrightarrow> db_step api ssl ldb d (Got l (answers api ldb l d) r) d'"

inductive db_run :: "'d MySQL \<Rightarrow> OpenSSL \<Rightarrow> LoginDataBase \<Rightarrow> 'd \<Rightarrow> db_call list \<Rightarrow> 'd \<Rightarrow> bool"
  for api :: "'d MySQL" and ssl :: OpenSSL and ldb :: LoginDataBase where
  db_nil: "db_run api ssl ldb d [] d"
| db_snoc: "db_run api ssl ldb d cs d' \<Longrightarrow> db_step api ssl ldb d' c d'' \<Longrightarrow> db_run api ssl ldb d (cs @ [c]) d''"

section \<open>The abstract store\<close>

text \<open>
  A store of passwords by login. A call that reports failure has had its effect or none. A \<open>Get\<close>
  that returns a row returns the stored spelling of the login with a hash and a salt against
  which the stored password verifies; an answered \<open>Get\<close> returns no row only when no equal login
  is stored, or one of more than 64 bytes.
\<close>

definition store_step ::
  "OpenSSL \<Rightarrow> (u8 list \<Rightarrow> u8 list \<Rightarrow> bool) \<Rightarrow> (u8 list \<rightharpoonup> u8 list) \<Rightarrow> db_call \<Rightarrow> (u8 list \<rightharpoonup> u8 list) \<Rightarrow> bool" where
  "store_step ssl same m c m' \<longleftrightarrow> (case c of
       Inserted l pw ok \<Rightarrow> (\<forall>k \<in> dom m. \<not> same k l) \<and> m' = m(l \<mapsto> pw) \<or> \<not> ok \<and> m' = m
     | Removed l ok \<Rightarrow> m' = m |` {k. \<not> same k l} \<or> \<not> ok \<and> m' = m
     | Got l answered r \<Rightarrow> m' = m \<and>
         (case r of
            Some row \<Rightarrow> answered \<and> (\<exists>k pw. m k = Some pw \<and> same k l \<and> row_for ssl k pw row)
          | None \<Rightarrow> answered \<longrightarrow> (\<forall>k \<in> dom m. same k l \<longrightarrow> 64 < length k)))"

inductive store_run ::
  "OpenSSL \<Rightarrow> (u8 list \<Rightarrow> u8 list \<Rightarrow> bool) \<Rightarrow> (u8 list \<rightharpoonup> u8 list) \<Rightarrow> db_call list \<Rightarrow> (u8 list \<rightharpoonup> u8 list) \<Rightarrow> bool"
  for ssl :: OpenSSL and same :: "u8 list \<Rightarrow> u8 list \<Rightarrow> bool" where
  store_nil: "store_run ssl same m [] m"
| store_snoc: "store_run ssl same m cs m' \<Longrightarrow> store_step ssl same m' c m'' \<Longrightarrow> store_run ssl same m (cs @ [c]) m''"

text \<open>The table holds one row per stored login, equal logins once, hashed from the stored password.\<close>

definition coupled :: "OpenSSL \<Rightarrow> 'd db_view \<Rightarrow> (u8 list \<rightharpoonup> u8 list) \<Rightarrow> 'd \<Rightarrow> bool" where
  "coupled ssl v m d \<longleftrightarrow> dom m = acc_login ` accounts v d \<and>
     (\<forall>a \<in> accounts v d. \<exists>pw. m (acc_login a) = Some pw \<and> stored_for ssl pw a) \<and>
     (\<forall>a \<in> accounts v d. \<forall>b \<in> accounts v d. same_login v (acc_login a) (acc_login b) \<longrightarrow> a = b)"

lemma coupled_cong: "accounts v d' = accounts v d \<Longrightarrow> coupled ssl v m d' = coupled ssl v m d"
  by (simp add: coupled_def)

lemma coupled_insert:
  assumes "mysql_ok api v" "openssl_ok ssl" "coupled ssl v m d" "inserted v l h salt algo_sha256 d d'"
    and "GenerateSalt ssl 16 = Some salt" "Hash_default ssl pw salt = Inr (Some h)"
  shows "coupled ssl v (m(l \<mapsto> pw)) d'" "\<forall>k \<in> dom m. \<not> same_login v k l"
proof -
  have eq: "equivp (same_login v)" using assms(1) by (simp add: mysql_ok_def)
  have old: "\<not> same_login v (acc_login b) l" if "b \<in> accounts v d" for b using assms(4) that by (simp add: inserted_def)
  then show "\<forall>k \<in> dom m. \<not> same_login v k l" using assms(3) by (auto simp: coupled_def)
  have other: "acc_login b \<noteq> l" if "b \<in> accounts v d" for b using old[OF that] equivp_reflp[OF eq] by metis
  obtain a where a: "accounts v d' = insert a (accounts v d)" "acc_login a = l" "stored_for ssl pw a"
    using inserted_only[OF assms(1,4)] assms(6) salt_length[OF assms(2,5)] unfolding stored_for_def by metis
  have "dom (m(l \<mapsto> pw)) = acc_login ` accounts v d'" using assms(3) a(1,2) by (simp add: coupled_def)
  moreover have "\<exists>q. (m(l \<mapsto> pw)) (acc_login b) = Some q \<and> stored_for ssl q b" if "b \<in> accounts v d'" for b
    using that a assms(3) other by (cases "b = a") (auto simp: coupled_def)
  moreover have "b = c" if "b \<in> accounts v d'" "c \<in> accounts v d'" "same_login v (acc_login b) (acc_login c)" for b c
    using that a(1,2) assms(3) old equivp_symp[OF eq] unfolding coupled_def by (metis insertE)
  ultimately show "coupled ssl v (m(l \<mapsto> pw)) d'" unfolding coupled_def by blast
qed

lemma coupled_delete:
  assumes "mysql_ok api v" "coupled ssl v m d" "deleted v l d d'"
  shows "coupled ssl v (m |` {k. \<not> same_login v k l}) d'"
proof -
  have eq: "equivp (same_login v)" using assms(1) by (simp add: mysql_ok_def)
  have unique: "a = b" if "a \<in> accounts v d" "b \<in> accounts v d" "same_login v (acc_login a) l" "same_login v (acc_login b) l" for a b
    using that assms(2) equivp_transp[OF eq] equivp_symp[OF eq] unfolding coupled_def by metis
  have acc: "accounts v d' = {a \<in> accounts v d. \<not> same_login v (acc_login a) l}"
  proof (cases "\<exists>a \<in> accounts v d. same_login v (acc_login a) l")
    case True
    with assms(3) obtain a where "a \<in> accounts v d" "same_login v (acc_login a) l" "accounts v d' = accounts v d - {a}"
      by (auto simp: deleted_def)
    with unique show ?thesis by auto
  next
    case False
    with assms(3) show ?thesis by (auto simp: deleted_def)
  qed
  have "dom (m |` {k. \<not> same_login v k l}) = acc_login ` accounts v d'" using assms(2) acc by (auto simp: coupled_def)
  moreover have "\<exists>pw. (m |` {k. \<not> same_login v k l}) (acc_login a) = Some pw \<and> stored_for ssl pw a" if "a \<in> accounts v d'" for a
    using that assms(2) acc by (simp add: coupled_def)
  moreover have "a = b" if "a \<in> accounts v d'" "b \<in> accounts v d'" "same_login v (acc_login a) (acc_login b)" for a b
    using that assms(2) acc by (simp add: coupled_def)
  ultimately show ?thesis unfolding coupled_def by blast
qed

text \<open>One call: the statements stay prepared, and the store makes the corresponding step.\<close>

abbreviation all_prepared :: "'d db_view \<Rightarrow> LoginDataBase \<Rightarrow> 'd \<Rightarrow> bool" where
  "all_prepared v ldb d \<equiv> has_stmt v ldb d AddUser sql_AddUser \<and> has_stmt v ldb d GetUserByName sql_GetUserByName \<and>
     has_stmt v ldb d RemoveUserByName sql_RemoveUserByName"

lemma db_step_refines:
  assumes "mysql_ok api v" "openssl_ok ssl" "all_prepared v ldb d" "coupled ssl v m d" "db_step api ssl ldb d c d'"
  shows "all_prepared v ldb d' \<and> (\<exists>m'. store_step ssl (same_login v) m c m' \<and> coupled ssl v m' d')"
  using assms(5)
proof cases
  case (insert_call l pw ok)
  from Insert_outcome[OF assms(1) _ insert_call(2)] assms(3) have o: "sql_text v d' = sql_text v d"
    "(\<exists>salt h. GenerateSalt ssl 16 = Some salt \<and> Hash_default ssl pw salt = Inr (Some h) \<and> inserted v l h salt algo_sha256 d d') \<or>
     \<not> ok \<and> accounts v d' = accounts v d" by simp_all
  have "\<exists>m'. store_step ssl (same_login v) m c m' \<and> coupled ssl v m' d'"
    using o(2)
  proof (elim disjE exE conjE)
    fix salt h
    assume "GenerateSalt ssl 16 = Some salt" "Hash_default ssl pw salt = Inr (Some h)" "inserted v l h salt algo_sha256 d d'"
    from coupled_insert[OF assms(1,2,4) this(3,1,2)] insert_call(1) show ?thesis by (auto simp: store_step_def)
  next
    assume "\<not> ok" "accounts v d' = accounts v d"
    with assms(4) show ?thesis unfolding insert_call(1) by (intro exI[of _ m]) (simp add: store_step_def coupled_def)
  qed
  with has_stmt_cong[OF o(1), of ldb] assms(3) show ?thesis by simp
next
  case (remove_call l ok)
  from Remove_outcome[OF assms(1) _ remove_call(2)] assms(3) have o: "sql_text v d' = sql_text v d"
    "deleted v l d d' \<or> \<not> ok \<and> accounts v d' = accounts v d" by simp_all
  have "\<exists>m'. store_step ssl (same_login v) m c m' \<and> coupled ssl v m' d'"
    using o(2)
  proof (elim disjE conjE)
    assume "deleted v l d d'"
    from coupled_delete[OF assms(1,4) this] remove_call(1) show ?thesis by (auto simp: store_step_def)
  next
    assume "\<not> ok" "accounts v d' = accounts v d"
    with assms(4) show ?thesis unfolding remove_call(1) by (intro exI[of _ m]) (simp add: store_step_def coupled_def)
  qed
  with has_stmt_cong[OF o(1), of ldb] assms(3) show ?thesis by simp
next
  case (get_call l r)
  from Get_outcome[OF assms(1), of ldb d l] assms(3) get_call(2) have o: "sql_text v d' = sql_text v d" "accounts v d' = accounts v d"
    "case r of
       Some row \<Rightarrow> answers api ldb l d \<and> (\<exists>a \<in> accounts v d. same_login v (acc_login a) l \<and> readable a \<and> row = read_account a)
     | None \<Rightarrow> answers api ldb l d \<longrightarrow> (\<forall>a \<in> accounts v d. \<not> same_login v (acc_login a) l) \<or>
         (\<exists>a \<in> accounts v d. same_login v (acc_login a) l \<and> \<not> readable a)" by auto
  have eq: "equivp (same_login v)" using assms(1) by (simp add: mysql_ok_def)
  have st: "\<exists>pw. m (acc_login a) = Some pw \<and> stored_for ssl pw a" if "a \<in> accounts v d" for a
    using that assms(4) unfolding coupled_def by blast
  have "store_step ssl (same_login v) m c m"
  proof (cases r)
    case (Some row)
    with o(3) obtain a where a: "answers api ldb l d" "a \<in> accounts v d" "same_login v (acc_login a) l" "readable a" "row = read_account a"
      by auto
    with st stored_readable[OF assms(2)] show ?thesis unfolding get_call(1) Some by (fastforce simp: store_step_def)
  next
    case None
    have "64 < length k" if n: "answers api ldb l d" "k \<in> dom m" "same_login v k l" for k
    proof -
      obtain a where a: "a \<in> accounts v d" "acc_login a = k" using n(2) assms(4) by (auto simp: coupled_def)
      with o(3) None n obtain b where b: "b \<in> accounts v d" "same_login v (acc_login b) l" "\<not> readable b" by auto
      then have "same_login v (acc_login a) (acc_login b)" using a n(3) equivp_transp[OF eq] equivp_symp[OF eq] by metis
      then have "a = b" using a(1) b(1) assms(4) unfolding coupled_def by blast
      with st[OF a(1)] stored_readable(1)[OF assms(2)] a(2) b(3) show ?thesis by auto
    qed
    then show ?thesis unfolding get_call(1) None by (simp add: store_step_def)
  qed
  moreover have "coupled ssl v m d'" using assms(4) coupled_cong[OF o(2)] by simp
  ultimately show ?thesis using has_stmt_cong[OF o(1), of ldb] assms(3) by auto
qed

lemma db_run_refines:
  assumes "db_run api ssl ldb d0 cs d" "mysql_ok api v" "openssl_ok ssl" "all_prepared v ldb d0" "coupled ssl v m0 d0"
  shows "all_prepared v ldb d \<and> (\<exists>m. store_run ssl (same_login v) m0 cs m \<and> coupled ssl v m d)"
  using assms
proof (induction rule: db_run.induct)
  case (db_nil d)
  then show ?case using store_nil by blast
next
  case (db_snoc d cs d' c d'')
  then obtain m where m: "all_prepared v ldb d'" "store_run ssl (same_login v) m0 cs m" "coupled ssl v m d'" by blast
  from db_step_refines[OF db_snoc.prems(1,2) m(1,3) db_snoc.hyps(2)] m(2) show ?case by (blast intro: store_snoc)
qed


section \<open>A concrete run\<close>

lemma wit_remove: "\<exists>d'. DB_Remove wit_api wit_ldb [1, 0x20] d = Inr (True, d')" if "w_sql d 2 = Some sql_RemoveUserByName"
proof -
  have "get_stmt RemoveUserByName wit_ldb = Inr (Some 2)" by (simp add: wit_ldb_def get_stmt_def)
  then show ?thesis using that by (simp add: DB_Remove_def) (simp add: wit_api_def w_execute_def param_def)
qed


end
