(* ===== verification/Spec2Isabelle.thy ===== *)
theory Spec2Isabelle
  imports FloorRounding SafeRuns Outputs Races Startup Accounts
begin

text \<open>
  The EndlessPeak game server (\<open>src/\<close>): a verification development.

  \<^bold>\<open>The program.\<close> Clients connect by websocket, plain or over TLS. \<open>main.cpp\<close> loads the
  configuration, builds two pairs of queues (\<open>shared/subsystems\<close>), the world (\<open>game/world\<close>) and
  the server (\<open>net/server\<close>), and starts one game thread, several sender threads and several I/O
  threads. A session (\<open>net/session\<close>) assembles packets from the bytes its socket (\<open>net/socket\<close>)
  receives and queues them; connecting and disconnecting queue \<open>CreatePlayer\<close> and \<open>RemovePlayer\<close>
  packets. The game thread runs \<open>World::Tick\<close>: it swaps the queued inputs in, applies them, moves
  the players against the tile map (\<open>game/physics\<close>) and queues what the clients must know. The
  sender threads run \<open>Server::Sender\<close>: they take packets off that queue and push their bytes to the
  sessions they are addressed to, which write one buffer at a time. Accounts are kept in a MariaDB
  table (\<open>db\<close>) with PBKDF2 password hashes (\<open>cryptography\<close>).

  \<^bold>\<open>The theories\<close>, in the order of their imports.
  \<^item> \<open>Prelude\<close>: machine types, faults (null dereference, access out of bounds, invalid conversion,
    signed overflow, endless loop, uncaught exception) as values of a sum type, sequencing, the
    association-list model of \<open>std::unordered_map\<close>.
  \<^item> \<open>Binary64\<close>, \<open>Rounding\<close>, \<open>RoundingError\<close>: \<open>double\<close> as its bit pattern with correctly rounded
    arithmetic, and the facts on rounding that the physics needs: monotonicity, the error of half
    a unit in the last place, and which sums a representable number absorbs.
  \<^item> \<open>TsQueue\<close> (\<open>ts_queue.hpp\<close>): the queue; the locale \<open>fifo\<close> is its contract. Values leave in the
    order in which they were pushed, under every interleaving.
  \<^item> \<open>Protocol\<close> (\<open>shared/protocol\<close>): header, packet, stream operators, send buffer; what is
    streamed in streams out.
  \<^item> \<open>PacketHandler\<close> (\<open>packet_handler.cpp\<close> and the read handlers of \<open>session.cpp\<close>): the read loop.
    However the stream is cut, it yields the frames of a reference decoder and stays in its buffers.
  \<^item> \<open>SweptMath\<close>, \<open>Collision\<close>, \<open>Contact\<close>, \<open>FloorRounding\<close> (\<open>game/physics\<close>, \<open>game/tile\<close>,
    \<open>game/player\<close>): the swept test, the tiles it is run on, that no earlier hit and no tile is
    missed, where it is defined, and where rounding defeats it.
  \<^item> \<open>Config\<close> (\<open>shared/config\<close>): loading from JSON, and what a loaded map satisfies.
  \<^item> \<open>World\<close>, \<open>WorldLogic\<close>, \<open>WorldPhysics\<close> (\<open>world.cpp\<close>): construction, the player table, inputs,
    movement, the tick. The inputs refine a set of live players; a tick reports every position; a
    step stays between rest and full velocity.
  \<^item> \<open>Walls\<close>, \<open>Enclosure\<close>: a player against a wall. The contact time and the shortened step leave
    it at the wall or before it, rounding included, so that one update keeps every player between
    the walls of a map whose border is solid (\<open>enclosed\<close>, \<open>inside\<close>).
  \<^item> \<open>Socket\<close> (\<open>net/socket\<close>): the locale \<open>isocket\<close> is the contract both socket classes satisfy.
  \<^item> \<open>Session\<close> (\<open>session.cpp\<close>): state and send path, as functions and as the relation \<open>send_step\<close>
    over several threads: one write at a time, in push order, and a stall.
  \<^item> \<open>Server\<close>, \<open>ServerLogic\<close> (\<open>server.cpp\<close>, callbacks of \<open>session.cpp\<close>): the session table, the
    handlers, routing; who receives which packet.
  \<^item> \<open>SystemRuns\<close>: the whole server as the step relation \<open>sys_step\<close> over connections, completions,
    sender rounds and ticks; the invariants of every run, and those of orderly runs, where no client
    sends \<open>RemovePlayer\<close> and no read delivers after its session was closed.
  \<^item> \<open>Failures\<close>: runs that end in a null dereference.
  \<^item> \<open>Players\<close>: the effect of a tick on one player, determined by that player, its own inputs and
    the map; and the whole tick: the table it leaves and every packet it announces.
  \<^item> \<open>Inputs\<close>: runs with a history of what the ticks took; for every session the world gets
    \<open>CreatePlayer\<close>, the frames of the bytes received, and \<open>RemovePlayer\<close>, in this order.
  \<^item> \<open>SafeRuns\<close>: whole runs on a closed map (\<open>closed_map\<close>, which the configuration in the
    repository satisfies): nobody leaves the map, no tick faults, and the only fault left in
    orderly runs is the one of \<open>sender_can_crash\<close>.
  \<^item> \<open>Delivery\<close>: the projection of a system step to a step of one session (\<open>sess_step\<close>); no lost
    wake-up, and every completed write takes the oldest buffer off the stream.
  \<^item> \<open>Outputs\<close>: the size of the spawn packet; with at most five sessions everything sent is well formed.
  \<^item> \<open>Races\<close>: threads at the session table, one step per access, with \<open>sessions_mutex_\<close>: writers
    exclude each other, the loops of \<open>Sender\<close> are not excluded.
  \<^item> \<open>Startup\<close> (\<open>main.cpp\<close>): every configuration that loads starts.
  \<^item> \<open>Crypto\<close>, \<open>Database\<close>, \<open>DatabaseLogic\<close>, \<open>Accounts\<close> (\<open>cryptography\<close>, \<open>db\<close>): hashing, the
    connection handle, prepared statements, adding, reading and removing accounts, and runs of
    these calls as a refinement of an abstract store of passwords.
  \<^item> This theory: what clients decode, from the world to the bytes.

  \<^bold>\<open>Correspondence.\<close> A class is a record with its members, derivation is record extension, a
  \<open>shared_ptr\<close> is an index into the list of objects or an optional value with \<open>None\<close> for null.
  Operations carry the names of the member functions, with the class as prefix where two classes
  share a name. Integers have the width they have in C++ and wrap where unsigned. Undefined
  behaviour and uncaught exceptions are values of the type \<open>fault\<close>. All functions are total, without
  fuel: loops recurse over lists, queue loops are proved to end, and a loop the source never leaves
  is the fault \<open>EndlessLoop\<close>.

  \<^bold>\<open>Atomicity.\<close> Calls on a queue run under its mutex and are single steps. In \<open>sys_step\<close> a handler,
  a sender round and a tick run to their end before the next event; several threads in one
  \<open>Session::Send\<close> are interleaved in \<open>send_step\<close>, several threads at the session table in
  \<open>table_step\<close>. \<open>Sender\<close> reads that table without its mutex; \<open>table_step\<close> shows that the race is
  reachable, what the program does after it is undefined and not modelled.

  \<^bold>\<open>Parameters and bounds.\<close> The code the sources only call is a parameter: the JSON parser with the
  file system (\<open>load\<close>), OpenSSL (record \<open>OpenSSL\<close>, law \<open>openssl_ok\<close>), MariaDB (record \<open>MySQL\<close>, laws
  \<open>mysql_ok\<close> in \<open>DatabaseLogic\<close>: any call may fail, logins are compared by the collation of their
  column, of which only that it is an equivalence is used, \<open>VARCHAR(64)\<close> counts characters, and
  no other client changes the table), certificate files, address parser and acceptor (arguments of \<open>main\<close> and
  \<open>StartListen\<close>). The theorems on runs assume fewer sessions than \<open>size_t\<close> has ids. \<open>in_field\<close> bounds
  the coordinates of the physics theorems to magnitudes up to \<open>2 ^ 40\<close>, where the rounding facts hold;
  \<open>short\<close> bounds a tick to 20 ms, with the 16 or 17 ms that the configured rate of 60 gives.

  \<^bold>\<open>Not modelled.\<close> Log output; clock and sleep of \<open>GameLoop\<close> (its measured intervals are an
  argument); the internals of Boost streams, TLS options and the text of peer addresses; the effect
  of data races; type aliases; the vendored JSON parser and spdlog; the tests. Which NaN an invalid
  operation yields is fixed to one.

  \<^bold>\<open>What is left.\<close> A run relation that combines \<open>send_step\<close> and \<open>table_step\<close> with \<open>sys_step\<close>.
  \<open>SafeRuns\<close> covers maps whose far walls lie at most 960 units down, with the last place of a
  player and the wall in one binade (\<open>fitting\<close>), and ticks of at most 20 ms; a longer tick is
  possible on a busy machine and is not covered. It says nothing of tiles inside the map: a player
  can sink into those by the rounding shown in \<open>FloorRounding\<close>, the walls of the border are proved
  not to be affected.
\<close>

section \<open>From the world to the clients\<close>

text \<open>
  C1. What a client decodes is what the server meant for it. Take any state of any run with at most
  five connections so far (with more, a spawn packet may fail the header check) and a connected
  client. If some queued \<open>Rpc\<close> packet is for a session that has left the table, the rounds of the
  sender end in a null dereference. Otherwise they return, the queue is empty, and a client that
  reads the bytes handed to its socket, those not written before and the new ones, in chunks of
  any size, receives exactly the packets that were still to be written to it followed by the
  packets addressed to it, unchanged and in the order in which the world queued them.
\<close>

theorem client_decodes_its_packets:
  assumes "system_start cfg = Inr sys0" "sys_run sys0 evs sys" "length (objects sys) \<le> 5"
    and "map_of (sessions sys) i = Some (Some ptr)"
  shows "if \<exists>p \<in> set (qdata (net_out sys)). GetType p = Rpc \<and> GetID p \<notin> dom (map_of (sessions sys))
    then sender_drain sys = Inl NullDeref
    else \<exists>sys' old. sender_drain sys = Inr sys' \<and> Empty (net_out sys') \<and> out_stream (obj sys ptr) = map MakeBuffer old \<and>
      (\<forall>cs qs r. concat cs = concat (out_stream (obj sys' ptr)) \<longrightarrow> reads reader_new cs qs r \<longrightarrow>
         qs = old @ for_session i (qdata (net_out sys)))"
proof -
  have few: "few_sessions sys" using assms(3) by simp
  have t: "table_ok sys" by (rule base_table[OF base_inv_run[OF assms(2) base_inv_start[OF assms(1)] few]])
  have inv: "out_inv sys"
    by (rule out_inv_run[OF assms(2) base_inv_start[OF assms(1)] out_inv_start[OF assms(1)] assms(3)])
  have "ptr < length (objects sys)" using t assms(4) by (auto simp: table_ok_def)
  then have "frames_only (out_stream (obj sys ptr))" using inv by (simp add: out_inv_def)
  then obtain old where old: "out_stream (obj sys ptr) = map MakeBuffer old" "list_all sendable old" by (rule frames_only_packets)
  have new: "list_all sendable (for_session i (qdata (net_out sys)))"
    using inv by (auto simp: out_inv_def for_session_def list_all_iff)
  show ?thesis
  proof (cases "addressed sys")
    case True
    from drain_streams[OF t True] assms(4) old(1) obtain sys' where s: "sender_drain sys = Inr sys'" "qdata (net_out sys') = []"
      "out_stream (obj sys' ptr) = map MakeBuffer (old @ for_session i (qdata (net_out sys)))" by auto
    have "list_all sendable (old @ for_session i (qdata (net_out sys)))" using old(2) new by simp
    from frames_stream[OF this] have "qs = old @ for_session i (qdata (net_out sys))"
      if "concat cs = concat (out_stream (obj sys' ptr))" "reads reader_new cs qs r" for cs qs r
      using reads_frames[OF that(2) reader_inv_new] that(1) s(3) by (simp add: pending_new)
    moreover have "\<not> (\<exists>p \<in> set (qdata (net_out sys)). GetType p = Rpc \<and> GetID p \<notin> dom (map_of (sessions sys)))"
      using True unfolding addressed_def by blast
    ultimately show ?thesis using s(1,2) old(1) by (simp only: if_False) (auto simp: Empty_def)
  next
    case False
    then have "\<exists>p \<in> set (qdata (net_out sys)). GetType p = Rpc \<and> GetID p \<notin> dom (map_of (sessions sys))"
      unfolding addressed_def by blast
    then show ?thesis using drain_null[OF t False] by (simp only: if_True)
  qed
qed

text \<open>
  C15. Every tick tells every client where everybody is. After a tick of an orderly run and the
  sender rounds that work off what it queued, the bytes handed to each connected client end with
  one position packet per player, with the positions after the tick, and the players are exactly
  those of the connected sessions.
\<close>

theorem positions_reach_clients:
  assumes "system_start cfg = Inr sys0" "sys_run sys0 evs sys" "list_all orderly evs" "few_sessions sys"
    and "Tick dt sys = Inr sys1" "addressed sys1" "map_of (sessions sys) i = Some (Some ptr)"
  shows "\<exists>sys2 before. sender_drain sys1 = Inr sys2 \<and>
    out_stream (obj sys2 ptr) = before @ map (\<lambda>z. MakeBuffer (packet (move_packet (the (snd z))))) (players sys1) \<and>
    live sys1 = dom (map_of (sessions sys))"
proof -
  have b: "base_inv sys" by (rule base_inv_run[OF assms(2) base_inv_start[OF assms(1)] assms(4)])
  have "play_inv sys"
    by (rule play_inv_run[OF assms(2) base_inv_start[OF assms(1)] play_inv_start[OF assms(1)] assms(3,4)])
  then have w: "world_ok sys" "lives (live sys) (qdata (net_in sys)) = Some (dom (map_of (sessions sys)))" "Empty (game_in sys)"
    by (simp_all add: play_inv_def Empty_def)
  from tick_result[OF w assms(5)] obtain before where t: "live sys1 = dom (map_of (sessions sys))"
    "qdata (net_out sys1) = before @ map (\<lambda>z. move_packet (the (snd z))) (players sys1)" by (metis append.assoc)
  have "table_ok sys1" using base_table[OF b] Tick_system[OF assms(5)] by (simp add: table_ok_def)
  from drain_streams[OF this assms(6)] assms(7) Tick_system[OF assms(5)] obtain sys2 where s: "sender_drain sys1 = Inr sys2"
    "out_stream (obj sys2 ptr) = out_stream (obj sys1 ptr) @ map MakeBuffer (for_session i (qdata (net_out sys1)))" by auto
  have "targeted (move_packet p) i" for p by (simp add: targeted_def move_packet_def GetType_def)
  then have "for_session i (qdata (net_out sys1)) = for_session i before @ map (\<lambda>z. packet (move_packet (the (snd z)))) (players sys1)"
    by (simp add: t(2) for_session_def filter_map o_def)
  with s t(1) show ?thesis by (simp add: o_def)
qed

theorem client_decodes_its_packets_witness:
  "\<exists>sys0 sys sys' old. system_start wit_cfg = Inr sys0 \<and>
     sys_run sys0 [Connection False, Accepted 0 False, Ticked f64_zero] sys \<and> sender_drain sys = Inr sys' \<and>
     (\<forall>cs qs r. concat cs = concat (out_stream (obj sys' 0)) \<longrightarrow> reads reader_new cs qs r \<longrightarrow>
        qs = old @ for_session 0 (qdata (net_out sys)))"
proof -
  obtain sys0 where s: "system_start wit_cfg = Inr sys0" using wit_start by blast
  from first_client[OF s] obtain u where c: "sys_run sys0 [Connection False, Accepted 0 False] u" "objects u = [first_session]"
    "map_of (sessions u) = [0 \<mapsto> Some 0]" "qdata (net_in u) = [sys_packet CreatePlayer 0]" "players u = []"
    "qdata (game_out u) = []" "qdata (net_out u) = []" by metis
  from tick_stay[OF c(5,4,6,7)] obtain sys where t: "Tick f64_zero u = Inr sys" "\<forall>q \<in> set (qdata (net_out sys)). GetID q = 0" by blast
  have r: "sys_run sys0 [Connection False, Accepted 0 False, Ticked f64_zero] sys" using run_snoc[OF c(1) ticked[OF t(1)]] by simp
  have m: "map_of (sessions sys) = [0 \<mapsto> Some 0]" "length (objects sys) \<le> 5" using c(2,3) Tick_system[OF t(1)] by simp_all
  have n: "\<not> (\<exists>p \<in> set (qdata (net_out sys)). GetType p = Rpc \<and> GetID p \<notin> dom (map_of (sessions sys)))" using t(2) m(1) by simp
  have e: "map_of (sessions sys) 0 = Some (Some 0)" using m(1) by simp
  from client_decodes_its_packets[OF s r m(2) e, unfolded if_not_P[OF n]] obtain sys' old where "sender_drain sys = Inr sys'"
    "\<forall>cs qs r. concat cs = concat (out_stream (obj sys' 0)) \<longrightarrow> reads reader_new cs qs r \<longrightarrow> qs = old @ for_session 0 (qdata (net_out sys))"
    by blast
  with s r show ?thesis by blast
qed

theorem positions_reach_clients_witness:
  "\<exists>sys1 sys2 before. sender_drain sys1 = Inr sys2 \<and> live sys1 = {0} \<and>
    out_stream (obj sys2 0) = before @ map (\<lambda>z. MakeBuffer (packet (move_packet (the (snd z))))) (players sys1)"
proof -
  obtain sys0 where s: "system_start wit_cfg = Inr sys0" using wit_start by blast
  from first_client[OF s] obtain sys where c: "sys_run sys0 [Connection False, Accepted 0 False] sys" "objects sys = [first_session]"
    "map_of (sessions sys) = [0 \<mapsto> Some 0]" "qdata (net_in sys) = [sys_packet CreatePlayer 0]" "players sys = []"
    "qdata (game_out sys) = []" "qdata (net_out sys) = []" by metis
  from tick_stay[OF c(5,4,6,7)] obtain sys1 where t: "Tick f64_zero sys = Inr sys1" "\<forall>q \<in> set (qdata (net_out sys1)). GetID q = 0" by blast
  have "addressed sys1" using t(2) c(3) Tick_system(1)[OF t(1)] by (simp add: addressed_def)
  moreover have "list_all orderly [Connection False, Accepted 0 False]" "few_sessions sys" using c(2) by (simp_all add: orderly_def)
  ultimately show ?thesis using positions_reach_clients[OF s c(1) _ _ t(1), of 0 0] c(3) by auto
qed

end
